(* ===== verification/Prelude.thy ===== *)
theory Prelude
  imports Main "HOL-Library.Word" "HOL-Library.Multiset" "HOL-Library.Sorting_Algorithms"
    "HOL-Library.Char_ord" "HOL-Library.List_Lexorder"
begin

text \<open>
  What every component of the CloudSync model shares: the outcome of a Rust call (a
  value, an \<open>Err\<close>, or a panic), the state-passing form of it with the \<open>?\<close> operator as
  its bind, the machine integers and their casts, and the string operations of the Rust
  standard library that the sources call.
\<close>

section \<open>Collections of rewrite rules\<close>

named_theorems outcome_defs \<open>definitions of the outcome combinators\<close>
named_theorems st_defs \<open>definitions of the state-passing combinators\<close>
named_theorems preserve_intros \<open>how the combinators keep a state predicate\<close>

section \<open>Machine integers\<close>

type_synonym u8 = "8 word"
type_synonym u32 = "32 word"
type_synonym u64 = "64 word"

text \<open>
  An \<open>i64\<close> is an \<open>int\<close> in \<open>[-2^63, 2^63)\<close>; \<open>x as i64\<close> reads a \<open>u64\<close> in two's
  complement and \<open>x as u64\<close> wraps.
\<close>

definition as_i64 :: "u64 \<Rightarrow> int" where
  "as_i64 w = sint w"

definition as_u64 :: "int \<Rightarrow> u64" where
  "as_u64 i = word_of_int i"

lemma as_u64_as_i64 [simp]: "as_u64 (as_i64 w) = w"
  by (simp add: as_u64_def as_i64_def)

lemma as_i64_inj [simp]: "as_i64 a = as_i64 b \<longleftrightarrow> a = b"
  by (metis as_u64_as_i64)

lemma as_i64_range: "- (2 ^ 63) \<le> as_i64 w \<and> as_i64 w < 2 ^ 63"
  using sint_range_size [of w] by (simp add: as_i64_def word_size)

lemma as_i64_eq_uint:
  assumes "unat w < 2 ^ 63"
  shows "as_i64 w = int (unat w)"
proof -
  define n where "n = unat w"
  have u: "uint w = int n" by (simp add: n_def)
  have "signed_take_bit 63 (int n) = int n"
    using assms by (intro signed_take_bit_int_eq_self) (auto simp flip: n_def)
  then show ?thesis
    by (simp add: as_i64_def sint_uint u flip: n_def)
qed

section \<open>Outcomes of a call\<close>

datatype ('a, 'e) outcome = Ok 'a | Err 'e | Panicked

text \<open>The \<open>?\<close> operator: errors and panics leave the function.\<close>

fun bindO :: "('a, 'e) outcome \<Rightarrow> ('a \<Rightarrow> ('b, 'e) outcome) \<Rightarrow> ('b, 'e) outcome" where
  "bindO (Ok x) f = f x"
| "bindO (Err e) f = Err e"
| "bindO Panicked f = Panicked"

fun map_err :: "('e \<Rightarrow> 'f) \<Rightarrow> ('a, 'e) outcome \<Rightarrow> ('a, 'f) outcome" where
  "map_err f (Ok x) = Ok x"
| "map_err f (Err e) = Err (f e)"
| "map_err f Panicked = Panicked"

fun map_ok :: "('a \<Rightarrow> 'b) \<Rightarrow> ('a, 'e) outcome \<Rightarrow> ('b, 'e) outcome" where
  "map_ok f (Ok x) = Ok (f x)"
| "map_ok f (Err e) = Err e"
| "map_ok f Panicked = Panicked"

fun ok_or :: "'e \<Rightarrow> 'a option \<Rightarrow> ('a, 'e) outcome" where
  "ok_or e None = Err e"
| "ok_or e (Some x) = Ok x"

fun unwrap :: "'a option \<Rightarrow> ('a, 'e) outcome" where
  "unwrap None = Panicked"
| "unwrap (Some x) = Ok x"

text \<open>\<open>iter().map(f).collect::<Result<Vec<_>, _>>()\<close>: stops at the first failure.\<close>

fun collect_ok :: "('a \<Rightarrow> ('b, 'e) outcome) \<Rightarrow> 'a list \<Rightarrow> ('b list, 'e) outcome" where
  "collect_ok f [] = Ok []"
| "collect_ok f (x # xs) = bindO (f x) (\<lambda>y. bindO (collect_ok f xs) (\<lambda>ys. Ok (y # ys)))"

lemma bindO_Ok_iff: "bindO m f = Ok y \<longleftrightarrow> (\<exists>x. m = Ok x \<and> f x = Ok y)"
  by (cases m) auto

lemma bindO_Err_iff: "bindO m f = Err e \<longleftrightarrow> m = Err e \<or> (\<exists>x. m = Ok x \<and> f x = Err e)"
  by (cases m) auto

lemma bindO_assoc [simp]: "bindO (bindO m f) g = bindO m (\<lambda>x. bindO (f x) g)"
  by (cases m) auto

lemma map_err_Ok_iff [simp]: "map_err f m = Ok x \<longleftrightarrow> m = Ok x"
  by (cases m) auto

lemma map_ok_Err_iff [simp]: "map_ok f m = Err e \<longleftrightarrow> m = Err e"
  by (cases m) auto

lemma map_ok_Ok_iff: "map_ok f m = Ok y \<longleftrightarrow> (\<exists>x. m = Ok x \<and> y = f x)"
  by (cases m) auto

lemma ok_or_Ok_iff [simp]: "ok_or e v = Ok x \<longleftrightarrow> v = Some x"
  by (cases v) auto

lemma unwrap_Ok_iff [simp]: "unwrap v = Ok x \<longleftrightarrow> v = Some x"
  by (cases v) auto

lemma unwrap_not_Err [simp]: "unwrap v \<noteq> Err e"
  by (cases v) auto

lemma collect_ok_map: "(\<And>x. x \<in> set xs \<Longrightarrow> f x = Ok (g x)) \<Longrightarrow> collect_ok f xs = Ok (map g xs)"
  by (induction xs) auto

lemma collect_ok_Ok_iff:
  "collect_ok f xs = Ok ys \<longleftrightarrow> list_all2 (\<lambda>x y. f x = Ok y) xs ys"
  by (induction xs arbitrary: ys) (auto simp: bindO_Ok_iff list_all2_Cons1)

section \<open>State-passing outcomes\<close>

type_synonym ('s, 'a, 'e) st = "'s \<Rightarrow> ('a, 'e) outcome \<times> 's"

definition returnS :: "'a \<Rightarrow> ('s, 'a, 'e) st" where
  [st_defs]: "returnS x = (\<lambda>s. (Ok x, s))"

definition failS :: "'e \<Rightarrow> ('s, 'a, 'e) st" where
  [st_defs]: "failS e = (\<lambda>s. (Err e, s))"

definition liftS :: "('a, 'e) outcome \<Rightarrow> ('s, 'a, 'e) st" where
  [st_defs]: "liftS r = (\<lambda>s. (r, s))"

definition bindS :: "('s, 'a, 'e) st \<Rightarrow> ('a \<Rightarrow> ('s, 'b, 'e) st) \<Rightarrow> ('s, 'b, 'e) st" where
  [st_defs]: "bindS m f = (\<lambda>s. case m s of
      (Ok x, s') \<Rightarrow> f x s'
    | (Err e, s') \<Rightarrow> (Err e, s')
    | (Panicked, s') \<Rightarrow> (Panicked, s'))"

definition map_errS :: "('e \<Rightarrow> 'f) \<Rightarrow> ('s, 'a, 'e) st \<Rightarrow> ('s, 'a, 'f) st" where
  [st_defs]: "map_errS f m = (\<lambda>s. case m s of (r, s') \<Rightarrow> (map_err f r, s'))"

text \<open>A \<open>for\<close> loop over a vector whose body may leave the function with \<open>?\<close>.\<close>

fun for_eachS :: "('a \<Rightarrow> ('s, unit, 'e) st) \<Rightarrow> 'a list \<Rightarrow> ('s, unit, 'e) st" where
  "for_eachS f [] = returnS ()"
| "for_eachS f (x # xs) = bindS (f x) (\<lambda>_. for_eachS f xs)"

lemma returnS_app [simp]: "returnS x s = (Ok x, s)"
  by (simp add: returnS_def)

lemma failS_app [simp]: "failS e s = (Err e, s)"
  by (simp add: failS_def)

lemma liftS_app [simp]: "liftS r s = (r, s)"
  by (simp add: liftS_def)

lemma bindS_Ok [simp]: "m s = (Ok x, s') \<Longrightarrow> bindS m f s = f x s'"
  by (simp add: bindS_def)

lemma bindS_Err [simp]: "m s = (Err e, s') \<Longrightarrow> bindS m f s = (Err e, s')"
  by (simp add: bindS_def)

lemma bindS_Panicked [simp]: "m s = (Panicked, s') \<Longrightarrow> bindS m f s = (Panicked, s')"
  by (simp add: bindS_def)

lemma bindS_returnS [simp]: "bindS (returnS x) f = f x"
  by (simp add: st_defs)

lemma bindS_assoc: "bindS (bindS m f) g = bindS m (\<lambda>x. bindS (f x) g)"
  by (auto simp: bindS_def split: prod.splits outcome.splits)

lemma bindS_Pair: "bindS (Pair (Ok x)) f = f x"
  by (simp add: bindS_def)

lemma map_errS_Ok [simp]: "m s = (Ok x, s') \<Longrightarrow> map_errS f m s = (Ok x, s')"
  by (simp add: map_errS_def)

lemma map_errS_Err [simp]: "m s = (Err e, s') \<Longrightarrow> map_errS f m s = (Err (f e), s')"
  by (simp add: map_errS_def)

lemma map_errS_state [simp]: "snd (map_errS f m s) = snd (m s)"
  by (simp add: map_errS_def split: prod.splits)

lemma bindS_eq_Ok:
  "bindS m f s = (Ok y, s'') \<longleftrightarrow> (\<exists>x s'. m s = (Ok x, s') \<and> f x s' = (Ok y, s''))"
  by (auto simp: bindS_def split: prod.splits outcome.splits)

lemma bindS_cases:
  obtains (ok) x s' where "m s = (Ok x, s')" "bindS m f s = f x s'"
    | (err) e s' where "m s = (Err e, s')" "bindS m f s = (Err e, s')"
    | (panic) s' where "m s = (Panicked, s')" "bindS m f s = (Panicked, s')"
  by (cases "m s"; cases "fst (m s)") auto

text \<open>A state predicate that a computation keeps on every path, errors and panics included.\<close>

definition preserves :: "('s \<Rightarrow> bool) \<Rightarrow> ('s, 'a, 'e) st \<Rightarrow> bool" where
  "preserves P m \<longleftrightarrow> (\<forall>s. P s \<longrightarrow> P (snd (m s)))"

lemma preservesI: "(\<And>s. P s \<Longrightarrow> P (snd (m s))) \<Longrightarrow> preserves P m"
  by (simp add: preserves_def)

lemma preservesD: "preserves P m \<Longrightarrow> P s \<Longrightarrow> m s = (r, s') \<Longrightarrow> P s'"
  by (fastforce simp: preserves_def)

lemma preserves_returnS [preserve_intros]: "preserves P (returnS x)"
  by (simp add: preserves_def)

lemma preserves_failS [preserve_intros]: "preserves P (failS e)"
  by (simp add: preserves_def)

lemma preserves_liftS [preserve_intros]: "preserves P (liftS r)"
  by (simp add: preserves_def)

lemma preserves_bindS [preserve_intros]:
  assumes "preserves P m" and "\<And>x. preserves P (f x)"
  shows "preserves P (bindS m f)"
proof (rule preservesI)
  fix s assume "P s"
  with assms show "P (snd (bindS m f s))"
    by (cases m s f rule: bindS_cases) (auto simp: preserves_def dest!: spec [of _ s])
qed

lemma preserves_map_errS [preserve_intros]: "preserves P m \<Longrightarrow> preserves P (map_errS f m)"
  by (auto simp: preserves_def map_errS_def split: prod.splits)

lemma preserves_for_eachS [preserve_intros]:
  "(\<And>x. x \<in> set xs \<Longrightarrow> preserves P (f x)) \<Longrightarrow> preserves P (for_eachS f xs)"
  by (induction xs) (auto intro!: preserve_intros)

section \<open>Vectors and orderings of the Rust standard library\<close>

text \<open>\<open>Ord::cmp\<close> on a totally ordered type; \<open>Ordering\<close> is the library's \<open>comp\<close>.\<close>

definition cmp_ord :: "'a :: linorder \<Rightarrow> 'a \<Rightarrow> comp" where
  "cmp_ord a b = (if a < b then Less else if a = b then Equiv else Greater)"

text \<open>\<open>Iterator::position\<close> and \<open>Vec::remove\<close> (the sources only remove at a found position).\<close>

fun position :: "('a \<Rightarrow> bool) \<Rightarrow> 'a list \<Rightarrow> nat option" where
  "position P [] = None"
| "position P (x # xs) = (if P x then Some 0 else map_option Suc (position P xs))"

definition remove_nth :: "nat \<Rightarrow> 'a list \<Rightarrow> 'a list" where
  "remove_nth i xs = take i xs @ drop (Suc i) xs"

lemma cmp_ord_simps [simp]:
  "cmp_ord a b = Less \<longleftrightarrow> a < b" "cmp_ord a b = Equiv \<longleftrightarrow> a = b" "cmp_ord a b = Greater \<longleftrightarrow> b < a"
  by (auto simp: cmp_ord_def)

lemma position_None_iff [simp]: "position P xs = None \<longleftrightarrow> (\<forall>x \<in> set xs. \<not> P x)"
  by (induction xs) auto

lemma position_Some: "position P xs = Some i \<Longrightarrow> i < length xs \<and> P (xs ! i) \<and> (\<forall>j < i. \<not> P (xs ! j))"
  by (induction xs arbitrary: i) (auto split: if_splits simp: less_Suc_eq_0_disj)

lemma mset_remove_nth: "i < length xs \<Longrightarrow> mset xs = add_mset (xs ! i) (mset (remove_nth i xs))"
  by (subst id_take_nth_drop [of i xs]) (simp_all add: remove_nth_def)

section \<open>Strings of the Rust standard library\<close>

text \<open>
  A \<open>String\<close> is its UTF-8 bytes as an Isabelle \<open>string\<close>. Every pattern the sources
  search for is ASCII, so searching bytes and searching code points agree.
\<close>

abbreviation slash :: char where "slash \<equiv> CHR ''/''"
abbreviation backslash :: char where "backslash \<equiv> CHR 0x5C"

definition starts_with :: "string \<Rightarrow> string \<Rightarrow> bool" where
  "starts_with p s \<longleftrightarrow> take (length p) s = p"

definition trim_start_matches :: "char \<Rightarrow> string \<Rightarrow> string" where
  "trim_start_matches c s = dropWhile (\<lambda>x. x = c) s"

definition trim_end_matches :: "char \<Rightarrow> string \<Rightarrow> string" where
  "trim_end_matches c s = rev (dropWhile (\<lambda>x. x = c) (rev s))"

definition replace_char :: "char \<Rightarrow> char \<Rightarrow> string \<Rightarrow> string" where
  "replace_char a b s = map (\<lambda>x. if x = a then b else x) s"

text \<open>\<open>str::rfind\<close>: the index of the last occurrence.\<close>

fun rfind :: "char \<Rightarrow> string \<Rightarrow> nat option" where
  "rfind c [] = None"
| "rfind c (x # xs) = (case rfind c xs of
     Some i \<Rightarrow> Some (Suc i)
   | None \<Rightarrow> if x = c then Some 0 else None)"

text \<open>\<open>s.rsplit(c).next()\<close>: what follows the last occurrence, or the whole string.\<close>

definition rsplit_first :: "char \<Rightarrow> string \<Rightarrow> string" where
  "rsplit_first c s = rev (takeWhile (\<lambda>x. x \<noteq> c) (rev s))"

text \<open>\<open>str::split\<close> on a character: there is one more piece than there are occurrences.\<close>

fun split_char :: "char \<Rightarrow> string \<Rightarrow> string list" where
  "split_char c [] = [[]]"
| "split_char c (x # xs) =
     (if x = c then [] # split_char c xs
      else case split_char c xs of [] \<Rightarrow> [[x]] | y # ys \<Rightarrow> (x # y) # ys)"

text \<open>Decimal rendering of an unsigned number.\<close>

fun show_nat :: "nat \<Rightarrow> string" where
  "show_nat n =
     (if n < 10 then [char_of (48 + n)] else show_nat (n div 10) @ [char_of (48 + n mod 10)])"

declare show_nat.simps [simp del]

lemma starts_with_iff: "starts_with p s \<longleftrightarrow> (\<exists>r. s = p @ r)"
  by (metis append_eq_conv_conj append_take_drop_id starts_with_def)

lemma starts_with_append [simp]: "starts_with p (p @ r)"
  by (simp add: starts_with_def)

lemma trim_start_no_prefix: "trim_start_matches c s = [] \<or> hd (trim_start_matches c s) \<noteq> c"
  using hd_dropWhile [of "\<lambda>x. x = c" s] by (auto simp: trim_start_matches_def)

lemma trim_start_id [simp]: "s = [] \<or> hd s \<noteq> c \<Longrightarrow> trim_start_matches c s = s"
  by (cases s) (auto simp: trim_start_matches_def)

lemma trim_end_no_suffix: "trim_end_matches c s = [] \<or> last (trim_end_matches c s) \<noteq> c"
  using hd_dropWhile [of "\<lambda>x. x = c" "rev s"]
  by (auto simp: trim_end_matches_def last_rev)

lemma trim_end_id [simp]: "s = [] \<or> last s \<noteq> c \<Longrightarrow> trim_end_matches c s = s"
  by (cases s rule: rev_cases) (auto simp: trim_end_matches_def)

lemma trim_end_decomp: "\<exists>n. s = trim_end_matches c s @ replicate n c"
proof (induction s rule: rev_induct)
  case Nil
  then show ?case by (simp add: trim_end_matches_def)
next
  case (snoc x s)
  show ?case
  proof (cases "x = c")
    case True
    from snoc obtain n where "s = trim_end_matches c s @ replicate n c" by blast
    then have "s @ [c] = trim_end_matches c s @ replicate (Suc n) c"
      by (metis append.assoc replicate_append_same replicate_Suc)
    moreover have "trim_end_matches c (s @ [c]) = trim_end_matches c s"
      by (simp add: trim_end_matches_def)
    ultimately show ?thesis using True by metis
  next
    case False
    then show ?thesis by (intro exI [of _ 0]) simp
  qed
qed

lemma trim_end_length: "length (trim_end_matches c s) \<le> length s"
  by (metis (no_types, lifting) length_dropWhile_le length_rev trim_end_matches_def)

lemma rfind_None_iff [simp]: "rfind c s = None \<longleftrightarrow> c \<notin> set s"
  by (induction s) (auto split: option.splits)

lemma rfind_append_notin: "c \<notin> set t \<Longrightarrow> rfind c (s @ c # t) = Some (length s)"
  by (induction s) (auto simp: rfind_None_iff [THEN iffD2])

lemma rfind_SomeD: "rfind c s = Some i \<Longrightarrow> i < length s \<and> s ! i = c \<and> c \<notin> set (drop (Suc i) s)"
  by (induction s arbitrary: i) (auto split: option.splits if_splits simp: nth_Cons')

lemma rsplit_first_append: "c \<notin> set t \<Longrightarrow> rsplit_first c (s @ c # t) = t"
  by (simp add: rsplit_first_def takeWhile_append)

section \<open>Bytes and text\<close>

text \<open>Which byte sequences the standard library accepts as UTF-8.\<close>

definition utf8_cont :: "nat \<Rightarrow> bool" where
  "utf8_cont b \<longleftrightarrow> 0x80 \<le> b \<and> b \<le> 0xBF"

fun utf8_ok :: "nat list \<Rightarrow> bool" where
  "utf8_ok [] = True"
| "utf8_ok (a # s) =
     (if a < 0x80 then utf8_ok s
      else if 0xC2 \<le> a \<and> a \<le> 0xDF then (case s of b # r \<Rightarrow> utf8_cont b \<and> utf8_ok r | _ \<Rightarrow> False)
      else if 0xE0 \<le> a \<and> a \<le> 0xEF then
        (case s of b # c # r \<Rightarrow> (if a = 0xE0 then 0xA0 else 0x80) \<le> b \<and> b \<le> (if a = 0xED then 0x9F else 0xBF) \<and>
           utf8_cont c \<and> utf8_ok r | _ \<Rightarrow> False)
      else if 0xF0 \<le> a \<and> a \<le> 0xF4 then
        (case s of b # c # d # r \<Rightarrow> (if a = 0xF0 then 0x90 else 0x80) \<le> b \<and> b \<le> (if a = 0xF4 then 0x8F else 0xBF) \<and>
           utf8_cont c \<and> utf8_cont d \<and> utf8_ok r | _ \<Rightarrow> False)
      else False)"

text \<open>\<open>str::trim_end\<close>: the encodings of the characters with the property \<open>White_Space\<close>.\<close>

definition white_space :: "nat list list" where
  "white_space = [[9], [10], [11], [12], [13], [32], [0xC2, 0x85], [0xC2, 0xA0], [0xE1, 0x9A, 0x80],
     [0xE2, 0x80, 0xA8], [0xE2, 0x80, 0xA9], [0xE2, 0x80, 0xAF], [0xE2, 0x81, 0x9F], [0xE3, 0x80, 0x80]] @
     map (\<lambda>n. [0xE2, 0x80, n]) [0x80..<0x8B]"

definition white_suffix :: "string \<Rightarrow> nat option" where
  "white_suffix s = map_option length (find (\<lambda>w. w \<noteq> [] \<and> length w \<le> length s \<and>
     map of_char (drop (length s - length w) s) = w) white_space)"

lemma white_suffix_pos: "white_suffix s = Some n \<Longrightarrow> 0 < n \<and> n \<le> length s"
  by (auto simp: white_suffix_def find_Some_iff)

function trim_end :: "string \<Rightarrow> string" where
  "trim_end s = (case white_suffix s of None \<Rightarrow> s | Some n \<Rightarrow> trim_end (take (length s - n) s))"
  by pat_completeness auto
termination
  by (relation "measure length") (auto dest: white_suffix_pos)

declare trim_end.simps [simp del]

lemma trim_end_none: "white_suffix s = None \<Longrightarrow> trim_end s = s"
  by (simp add: trim_end.simps)

lemma white_suffix_newline: "white_suffix (s @ [CHR 0x0A]) = Some 1"
  by (simp add: white_suffix_def white_space_def)

lemma trim_end_newline: "trim_end (s @ [CHR 0x0A]) = trim_end s"
  by (subst trim_end.simps) (simp add: white_suffix_newline)

end
