(* ===== verification/Core_Types.thy ===== *)
theory Core_Types
  imports Prelude
begin

text \<open>
  The crate \<open>cloudsync-core\<close>: identifiers, cloud paths, provider identifiers, cloud items
  and change lists (\<open>types.rs\<close>), the synchronisation state of a file (\<open>file_state.rs\<close>), the
  error type (\<open>error.rs\<close>) and the web addresses of cloud-native files (\<open>browser.rs\<close>).
  \<open>chrono\<close> and \<open>url\<close> are parameters: \<open>datetime\<close> is an instant in nanoseconds since the
  epoch, and the conversions to and from Unix seconds and the URL parser are arguments.
\<close>

section \<open>Instants\<close>

type_synonym datetime = int

record chrono =
  timestamp :: "datetime \<Rightarrow> int"
  from_timestamp :: "int \<Rightarrow> datetime option"

text \<open>
  What the sources rely on: an instant that \<open>chrono\<close> can represent goes to Unix seconds
  and back with its fraction of a second cut off.
\<close>

definition trunc_subsecs :: "datetime \<Rightarrow> datetime" where
  "trunc_subsecs d = d - d mod 1000000000"

definition stamp_ok :: "chrono \<Rightarrow> datetime \<Rightarrow> bool" where
  "stamp_ok c d \<longleftrightarrow> from_timestamp c (timestamp c d) = Some (trunc_subsecs d)"

text \<open>The conversions as \<open>chrono\<close> documents them, for evaluating the model on an input.\<close>

definition chrono_utc :: chrono where
  "chrono_utc = \<lparr> timestamp = (\<lambda>d. d div 1000000000),
     from_timestamp = (\<lambda>s. if - 8334601228800 \<le> s \<and> s \<le> 8210266876799
                            then Some (s * 1000000000) else None) \<rparr>"

lemma trunc_subsecs_idem [simp]: "trunc_subsecs (trunc_subsecs d) = trunc_subsecs d"
  by (simp add: trunc_subsecs_def minus_mod_eq_mult_div)

lemma stamp_ok_utc:
  "- 8334601228800 * 1000000000 \<le> d \<Longrightarrow> d < 8210266876800 * 1000000000 \<Longrightarrow> stamp_ok chrono_utc d"
  by (auto simp: stamp_ok_def chrono_utc_def trunc_subsecs_def minus_mod_eq_mult_div)

section \<open>The surroundings of a call\<close>

text \<open>
  Random identifiers (\<open>Uuid::new_v4().to_string()\<close>) and the clock (\<open>Utc::now()\<close>) come from
  the surroundings, a value of an arbitrary type \<open>'w\<close> that every such call may change.
\<close>

record 'w sys =
  new_v4 :: "'w \<Rightarrow> string \<times> 'w"
  utc_now :: "'w \<Rightarrow> datetime \<times> 'w"

section \<open>Identifiers\<close>

datatype AccountId = AccountId string

datatype FileId = FileId string

definition account_id_new :: "'w sys \<Rightarrow> 'w \<Rightarrow> AccountId \<times> 'w" where
  "account_id_new env w = (case new_v4 env w of (s, w') \<Rightarrow> (AccountId s, w'))"

primrec account_id_str :: "AccountId \<Rightarrow> string" where
  "account_id_str (AccountId s) = s"

primrec file_id_str :: "FileId \<Rightarrow> string" where
  "file_id_str (FileId s) = s"

lemma AccountId_str [simp]: "AccountId (account_id_str a) = a"
  by (cases a) simp

lemma FileId_str [simp]: "FileId (file_id_str f) = f"
  by (cases f) simp

lemma account_id_str_inj [simp]: "account_id_str a = account_id_str b \<longleftrightarrow> a = b"
  by (cases a; cases b) simp

lemma file_id_str_inj [simp]: "file_id_str a = file_id_str b \<longleftrightarrow> a = b"
  by (cases a; cases b) simp

section \<open>Cloud paths\<close>

datatype CloudPath = CloudPath string

primrec cloud_path_as_str :: "CloudPath \<Rightarrow> string" where
  "cloud_path_as_str (CloudPath s) = s"

definition cloud_path_new :: "string \<Rightarrow> CloudPath" where
  "cloud_path_new path =
     (let normalized = (if starts_with ''/'' path then path else ''/'' @ path)
      in CloudPath (replace_char backslash slash normalized))"

definition cloud_path_root :: CloudPath where
  "cloud_path_root = CloudPath ''/''"

definition cloud_path_parent :: "CloudPath \<Rightarrow> CloudPath option" where
  "cloud_path_parent p =
     (if cloud_path_as_str p = ''/'' then None
      else let trimmed = trim_end_matches slash (cloud_path_as_str p)
           in case rfind slash trimmed of
                Some idx \<Rightarrow> if idx = 0 then Some cloud_path_root
                            else Some (CloudPath (take idx trimmed))
              | None \<Rightarrow> Some cloud_path_root)"

definition cloud_path_file_name :: "CloudPath \<Rightarrow> string option" where
  "cloud_path_file_name p =
     (if cloud_path_as_str p = ''/'' then None
      else Some (rsplit_first slash (trim_end_matches slash (cloud_path_as_str p))))"

definition cloud_path_join :: "CloudPath \<Rightarrow> string \<Rightarrow> CloudPath" where
  "cloud_path_join p component =
     CloudPath (trim_end_matches slash (cloud_path_as_str p) @ ''/''
                @ trim_start_matches slash component)"

definition cloud_path_is_root :: "CloudPath \<Rightarrow> bool" where
  "cloud_path_is_root p \<longleftrightarrow> cloud_path_as_str p = ''/''"

text \<open>What \<open>CloudPath::new\<close> promises: a leading slash and no backslash.\<close>

definition normal_path :: "CloudPath \<Rightarrow> bool" where
  "normal_path p \<longleftrightarrow> starts_with ''/'' (cloud_path_as_str p) \<and> backslash \<notin> set (cloud_path_as_str p)"

text \<open>A path that names an entry without a trailing slash, or the root.\<close>

definition canonical_path :: "CloudPath \<Rightarrow> bool" where
  "canonical_path p \<longleftrightarrow> normal_path p \<and>
     (cloud_path_is_root p \<or> last (cloud_path_as_str p) \<noteq> slash)"

lemma CloudPath_as_str [simp]: "CloudPath (cloud_path_as_str p) = p"
  by (cases p) simp

lemma cloud_path_as_str_inj [simp]: "cloud_path_as_str p = cloud_path_as_str q \<longleftrightarrow> p = q"
  by (cases p; cases q) simp

lemma starts_with_slash_iff: "starts_with ''/'' s \<longleftrightarrow> s \<noteq> [] \<and> hd s = slash"
  by (cases s) (auto simp: starts_with_def)

lemma normal_path_new: "normal_path (cloud_path_new s)"
  by (auto simp: normal_path_def cloud_path_new_def starts_with_slash_iff replace_char_def
      hd_map Let_def)

lemma cloud_path_new_id: "normal_path p \<Longrightarrow> cloud_path_new (cloud_path_as_str p) = p"
  by (cases p) (auto simp: normal_path_def cloud_path_new_def replace_char_def Let_def
      intro!: map_idI)

lemma normal_path_root [simp]: "normal_path cloud_path_root"
  by (simp add: normal_path_def cloud_path_root_def starts_with_def)

lemma normal_path_parent:
  assumes p: "normal_path p" and q: "cloud_path_parent p = Some q"
  shows "normal_path q"
proof -
  define t where "t = trim_end_matches slash (cloud_path_as_str p)"
  obtain n where n: "cloud_path_as_str p = t @ replicate n slash"
    using trim_end_decomp unfolding t_def by blast
  from q consider "q = cloud_path_root"
    | idx where "rfind slash t = Some idx" "idx \<noteq> 0" "q = CloudPath (take idx t)"
    by (auto simp: cloud_path_parent_def Let_def simp flip: t_def split: if_splits option.splits)
  then show ?thesis
  proof cases
    case 2
    then have "idx < length t" using rfind_SomeD by blast
    with 2(2) p n have "starts_with ''/'' (take idx t)"
      by (cases t) (auto simp: normal_path_def starts_with_slash_iff hd_take)
    moreover from p n have "backslash \<notin> set (take idx t)"
      by (auto simp: normal_path_def dest: in_set_takeD)
    ultimately show ?thesis using 2(3) by (simp add: normal_path_def)
  qed simp
qed

lemma normal_path_join:
  assumes "normal_path p" and "backslash \<notin> set c"
  shows "normal_path (cloud_path_join p c)"
proof -
  define t where "t = trim_end_matches slash (cloud_path_as_str p)"
  obtain n where n: "cloud_path_as_str p = t @ replicate n slash"
    using trim_end_decomp unfolding t_def by blast
  have "t = [] \<or> hd t = slash"
    using assms(1) n by (cases t) (auto simp: normal_path_def starts_with_slash_iff)
  moreover have "backslash \<notin> set t" using assms(1) n by (auto simp: normal_path_def)
  moreover have "backslash \<notin> set (trim_start_matches slash c)"
    using assms(2) by (auto simp: trim_start_matches_def dest: set_dropWhileD)
  ultimately show ?thesis
    by (auto simp: normal_path_def cloud_path_join_def starts_with_slash_iff hd_append
        simp flip: t_def)
qed

text \<open>Every step to the parent shortens a normal path, so climbing ends at the root.\<close>

lemma cloud_path_parent_shorter:
  assumes p: "normal_path p" and q: "cloud_path_parent p = Some q"
  shows "length (cloud_path_as_str q) < length (cloud_path_as_str p)"
proof -
  define t where "t = trim_end_matches slash (cloud_path_as_str p)"
  have t: "length t \<le> length (cloud_path_as_str p)"
    by (simp add: t_def trim_end_length)
  have ne: "cloud_path_as_str p \<noteq> ''/''" using q by (auto simp: cloud_path_parent_def)
  have len: "1 < length (cloud_path_as_str p)"
    using p ne by (cases "cloud_path_as_str p"; cases "tl (cloud_path_as_str p)")
      (auto simp: normal_path_def starts_with_slash_iff)
  from q consider "q = cloud_path_root"
    | idx where "rfind slash t = Some idx" "q = CloudPath (take idx t)"
    by (auto simp: cloud_path_parent_def Let_def simp flip: t_def split: if_splits option.splits)
  then show ?thesis
  proof cases
    case 1
    with len show ?thesis by (simp add: cloud_path_root_def)
  next
    case 2
    from rfind_SomeD [OF 2(1)] have "idx < length t" by blast
    with t 2(2) show ?thesis by simp
  qed
qed

text \<open>The ancestors of a path, nearest first, as a caller climbing with \<open>parent\<close> sees them.\<close>

function cloud_path_ancestors :: "CloudPath \<Rightarrow> CloudPath list" where
  "cloud_path_ancestors p =
     (if normal_path p then
        case cloud_path_parent p of None \<Rightarrow> [] | Some q \<Rightarrow> q # cloud_path_ancestors q
      else [])"
  by pat_completeness auto
termination
  by (relation "measure (\<lambda>p. length (cloud_path_as_str p))") (auto dest: cloud_path_parent_shorter)

declare cloud_path_ancestors.simps [simp del]

lemma parent_None_iff: "cloud_path_parent p = None \<longleftrightarrow> p = cloud_path_root"
  by (cases p) (auto simp: cloud_path_parent_def cloud_path_root_def Let_def split: option.splits)

lemma cloud_path_ancestors_last:
  "normal_path p \<Longrightarrow> p \<noteq> cloud_path_root \<Longrightarrow>
   cloud_path_ancestors p \<noteq> [] \<and> last (cloud_path_ancestors p) = cloud_path_root"
proof (induction p rule: cloud_path_ancestors.induct)
  case (1 p)
  then obtain q where q: "cloud_path_parent p = Some q"
    using parent_None_iff by (cases "cloud_path_parent p") auto
  then have nq: "normal_path q" using 1 normal_path_parent by blast
  have eq: "cloud_path_ancestors p = q # cloud_path_ancestors q"
    using q 1 by (simp add: cloud_path_ancestors.simps [of p])
  show ?case
  proof (cases "q = cloud_path_root")
    case True
    moreover have "cloud_path_ancestors cloud_path_root = []"
      using parent_None_iff [of cloud_path_root] by (simp add: cloud_path_ancestors.simps)
    ultimately show ?thesis by (simp add: eq)
  next
    case False
    with 1 q nq show ?thesis by (auto simp: eq)
  qed
qed

text \<open>Joining one component is undone by \<open>parent\<close> and \<open>file_name\<close>.\<close>

lemma join_component:
  assumes p: "canonical_path p" and c: "c \<noteq> []" "slash \<notin> set c"
  defines "b \<equiv> (if p = cloud_path_root then [] else cloud_path_as_str p)"
  shows "cloud_path_as_str (cloud_path_join p c) = b @ slash # c"
    and "cloud_path_as_str (cloud_path_join p c) \<noteq> ''/''"
    and "trim_end_matches slash (b @ slash # c) = b @ slash # c"
proof -
  have last: "last (b @ slash # c) \<noteq> slash"
    using c by (metis last.simps last_append last_in_set list.discI)
  then show "trim_end_matches slash (b @ slash # c) = b @ slash # c" by simp
  have "trim_start_matches slash c = c" using c by (cases c) auto
  moreover have "trim_end_matches slash (cloud_path_as_str p) = b"
  proof (cases "p = cloud_path_root")
    case True
    then show ?thesis by (simp add: b_def cloud_path_root_def trim_end_matches_def)
  next
    case False
    then have "cloud_path_as_str p \<noteq> ''/''" by (cases p) (simp add: cloud_path_root_def)
    with p False show ?thesis by (simp add: canonical_path_def b_def cloud_path_is_root_def)
  qed
  ultimately show eq: "cloud_path_as_str (cloud_path_join p c) = b @ slash # c"
    by (simp add: cloud_path_join_def)
  show "cloud_path_as_str (cloud_path_join p c) \<noteq> ''/''"
    using c(1) unfolding eq by (cases b) auto
qed

lemma parent_join_component:
  assumes p: "canonical_path p" and c: "c \<noteq> []" "slash \<notin> set c"
  shows "cloud_path_parent (cloud_path_join p c) = Some p"
    and "cloud_path_file_name (cloud_path_join p c) = Some c"
proof -
  note j = join_component [OF p c]
  show "cloud_path_file_name (cloud_path_join p c) = Some c"
    using j c(2) by (auto simp: cloud_path_file_name_def rsplit_first_append)
  have "p \<noteq> cloud_path_root \<Longrightarrow> cloud_path_as_str p \<noteq> []"
    using p by (auto simp: canonical_path_def normal_path_def starts_with_def)
  then show "cloud_path_parent (cloud_path_join p c) = Some p"
    using j c(2) by (auto simp: cloud_path_parent_def Let_def rfind_append_notin split: if_splits)
qed

section \<open>Providers\<close>

datatype ProviderId = GoogleDrive | Dropbox | OneDrive

fun provider_as_str :: "ProviderId \<Rightarrow> string" where
  "provider_as_str GoogleDrive = ''gdrive''"
| "provider_as_str Dropbox = ''dropbox''"
| "provider_as_str OneDrive = ''onedrive''"

definition provider_from_slug :: "string \<Rightarrow> ProviderId option" where
  "provider_from_slug slug =
     (if slug = ''gdrive'' then Some GoogleDrive
      else if slug = ''dropbox'' then Some Dropbox
      else if slug = ''onedrive'' then Some OneDrive
      else None)"

fun provider_display_name :: "ProviderId \<Rightarrow> string" where
  "provider_display_name GoogleDrive = ''Google Drive''"
| "provider_display_name Dropbox = ''Dropbox''"
| "provider_display_name OneDrive = ''OneDrive''"

lemma provider_from_slug_iff: "provider_from_slug s = Some p \<longleftrightarrow> s = provider_as_str p"
  by (cases p) (auto simp: provider_from_slug_def)

section \<open>Items, versions and change lists\<close>

record CloudItem =
  ci_id :: FileId
  ci_name :: string
  ci_path :: CloudPath
  ci_is_folder :: bool
  ci_size :: "u64 option"
  ci_content_hash :: "string option"
  ci_modified :: datetime
  ci_created :: "datetime option"
  ci_mime_type :: "string option"

definition cloud_item_folder :: "FileId \<Rightarrow> string \<Rightarrow> CloudPath \<Rightarrow> datetime \<Rightarrow> CloudItem" where
  "cloud_item_folder i n p m = \<lparr> ci_id = i, ci_name = n, ci_path = p, ci_is_folder = True,
     ci_size = None, ci_content_hash = None, ci_modified = m, ci_created = None,
     ci_mime_type = None \<rparr>"

definition cloud_item_file ::
  "FileId \<Rightarrow> string \<Rightarrow> CloudPath \<Rightarrow> u64 \<Rightarrow> datetime \<Rightarrow> CloudItem" where
  "cloud_item_file i n p sz m = \<lparr> ci_id = i, ci_name = n, ci_path = p, ci_is_folder = False,
     ci_size = Some sz, ci_content_hash = None, ci_modified = m, ci_created = None,
     ci_mime_type = None \<rparr>"

record ShareOptions =
  so_allow_edit :: bool
  so_expires_at :: "datetime option"
  so_password :: "string option"

record FileVersion =
  fv_id :: string
  fv_modified :: datetime
  fv_size :: u64
  fv_modified_by :: "string option"

record TransferProgress =
  tp_bytes_transferred :: u64
  tp_total_bytes :: u64

definition transfer_progress_new :: "u64 \<Rightarrow> TransferProgress" where
  "transfer_progress_new n = \<lparr> tp_bytes_transferred = 0, tp_total_bytes = n \<rparr>"

definition transfer_is_complete :: "TransferProgress \<Rightarrow> bool" where
  "transfer_is_complete p \<longleftrightarrow> tp_total_bytes p \<le> tp_bytes_transferred p"

record Change =
  ch_item :: "CloudItem option"
  ch_file_id :: FileId
  ch_deleted :: bool
  ch_timestamp :: datetime

record ChangeList =
  cl_changes :: "Change list"
  cl_cursor :: string
  cl_has_more :: bool

section \<open>Synchronisation state of a file\<close>

datatype FileState =
  Synced | CloudOnly | Syncing | Pending | Error | Excluded | OfflineModified | Conflict

definition file_state_default :: FileState where
  "file_state_default = Pending"

fun file_state_description :: "FileState \<Rightarrow> string" where
  "file_state_description Synced = ''File is fully synchronized''"
| "file_state_description CloudOnly = ''File is available in cloud only''"
| "file_state_description Syncing = ''File is being synchronized''"
| "file_state_description Pending = ''File is queued for synchronization''"
| "file_state_description Error = ''Synchronization failed''"
| "file_state_description Excluded = ''File is excluded from sync''"
| "file_state_description OfflineModified = ''Local changes pending upload''"
| "file_state_description Conflict = ''File has conflicting versions''"

definition is_available_locally :: "FileState \<Rightarrow> bool" where
  "is_available_locally s \<longleftrightarrow> s \<in> {Synced, OfflineModified, Conflict}"

definition needs_attention :: "FileState \<Rightarrow> bool" where
  "needs_attention s \<longleftrightarrow> s \<in> {Error, Conflict}"

definition is_syncing :: "FileState \<Rightarrow> bool" where
  "is_syncing s \<longleftrightarrow> s \<in> {Syncing, Pending}"

section \<open>Errors\<close>

text \<open>The wrapped errors of other libraries are kept as the text they display.\<close>

datatype CoreError =
    Authentication string
  | TokenExpired string
  | ProviderApi string string
  | RateLimited string u64
  | Network string
  | FileNotFound string
  | PermissionDenied string
  | ConflictDetected string
  | InvalidPath string
  | DatabaseError string
  | ConfigurationError string
  | Io string
  | Serialization string
  | Cancelled
  | UnsupportedProvider string
  | QuotaExceeded string
  | InvalidOperation string
  | CloudNativeFileError string

fun core_error_str :: "CoreError \<Rightarrow> string" where
  "core_error_str (Authentication m) = ''Authentication failed: '' @ m"
| "core_error_str (TokenExpired p) = ''Token expired for provider '' @ p"
| "core_error_str (ProviderApi p m) = ''Provider API error: '' @ m"
| "core_error_str (RateLimited p n) =
     ''Rate limited by '' @ p @ '', retry after '' @ show_nat (unat n) @ '' seconds''"
| "core_error_str (Network m) = ''Network error: '' @ m"
| "core_error_str (FileNotFound p) = ''File not found: '' @ p"
| "core_error_str (PermissionDenied p) = ''Permission denied: '' @ p"
| "core_error_str (ConflictDetected p) = ''Conflict detected for file: '' @ p"
| "core_error_str (InvalidPath m) = ''Invalid path: '' @ m"
| "core_error_str (DatabaseError m) = ''Database error: '' @ m"
| "core_error_str (ConfigurationError m) = ''Configuration error: '' @ m"
| "core_error_str (Io m) = ''IO error: '' @ m"
| "core_error_str (Serialization m) = ''Serialization error: '' @ m"
| "core_error_str Cancelled = ''Operation cancelled''"
| "core_error_str (UnsupportedProvider p) = ''Provider not supported: '' @ p"
| "core_error_str (QuotaExceeded p) = ''Quota exceeded for provider '' @ p"
| "core_error_str (InvalidOperation m) = ''Invalid operation: '' @ m"
| "core_error_str (CloudNativeFileError u) =
     ''Cloud-native file cannot be downloaded (open in browser): '' @ u"

section \<open>Cloud-native files\<close>

record 'url CloudNativeFile =
  cn_file_id :: FileId
  cn_provider :: string
  cn_mime_type :: string
  cn_web_url :: 'url

definition is_cloud_native :: "string \<Rightarrow> bool" where
  "is_cloud_native mime \<longleftrightarrow> starts_with ''application/vnd.google-apps.'' mime"

definition web_url_base :: "string \<Rightarrow> string" where
  "web_url_base mime =
     (if mime = ''application/vnd.google-apps.document'' then ''https://docs.google.com/document/d''
      else if mime = ''application/vnd.google-apps.spreadsheet'' then ''https://docs.google.com/spreadsheets/d''
      else if mime = ''application/vnd.google-apps.presentation'' then ''https://docs.google.com/presentation/d''
      else if mime = ''application/vnd.google-apps.form'' then ''https://docs.google.com/forms/d''
      else if mime = ''application/vnd.google-apps.drawing'' then ''https://docs.google.com/drawings/d''
      else ''https://drive.google.com/file/d'')"

text \<open>\<open>Url::parse(..).ok()\<close> is the parameter \<open>parse\<close>.\<close>

definition build_web_url :: "(string \<Rightarrow> 'url option) \<Rightarrow> FileId \<Rightarrow> string \<Rightarrow> 'url option" where
  "build_web_url parse fid mime =
     (if \<not> is_cloud_native mime then None
      else parse (web_url_base mime @ ''/'' @ file_id_str fid @ ''/edit''))"

lemma build_web_url_Some:
  "build_web_url parse fid mime = Some u \<Longrightarrow> is_cloud_native mime"
  by (auto simp: build_web_url_def split: if_splits)

end
