(* ===== verification/Core_Display.thy ===== *)
theory Core_Display
  imports Complex_Main Core_Types
begin

text \<open>
  What \<open>cloudsync-core\<close> offers for display: the icons of file states (\<open>file_state.rs\<close>), the
  percentage of a transfer (\<open>types.rs\<close>) and opening a cloud-native file (\<open>browser.rs\<close>).
\<close>

section \<open>Icons\<close>

text \<open>A string by the numbers of its UTF-8 bytes.\<close>

definition utf8_bytes :: "nat list \<Rightarrow> string" where
  "utf8_bytes ns = map char_of ns"

fun file_state_icon :: "FileState \<Rightarrow> string" where
  "file_state_icon Synced = utf8_bytes [0xE2, 0x9C, 0x93]"
| "file_state_icon CloudOnly = utf8_bytes [0xE2, 0x98, 0x81]"
| "file_state_icon Syncing = utf8_bytes [0xE2, 0x86, 0xBB]"
| "file_state_icon Pending = utf8_bytes [0xE2, 0x8F, 0xB1]"
| "file_state_icon Error = utf8_bytes [0xE2, 0x9A, 0xA0]"
| "file_state_icon Excluded = utf8_bytes [0xE2, 0x8A, 0x98]"
| "file_state_icon OfflineModified = utf8_bytes [0xE2, 0x97, 0x8F]"
| "file_state_icon Conflict = utf8_bytes [0xE2, 0x9D, 0x97]"

lemma utf8_bytes_inj: "\<forall>n \<in> set ms \<union> set ns. n < 256 \<Longrightarrow> utf8_bytes ms = utf8_bytes ns \<longleftrightarrow> ms = ns"
proof
  assume lt: "\<forall>n \<in> set ms \<union> set ns. n < 256" and eq: "utf8_bytes ms = utf8_bytes ns"
  have "map (of_char :: char \<Rightarrow> nat) (utf8_bytes xs) = xs" if "\<forall>n \<in> set xs. n < 256" for xs
    using that by (induction xs) (simp_all add: utf8_bytes_def)
  with lt eq show "ms = ns" by (metis UnCI)
qed simp

text \<open>No two states look alike, and each icon is one character of three bytes.\<close>

lemma file_state_icon_inj: "file_state_icon s = file_state_icon t \<longleftrightarrow> s = t"
  by (cases s; cases t) (simp_all add: utf8_bytes_inj)

lemma file_state_icon_length: "length (file_state_icon s) = 3"
  by (cases s) (simp_all add: utf8_bytes_def)

section \<open>Percentages\<close>

text \<open>
  A number of type \<open>f64\<close> is the real it stands for, and \<open>rnd\<close> is the rounding of IEEE 754 that
  ends the conversion of an integer and every operation. The numbers that occur are far from
  an overflow.
\<close>

definition percentage :: "(real \<Rightarrow> real) \<Rightarrow> TransferProgress \<Rightarrow> real" where
  "percentage rnd p =
     (if tp_total_bytes p = 0 then 100
      else rnd (rnd (rnd (real (unat (tp_bytes_transferred p))) / rnd (real (unat (tp_total_bytes p)))) * 100))"

definition rounds :: "(real \<Rightarrow> real) \<Rightarrow> bool" where
  "rounds rnd \<longleftrightarrow> mono rnd \<and> rnd 0 = 0 \<and> rnd 1 = 1 \<and> rnd 100 = 100"

text \<open>It lies between 0 and 100 as long as no more was transferred than was to be.\<close>

lemma percentage_bounds:
  assumes "rounds rnd" and "tp_bytes_transferred p \<le> tp_total_bytes p"
  shows "0 \<le> percentage rnd p" and "percentage rnd p \<le> 100"
proof -
  define t n where "t = unat (tp_bytes_transferred p)" and "n = unat (tp_total_bytes p)"
  have def: "percentage rnd p = (if n = 0 then 100 else rnd (rnd (rnd (real t) / rnd (real n)) * 100))"
    by (simp add: percentage_def t_def n_def unat_eq_zero del: of_nat_unat)
  have tn: "t \<le> n" using assms(2) by (simp add: t_def n_def word_le_nat_alt)
  have r: "x \<le> y \<Longrightarrow> rnd x \<le> rnd y" "rnd 0 = 0" "rnd 1 = 1" "rnd 100 = 100" for x y
    using assms(1) by (auto simp: rounds_def monoD)
  have "0 \<le> percentage rnd p \<and> percentage rnd p \<le> 100"
  proof (cases "n = 0")
    case False
    then have "1 \<le> rnd (real n)" using r(1) [of 1 "real n"] r(3) by simp
    moreover have "0 \<le> rnd (real t)" using r(1) [of 0 "real t"] r(2) by simp
    moreover have "rnd (real t) \<le> rnd (real n)" using tn by (intro r(1)) simp
    ultimately have "0 \<le> rnd (real t) / rnd (real n)" "rnd (real t) / rnd (real n) \<le> 1"
      by (simp_all add: divide_le_eq_1)
    then have "0 \<le> rnd (rnd (real t) / rnd (real n))" "rnd (rnd (real t) / rnd (real n)) \<le> 1"
      using r(1) [of 0 "rnd (real t) / rnd (real n)"] r(1) [of "rnd (real t) / rnd (real n)" 1] r(2,3) by simp_all
    then show ?thesis
      using False r(1) [of 0 "rnd (rnd (real t) / rnd (real n)) * 100"]
        r(1) [of "rnd (rnd (real t) / rnd (real n)) * 100" 100] r(2,4) by (simp add: def)
  qed (simp add: def)
  then show "0 \<le> percentage rnd p" "percentage rnd p \<le> 100" by simp_all
qed

text \<open>Nothing in the type keeps a transfer from going beyond its total.\<close>

lemma percentage_beyond:
  "percentage (\<lambda>x. x) \<lparr> tp_bytes_transferred = 3, tp_total_bytes = 2 \<rparr> = 150"
  by (simp add: percentage_def)

section \<open>Opening a cloud-native file\<close>

definition cloud_native_file_new :: "FileId \<Rightarrow> string \<Rightarrow> string \<Rightarrow> 'url \<Rightarrow> 'url CloudNativeFile" where
  "cloud_native_file_new file_id provider mime_type web_url =
     \<lparr> cn_file_id = file_id, cn_provider = provider, cn_mime_type = mime_type, cn_web_url = web_url \<rparr>"

text \<open>\<open>opener\<close> is \<open>opener::open\<close> and \<open>url_str\<close> is \<open>Url::as_str\<close>.\<close>

definition open_in_browser ::
  "(string \<Rightarrow> ('s, unit, string) st) \<Rightarrow> ('url \<Rightarrow> string) \<Rightarrow> 'url CloudNativeFile \<Rightarrow> ('s, unit, CoreError) st" where
  "open_in_browser opener url_str f =
     map_errS (\<lambda>e. InvalidOperation (''Failed to open browser: '' @ e)) (opener (url_str (cn_web_url f)))"

end
