(* ===== verification/Binary_Heap.thy ===== *)
theory Binary_Heap
  imports Prelude
begin

text \<open>
  The \<open>std::collections::BinaryHeap\<close> that \<open>SyncQueue\<close> is built on: a vector in heap order,
  with the sift loops of the standard library. Moving the library's hole is written as
  a swap of the hole's element with the element that fills it, which leaves the same
  vector. The laws a client relies on are the locale \<open>max_queue\<close>: the vector is a
  multiset from which \<open>pop\<close> takes a greatest element.
\<close>

section \<open>The vector operations\<close>

definition swap_at :: "'a list \<Rightarrow> nat \<Rightarrow> nat \<Rightarrow> 'a list" where
  "swap_at xs i j = xs[j := xs ! i, i := xs ! j]"

definition parent_at :: "nat \<Rightarrow> nat" where
  "parent_at i = (i - 1) div 2"

function heap_sift_up :: "('a \<Rightarrow> 'a \<Rightarrow> comp) \<Rightarrow> 'a list \<Rightarrow> nat \<Rightarrow> 'a list" where
  "heap_sift_up cmp xs pos =
     (if pos = 0 then xs
      else if cmp (xs ! pos) (xs ! parent_at pos) \<noteq> Greater then xs
      else heap_sift_up cmp (swap_at xs pos (parent_at pos)) (parent_at pos))"
  by pat_completeness auto
termination
  by (relation "measure (\<lambda>(cmp, xs, pos). pos)") (auto simp: parent_at_def)

text \<open>The greater of two children, the right one when they are equal.\<close>

definition greater_child :: "('a \<Rightarrow> 'a \<Rightarrow> comp) \<Rightarrow> 'a list \<Rightarrow> nat \<Rightarrow> nat" where
  "greater_child cmp xs child =
     (if cmp (xs ! child) (xs ! Suc child) \<noteq> Greater then Suc child else child)"

function heap_to_bottom :: "('a \<Rightarrow> 'a \<Rightarrow> comp) \<Rightarrow> 'a list \<Rightarrow> nat \<Rightarrow> 'a list \<times> nat" where
  "heap_to_bottom cmp xs pos =
     (let child = 2 * pos + 1
      in if child + 1 < length xs then
           let c = greater_child cmp xs child in heap_to_bottom cmp (swap_at xs pos c) c
         else if child + 1 = length xs then (swap_at xs pos child, child)
         else (xs, pos))"
  by pat_completeness auto
termination
  by (relation "measure (\<lambda>(cmp, xs, pos). length xs - pos)")
    (auto simp: swap_at_def greater_child_def)

function heap_sift_down :: "('a \<Rightarrow> 'a \<Rightarrow> comp) \<Rightarrow> 'a list \<Rightarrow> nat \<Rightarrow> 'a list" where
  "heap_sift_down cmp xs pos =
     (let child = 2 * pos + 1
      in if child + 1 < length xs then
           let c = greater_child cmp xs child
           in if cmp (xs ! pos) (xs ! c) \<noteq> Less then xs
              else heap_sift_down cmp (swap_at xs pos c) c
         else if child + 1 = length xs \<and> cmp (xs ! pos) (xs ! child) = Less
              then swap_at xs pos child
         else xs)"
  by pat_completeness auto
termination
  by (relation "measure (\<lambda>(cmp, xs, pos). length xs - pos)")
    (auto simp: swap_at_def greater_child_def)

declare heap_sift_up.simps [simp del] heap_to_bottom.simps [simp del] heap_sift_down.simps [simp del]

fun heap_rebuild :: "('a \<Rightarrow> 'a \<Rightarrow> comp) \<Rightarrow> 'a list \<Rightarrow> nat \<Rightarrow> 'a list" where
  "heap_rebuild cmp xs 0 = xs"
| "heap_rebuild cmp xs (Suc n) = heap_rebuild cmp (heap_sift_down cmp xs n) n"

definition heap_push :: "('a \<Rightarrow> 'a \<Rightarrow> comp) \<Rightarrow> 'a \<Rightarrow> 'a list \<Rightarrow> 'a list" where
  "heap_push cmp x xs = heap_sift_up cmp (xs @ [x]) (length xs)"

definition heap_pop :: "('a \<Rightarrow> 'a \<Rightarrow> comp) \<Rightarrow> 'a list \<Rightarrow> ('a \<times> 'a list) option" where
  "heap_pop cmp xs =
     (if xs = [] then None
      else let item = last xs; rest = butlast xs
           in if rest = [] then Some (item, [])
              else case heap_to_bottom cmp (rest[0 := item]) 0 of
                     (ys, p) \<Rightarrow> Some (rest ! 0, heap_sift_up cmp ys p))"

definition heap_peek :: "'a list \<Rightarrow> 'a option" where
  "heap_peek xs = (if xs = [] then None else Some (xs ! 0))"

definition heap_from_vec :: "('a \<Rightarrow> 'a \<Rightarrow> comp) \<Rightarrow> 'a list \<Rightarrow> 'a list" where
  "heap_from_vec cmp xs = heap_rebuild cmp xs (length xs div 2)"

text \<open>Heap order: no element is greater than its parent.\<close>

definition is_heap :: "('a \<Rightarrow> 'a \<Rightarrow> comp) \<Rightarrow> 'a list \<Rightarrow> bool" where
  "is_heap cmp xs \<longleftrightarrow> (\<forall>i \<in> set [1..<length xs]. cmp (xs ! i) (xs ! parent_at i) \<noteq> Greater)"

section \<open>Facts that need no order\<close>

lemma length_swap_at [simp]: "length (swap_at xs i j) = length xs"
  by (simp add: swap_at_def)

lemma mset_swap_at [simp]: "i < length xs \<Longrightarrow> j < length xs \<Longrightarrow> mset (swap_at xs i j) = mset xs"
  by (simp add: swap_at_def mset_swap)

lemma nth_swap_at:
  "i < length xs \<Longrightarrow> j < length xs \<Longrightarrow> k < length xs \<Longrightarrow>
   swap_at xs i j ! k = (if k = i then xs ! j else if k = j then xs ! i else xs ! k)"
  by (simp add: swap_at_def nth_list_update)

lemma parent_at_less [simp]: "0 < i \<Longrightarrow> parent_at i < i"
  by (simp add: parent_at_def)

lemma parent_at_bound [simp]: "0 < i \<Longrightarrow> i < n \<Longrightarrow> parent_at i < n"
  using parent_at_less [of i] by linarith

lemma parent_at_children: "0 < i \<Longrightarrow> parent_at i = p \<longleftrightarrow> i = 2 * p + 1 \<or> i = 2 * p + 2"
  by (auto simp: parent_at_def)

lemma greater_child_cases: "greater_child cmp xs c = c \<or> greater_child cmp xs c = Suc c"
  by (simp add: greater_child_def)

lemma length_heap_sift_up [simp]: "length (heap_sift_up cmp xs pos) = length xs"
  by (induction cmp xs pos rule: heap_sift_up.induct) (simp add: heap_sift_up.simps)

lemma mset_heap_sift_up [simp]: "pos < length xs \<Longrightarrow> mset (heap_sift_up cmp xs pos) = mset xs"
proof (induction cmp xs pos rule: heap_sift_up.induct)
  case (1 cmp xs pos)
  moreover have "parent_at pos < length xs"
    using "1.prems" parent_at_less [of pos] by (cases "pos = 0") (auto simp: parent_at_def)
  ultimately show ?case by (subst heap_sift_up.simps) simp
qed

lemma heap_to_bottom_perm:
  "pos < length xs \<Longrightarrow> heap_to_bottom cmp xs pos = (ys, p) \<Longrightarrow>
   mset ys = mset xs \<and> length ys = length xs \<and> p < length xs \<and> length xs \<le> 2 * p + 1"
proof (induction cmp xs pos arbitrary: ys p rule: heap_to_bottom.induct)
  case (1 cmp xs pos)
  show ?case
  proof (cases "2 * pos + 1 + 1 < length xs")
    case True
    define c where "c = greater_child cmp xs (2 * pos + 1)"
    have "c < length xs"
      using True greater_child_cases [of cmp xs "2 * pos + 1"] by (auto simp: c_def)
    moreover have "heap_to_bottom cmp (swap_at xs pos c) c = (ys, p)"
      using True "1.prems"(2) by (subst (asm) heap_to_bottom.simps) (simp add: Let_def c_def)
    ultimately show ?thesis
      using "1.IH" [OF refl True c_def] "1.prems"(1) by fastforce
  next
    case False
    with "1.prems" show ?thesis
      by (subst (asm) heap_to_bottom.simps) (auto simp: Let_def split: if_splits)
  qed
qed

lemma heap_sift_down_perm:
  "pos < length xs \<Longrightarrow>
   mset (heap_sift_down cmp xs pos) = mset xs \<and> length (heap_sift_down cmp xs pos) = length xs"
proof (induction cmp xs pos rule: heap_sift_down.induct)
  case (1 cmp xs pos)
  show ?case
  proof (cases "2 * pos + 1 + 1 < length xs")
    case True
    define c where "c = greater_child cmp xs (2 * pos + 1)"
    have "c < length xs"
      using True greater_child_cases [of cmp xs "2 * pos + 1"] by (auto simp: c_def)
    with "1.IH" [OF refl True c_def] "1.prems" True show ?thesis
      by (subst (1 2) heap_sift_down.simps) (simp add: Let_def c_def)
  next
    case False
    with "1.prems" show ?thesis
      by (subst (1 2) heap_sift_down.simps) (auto simp: Let_def)
  qed
qed

lemma heap_rebuild_perm:
  "n \<le> length xs \<Longrightarrow>
   mset (heap_rebuild cmp xs n) = mset xs \<and> length (heap_rebuild cmp xs n) = length xs"
proof (induction n arbitrary: xs)
  case (Suc n)
  then have "n < length xs" by simp
  note p = heap_sift_down_perm [OF this, of cmp]
  then show ?case using Suc.IH [of "heap_sift_down cmp xs n"] Suc.prems by simp
qed simp

lemma mset_heap_push [simp]: "mset (heap_push cmp x xs) = add_mset x (mset xs)"
  by (simp add: heap_push_def)

lemma mset_heap_from_vec [simp]: "mset (heap_from_vec cmp xs) = mset xs"
  by (simp add: heap_from_vec_def heap_rebuild_perm)

lemma heap_pop_Nil [simp]: "heap_pop cmp [] = None"
  by (simp add: heap_pop_def)

lemma heap_pop_None_iff [simp]: "heap_pop cmp xs = None \<longleftrightarrow> xs = []"
  by (auto simp: heap_pop_def Let_def split: prod.splits)

lemma heap_pop_mset:
  assumes "heap_pop cmp xs = Some (x, ys)"
  shows "mset xs = add_mset x (mset ys)"
proof -
  obtain rest item where xs: "xs = rest @ [item]"
    using assms by (cases xs rule: rev_cases) (auto simp: heap_pop_def)
  show ?thesis
  proof (cases rest)
    case Nil
    with assms xs show ?thesis by (auto simp: heap_pop_def)
  next
    case (Cons a r)
    obtain zs p where zs: "heap_to_bottom cmp (item # r) 0 = (zs, p)" by fastforce
    from heap_to_bottom_perm [OF _ zs] have "mset zs = mset (item # r)" "p < length zs" by auto
    with assms xs Cons zs show ?thesis by (auto simp: heap_pop_def Let_def)
  qed
qed

lemma heap_pop_length: "heap_pop cmp xs = Some (x, ys) \<Longrightarrow> length xs = Suc (length ys)"
  by (metis heap_pop_mset size_add_mset size_mset)

section \<open>Heap order under a comparator\<close>

text \<open>
  The vector is a heap but for the element at \<open>h\<close>: the elements below \<open>h\<close> are not greater
  than the parent of \<open>h\<close>.
\<close>

definition heap_but :: "('a \<Rightarrow> 'a \<Rightarrow> comp) \<Rightarrow> nat \<Rightarrow> 'a list \<Rightarrow> nat \<Rightarrow> bool" where
  "heap_but cmp k xs h \<longleftrightarrow>
     (\<forall>i. 0 < i \<longrightarrow> i < length xs \<longrightarrow> k \<le> parent_at i \<longrightarrow> i \<noteq> h \<longrightarrow> parent_at i \<noteq> h \<longrightarrow>
        cmp (xs ! i) (xs ! parent_at i) \<noteq> Greater) \<and>
     (\<forall>i. 0 < i \<longrightarrow> i < length xs \<longrightarrow> parent_at i = h \<longrightarrow> 0 < h \<longrightarrow> k \<le> parent_at h \<longrightarrow>
        cmp (xs ! i) (xs ! parent_at h) \<noteq> Greater)"

text \<open>The part of the vector whose parents are at \<open>k\<close> or later is in heap order.\<close>

definition heap_from :: "('a \<Rightarrow> 'a \<Rightarrow> comp) \<Rightarrow> nat \<Rightarrow> 'a list \<Rightarrow> bool" where
  "heap_from cmp k xs \<longleftrightarrow>
     (\<forall>i. 0 < i \<longrightarrow> i < length xs \<longrightarrow> k \<le> parent_at i \<longrightarrow>
        cmp (xs ! i) (xs ! parent_at i) \<noteq> Greater)"

lemma is_heap_iff: "is_heap cmp xs \<longleftrightarrow> heap_from cmp 0 xs"
  by (auto simp: is_heap_def heap_from_def)

locale heap_order = comparator cmp
  for cmp :: "'a \<Rightarrow> 'a \<Rightarrow> comp"
begin

lemma le_total: "cmp a b = Greater \<Longrightarrow> cmp b a \<noteq> Greater"
  by (metis asym_greater)

lemma sift_up_heap:
  assumes "pos < length xs"
    and "\<And>i. 0 < i \<Longrightarrow> i < length xs \<Longrightarrow> i \<noteq> pos \<Longrightarrow> cmp (xs ! i) (xs ! parent_at i) \<noteq> Greater"
    and "\<And>i. 0 < i \<Longrightarrow> i < length xs \<Longrightarrow> parent_at i = pos \<Longrightarrow> 0 < pos \<Longrightarrow>
           cmp (xs ! i) (xs ! parent_at pos) \<noteq> Greater"
  shows "heap_from cmp 0 (heap_sift_up cmp xs pos)"
  using assms
proof (induction pos arbitrary: xs rule: less_induct)
  case (less pos)
  show ?case
  proof (cases "pos = 0 \<or> cmp (xs ! pos) (xs ! parent_at pos) \<noteq> Greater")
    case True
    then have "heap_sift_up cmp xs pos = xs" by (subst heap_sift_up.simps) auto
    moreover have "cmp (xs ! i) (xs ! parent_at i) \<noteq> Greater" if "0 < i" "i < length xs" for i
      using True less.prems(2) [OF that] that by (cases "i = pos") auto
    ultimately show ?thesis by (simp add: heap_from_def)
  next
    case False
    define q where "q = parent_at pos"
    define ys where "ys = swap_at xs pos q"
    have q: "q < pos" using False by (simp add: q_def)
    then have ql: "q < length xs" using less.prems(1) by simp
    have gt: "cmp (xs ! q) (xs ! pos) \<noteq> Greater" using False le_total by (auto simp: q_def)
    have ys: "ys ! k = (if k = pos then xs ! q else if k = q then xs ! pos else xs ! k)"
      if "k < length xs" for k
      using that ql less.prems(1) by (simp add: ys_def nth_swap_at)
    have 1: "cmp (ys ! i) (ys ! parent_at i) \<noteq> Greater"
      if i: "0 < i" "i < length ys" "i \<noteq> q" for i
    proof -
      have il: "i < length xs" "parent_at i < length xs" "parent_at i < i"
        using i by (auto simp: ys_def intro: order_less_trans parent_at_less)
      consider "i = pos" | "i \<noteq> pos" "parent_at i = pos" | "i \<noteq> pos" "parent_at i = q"
        | "i \<noteq> pos" "parent_at i \<noteq> pos" "parent_at i \<noteq> q" by blast
      then show ?thesis
      proof cases
        case 1 then show ?thesis using gt q il by (simp add: ys flip: q_def)
      next
        case 2 then show ?thesis using less.prems(3) [of i] il i q by (simp add: ys flip: q_def)
      next
        case 3
        then have "cmp (xs ! i) (xs ! q) \<noteq> Greater" using less.prems(2) [of i] il i by simp
        then show ?thesis using 3 il i q gt trans_not_greater by (auto simp: ys)
      next
        case 4 then show ?thesis using less.prems(2) [of i] il i by (simp add: ys)
      qed
    qed
    have 2: "cmp (ys ! i) (ys ! parent_at q) \<noteq> Greater"
      if i: "0 < i" "i < length ys" "parent_at i = q" "0 < q" for i
    proof -
      have pq: "parent_at q < q" using i by simp
      have xq: "cmp (xs ! q) (xs ! parent_at q) \<noteq> Greater"
        using less.prems(2) [of q] i q ql by simp
      have "cmp (xs ! i) (xs ! q) \<noteq> Greater" if "i \<noteq> pos"
        using less.prems(2) [of i] i that by (simp add: ys_def)
      moreover have "ys ! parent_at q = xs ! parent_at q" using pq q ql by (simp add: ys)
      moreover have "ys ! i = (if i = pos then xs ! q else xs ! i)"
        using i ys [of i] parent_at_less [of i] by (simp add: ys_def)
      ultimately show ?thesis using xq trans_not_greater by (cases "i = pos") auto
    qed
    have "heap_from cmp 0 (heap_sift_up cmp ys q)"
      using less.IH [OF q, of ys] 1 2 ql by (simp add: ys_def)
    then show ?thesis using False by (subst heap_sift_up.simps) (simp add: ys_def q_def)
  qed
qed

lemma heap_but_swap:
  assumes h: "heap_but cmp k xs pos" "pos < length xs" "k \<le> pos"
    and c: "0 < c" "c < length xs" "parent_at c = pos"
    and best: "\<And>i. 0 < i \<Longrightarrow> i < length xs \<Longrightarrow> parent_at i = pos \<Longrightarrow> cmp (xs ! i) (xs ! c) \<noteq> Greater"
  shows "heap_but cmp k (swap_at xs pos c) c"
proof -
  define ys where "ys = swap_at xs pos c"
  have pc: "pos < c" using c parent_at_less [of c] by simp
  have ys: "ys ! j = (if j = pos then xs ! c else if j = c then xs ! pos else xs ! j)"
    if "j < length xs" for j
    using that h(2) c(2) by (simp add: ys_def nth_swap_at)
  have 1: "cmp (ys ! i) (ys ! parent_at i) \<noteq> Greater"
    if i: "0 < i" "i < length xs" "k \<le> parent_at i" "i \<noteq> c" "parent_at i \<noteq> c" for i
  proof -
    have pi: "parent_at i < i" "parent_at i < length xs"
      using i parent_at_less [of i] by (simp, linarith)
    consider "i = pos" | "i \<noteq> pos" "parent_at i = pos" | "i \<noteq> pos" "parent_at i \<noteq> pos" by blast
    then show ?thesis
    proof cases
      case 1
      with h(1) i c have "cmp (xs ! c) (xs ! parent_at pos) \<noteq> Greater" by (simp add: heap_but_def)
      with 1 pi pc i show ?thesis by (simp add: ys)
    next
      case 2
      with best [OF i(1,2)] pi pc i c show ?thesis by (simp add: ys)
    next
      case 3
      with h(1) i pi show ?thesis by (simp add: ys heap_but_def)
    qed
  qed
  have 2: "cmp (ys ! i) (ys ! parent_at c) \<noteq> Greater"
    if i: "0 < i" "i < length xs" "parent_at i = c" for i
  proof -
    have "c < i" using i parent_at_less [of i] by simp
    moreover from this h(1,3) i pc have "cmp (xs ! i) (xs ! c) \<noteq> Greater"
      by (auto simp: heap_but_def)
    ultimately show ?thesis using i c pc h(2) by (simp add: ys)
  qed
  from 1 2 show ?thesis unfolding heap_but_def by (simp flip: ys_def) (simp add: ys_def)
qed

lemma greater_child_best:
  assumes "2 * pos + 1 + 1 < length xs"
  defines "c \<equiv> greater_child cmp xs (2 * pos + 1)"
  shows "0 < c" "c < length xs" "parent_at c = pos"
    and "\<And>i. 0 < i \<Longrightarrow> i < length xs \<Longrightarrow> parent_at i = pos \<Longrightarrow> cmp (xs ! i) (xs ! c) \<noteq> Greater"
proof -
  show "0 < c" "c < length xs" "parent_at c = pos"
    using assms greater_child_cases [of cmp xs "2 * pos + 1"] by (auto simp: parent_at_def)
  fix i assume "0 < i" "parent_at i = pos"
  then have "i = 2 * pos + 1 \<or> i = 2 * pos + 2" using parent_at_children by blast
  then show "cmp (xs ! i) (xs ! c) \<noteq> Greater"
    using le_total by (auto simp: c_def greater_child_def)
qed

lemma only_child:
  assumes "2 * pos + 1 + 1 = length xs"
  shows "0 < i \<Longrightarrow> i < length xs \<Longrightarrow> parent_at i = pos \<Longrightarrow> i = 2 * pos + 1"
  using assms parent_at_children [of i pos] by auto

lemma to_bottom_heap_but:
  "heap_to_bottom cmp xs pos = (ys, p) \<Longrightarrow> pos < length xs \<Longrightarrow> heap_but cmp 0 xs pos \<Longrightarrow>
   heap_but cmp 0 ys p"
proof (induction "length xs - pos" arbitrary: xs pos ys p rule: less_induct)
  case less
  show ?case
  proof (cases "2 * pos + 1 + 1 < length xs")
    case True
    define c where "c = greater_child cmp xs (2 * pos + 1)"
    note g = greater_child_best [OF True, folded c_def]
    have "heap_but cmp 0 (swap_at xs pos c) c"
      by (rule heap_but_swap [OF less.prems(3,2) le0 g])
    moreover have "heap_to_bottom cmp (swap_at xs pos c) c = (ys, p)"
      using True less.prems(1) by (subst (asm) heap_to_bottom.simps) (simp add: Let_def c_def)
    moreover have "pos < c" using g parent_at_less [of c] by simp
    ultimately show ?thesis using less.hyps [of "swap_at xs pos c" c] g less.prems(2) by simp
  next
    case False
    show ?thesis
    proof (cases "2 * pos + 1 + 1 = length xs")
      case True
      then have "heap_but cmp 0 (swap_at xs pos (2 * pos + 1)) (2 * pos + 1)"
        using less.prems only_child [OF True]
        by (intro heap_but_swap) (auto simp: parent_at_def)
      moreover from True less.prems(1) have "ys = swap_at xs pos (2 * pos + 1)" "p = 2 * pos + 1"
        by (subst (asm) heap_to_bottom.simps; auto simp: Let_def)+
      ultimately show ?thesis by simp
    next
      case no: False
      with False less.prems show ?thesis
        by (subst (asm) heap_to_bottom.simps) (simp add: Let_def)
    qed
  qed
qed

lemma sift_down_heap_from:
  "pos < length xs \<Longrightarrow> k \<le> pos \<Longrightarrow> heap_but cmp k xs pos \<Longrightarrow>
   (0 < pos \<longrightarrow> k \<le> parent_at pos \<longrightarrow> cmp (xs ! pos) (xs ! parent_at pos) \<noteq> Greater) \<Longrightarrow>
   heap_from cmp k (heap_sift_down cmp xs pos)"
proof (induction "length xs - pos" arbitrary: xs pos rule: less_induct)
  case less
  have stay: "heap_from cmp k xs"
    if ge: "\<And>i. 0 < i \<Longrightarrow> i < length xs \<Longrightarrow> parent_at i = pos \<Longrightarrow> cmp (xs ! i) (xs ! pos) \<noteq> Greater"
    unfolding heap_from_def
  proof (intro allI impI)
    fix i assume i: "0 < i" "i < length xs" "k \<le> parent_at i"
    show "cmp (xs ! i) (xs ! parent_at i) \<noteq> Greater"
      using i ge less.prems(3,4) by (cases "i = pos \<or> parent_at i = pos") (auto simp: heap_but_def)
  qed
  have up: "heap_but cmp k (swap_at xs pos c) c \<and>
      (0 < c \<longrightarrow> k \<le> parent_at c \<longrightarrow> cmp (swap_at xs pos c ! c) (swap_at xs pos c ! parent_at c) \<noteq> Greater)"
    if c: "0 < c" "c < length xs" "parent_at c = pos" "cmp (xs ! pos) (xs ! c) = Less"
      and best: "\<And>i. 0 < i \<Longrightarrow> i < length xs \<Longrightarrow> parent_at i = pos \<Longrightarrow> cmp (xs ! i) (xs ! c) \<noteq> Greater"
    for c
  proof
    show "heap_but cmp k (swap_at xs pos c) c"
      by (rule heap_but_swap [OF less.prems(3,1,2) c(1-3) best])
    have "pos < c" using c parent_at_less [of c] by simp
    with c less.prems(1) show "0 < c \<longrightarrow> k \<le> parent_at c \<longrightarrow>
        cmp (swap_at xs pos c ! c) (swap_at xs pos c ! parent_at c) \<noteq> Greater"
      by (simp add: nth_swap_at)
  qed
  show ?case
  proof (cases "2 * pos + 1 + 1 < length xs")
    case True
    define c where "c = greater_child cmp xs (2 * pos + 1)"
    note g = greater_child_best [OF True, folded c_def]
    show ?thesis
    proof (cases "cmp (xs ! pos) (xs ! c) = Less")
      case lt: True
      have "pos < c" using g parent_at_less [of c] by simp
      note u = up [OF g(1-3) lt g(4)]
      have "heap_from cmp k (heap_sift_down cmp (swap_at xs pos c) c)"
      proof (rule less.hyps)
        show "length (swap_at xs pos c) - c < length xs - pos" using \<open>pos < c\<close> g(2) by simp
        show "c < length (swap_at xs pos c)" using g(2) by simp
        show "k \<le> c" using \<open>pos < c\<close> less.prems(2) by simp
      qed (use u in blast)+
      with True lt show ?thesis by (subst heap_sift_down.simps) (simp add: Let_def c_def)
    next
      case ge: False
      then have "cmp (xs ! c) (xs ! pos) \<noteq> Greater" by (simp add: greater_iff_sym_less)
      have "heap_from cmp k xs"
      proof (rule stay)
        fix i assume "0 < i" "i < length xs" "parent_at i = pos"
        then have "cmp (xs ! i) (xs ! c) \<noteq> Greater" by (rule g(4))
        then show "cmp (xs ! i) (xs ! pos) \<noteq> Greater"
          using \<open>cmp (xs ! c) (xs ! pos) \<noteq> Greater\<close> by (rule trans_not_greater)
      qed
      with True ge show ?thesis by (subst heap_sift_down.simps) (simp add: Let_def c_def)
    qed
  next
    case False
    show ?thesis
    proof (cases "2 * pos + 1 + 1 = length xs \<and> cmp (xs ! pos) (xs ! (2 * pos + 1)) = Less")
      case True
      define c where "c = 2 * pos + 1"
      have "heap_but cmp k (swap_at xs pos c) c \<and>
          (0 < c \<longrightarrow> k \<le> parent_at c \<longrightarrow> cmp (swap_at xs pos c ! c) (swap_at xs pos c ! parent_at c) \<noteq> Greater)"
        using True only_child [of pos xs] by (intro up) (auto simp: c_def parent_at_def)
      moreover have "parent_at i \<noteq> c" if "0 < i" "i < length xs" for i
        using that True parent_at_children [of i c] by (auto simp: c_def)
      ultimately have "heap_from cmp k (swap_at xs pos c)"
        by (auto simp: heap_from_def heap_but_def)
      with True show ?thesis by (subst heap_sift_down.simps) (simp add: Let_def c_def)
    next
      case no: False
      have "cmp (xs ! i) (xs ! pos) \<noteq> Greater" if "0 < i" "i < length xs" "parent_at i = pos" for i
        using that False no parent_at_children [of i pos] by (auto simp: greater_iff_sym_less)
      then have "heap_from cmp k xs" by (rule stay)
      with False no show ?thesis by (subst heap_sift_down.simps) (auto simp: Let_def)
    qed
  qed
qed

lemma rebuild_heap:
  "n \<le> length xs \<Longrightarrow> heap_from cmp n xs \<Longrightarrow> heap_from cmp 0 (heap_rebuild cmp xs n)"
proof (induction n arbitrary: xs)
  case (Suc n)
  have "heap_but cmp n xs n"
    unfolding heap_but_def
  proof (intro conjI allI impI)
    fix i assume "0 < i" "i < length xs" "n \<le> parent_at i" "i \<noteq> n" "parent_at i \<noteq> n"
    then show "cmp (xs ! i) (xs ! parent_at i) \<noteq> Greater"
      using Suc.prems(2) by (simp add: heap_from_def)
  next
    fix i assume "0 < n" "n \<le> parent_at n"
    then show "cmp (xs ! i) (xs ! parent_at n) \<noteq> Greater" using parent_at_less [of n] by linarith
  qed
  then have "heap_from cmp n (heap_sift_down cmp xs n)"
  proof (rule sift_down_heap_from [rotated 2])
    show "0 < n \<longrightarrow> n \<le> parent_at n \<longrightarrow> cmp (xs ! n) (xs ! parent_at n) \<noteq> Greater"
      using parent_at_less [of n] by linarith
  qed (use Suc.prems(1) in auto)
  with Suc.IH [of "heap_sift_down cmp xs n"] Suc.prems(1) heap_sift_down_perm [of n xs cmp]
  show ?case by simp
qed simp

lemma heap_from_vec_is_heap: "is_heap cmp (heap_from_vec cmp xs)"
proof -
  have "heap_from cmp (length xs div 2) xs"
    by (auto simp: heap_from_def parent_at_def)
  then show ?thesis by (simp add: is_heap_iff heap_from_vec_def rebuild_heap)
qed

lemma heap_push_is_heap:
  assumes "is_heap cmp xs"
  shows "is_heap cmp (heap_push cmp x xs)"
  unfolding is_heap_iff heap_push_def
proof (rule sift_up_heap)
  fix i assume i: "0 < i" "i < length (xs @ [x])" "i \<noteq> length xs"
  then have "parent_at i < length xs" using parent_at_less [of i] by simp
  with i assms show "cmp ((xs @ [x]) ! i) ((xs @ [x]) ! parent_at i) \<noteq> Greater"
    by (simp add: is_heap_iff heap_from_def nth_append)
next
  fix i assume "0 < i" "i < length (xs @ [x])" "parent_at i = length xs"
  then show "cmp ((xs @ [x]) ! i) ((xs @ [x]) ! parent_at (length xs)) \<noteq> Greater"
    using parent_at_less [of i] by simp
qed simp

lemma heap_root_greatest:
  assumes "is_heap cmp xs"
  shows "i < length xs \<Longrightarrow> cmp (xs ! i) (xs ! 0) \<noteq> Greater"
proof (induction i rule: less_induct)
  case (less i)
  show ?case
  proof (cases "i = 0")
    case False
    with less have "cmp (xs ! parent_at i) (xs ! 0) \<noteq> Greater" using parent_at_less [of i] by simp
    moreover have "cmp (xs ! i) (xs ! parent_at i) \<noteq> Greater"
      using assms less.prems False by (simp add: is_heap_iff heap_from_def)
    ultimately show ?thesis using trans_not_greater by blast
  qed simp
qed

lemma heap_pop_is_heap:
  assumes "is_heap cmp xs" and "heap_pop cmp xs = Some (x, ys)"
  shows "is_heap cmp ys"
proof -
  obtain rest item where xs: "xs = rest @ [item]"
    using assms(2) by (cases xs rule: rev_cases) (auto simp: heap_pop_def)
  show ?thesis
  proof (cases rest)
    case Nil
    with assms(2) xs show ?thesis by (auto simp: heap_pop_def is_heap_def)
  next
    case (Cons a r)
    obtain zs p where zs: "heap_to_bottom cmp (item # r) 0 = (zs, p)" by fastforce
    have "cmp ((item # r) ! i) ((item # r) ! parent_at i) \<noteq> Greater"
      if i: "0 < i" "i < length (item # r)" "parent_at i \<noteq> 0" for i
    proof -
      have "cmp (xs ! i) (xs ! parent_at i) \<noteq> Greater"
        using assms(1) i unfolding is_heap_iff heap_from_def
        by (metis Cons le0 length_Cons length_append_singleton less_SucI xs)
      moreover have "xs ! j = (item # r) ! j" if "0 < j" "j < length (item # r)" for j
        using that by (cases j) (simp_all add: xs Cons nth_append)
      ultimately show ?thesis using i by simp
    qed
    then have "heap_but cmp 0 (item # r) 0" by (simp add: heap_but_def)
    with to_bottom_heap_but [OF zs] have but: "heap_but cmp 0 zs p" by simp
    from heap_to_bottom_perm [OF _ zs] have p: "length zs \<le> 2 * p + 1" "p < length zs" by auto
    have leaf: "parent_at i \<noteq> p" if "0 < i" "i < length zs" for i
      using that p parent_at_children [of i p] by auto
    have "heap_from cmp 0 (heap_sift_up cmp zs p)"
      using p but leaf by (intro sift_up_heap) (auto simp: heap_but_def)
    with assms(2) xs Cons zs show ?thesis by (auto simp: heap_pop_def Let_def is_heap_iff)
  qed
qed

lemma heap_pop_root: "heap_pop cmp xs = Some (x, ys) \<Longrightarrow> x = xs ! 0"
  by (cases xs rule: rev_cases)
    (auto simp: heap_pop_def Let_def nth_append split: if_splits prod.splits)

lemma heap_peek_pop: "heap_peek xs = map_option fst (heap_pop cmp xs)"
  using heap_pop_None_iff [of cmp xs]
  by (cases "heap_pop cmp xs") (auto simp: heap_peek_def dest: heap_pop_root simp del: heap_pop_None_iff)

end

section \<open>The contract of a queue that serves a greatest element first\<close>

fun pop_n :: "('q \<Rightarrow> ('a \<times> 'q) option) \<Rightarrow> nat \<Rightarrow> 'q \<Rightarrow> 'a list \<times> 'q" where
  "pop_n pop 0 q = ([], q)"
| "pop_n pop (Suc n) q = (case pop q of
     None \<Rightarrow> ([], q)
   | Some (x, q') \<Rightarrow> (case pop_n pop n q' of (xs, q'') \<Rightarrow> (x # xs, q'')))"

locale max_queue = comparator cmp
  for cmp :: "'a \<Rightarrow> 'a \<Rightarrow> comp" +
  fixes push :: "'a \<Rightarrow> 'q \<Rightarrow> 'q"
    and pop :: "'q \<Rightarrow> ('a \<times> 'q) option"
    and peek :: "'q \<Rightarrow> 'a option"
    and contents :: "'q \<Rightarrow> 'a multiset"
    and invar :: "'q \<Rightarrow> bool"
  assumes contents_push: "contents (push x q) = add_mset x (contents q)"
    and invar_push: "invar q \<Longrightarrow> invar (push x q)"
    and pop_None: "pop q = None \<longleftrightarrow> contents q = {#}"
    and contents_pop: "pop q = Some (x, q') \<Longrightarrow> contents q = add_mset x (contents q')"
    and invar_pop: "invar q \<Longrightarrow> pop q = Some (x, q') \<Longrightarrow> invar q'"
    and pop_greatest: "invar q \<Longrightarrow> pop q = Some (x, q') \<Longrightarrow> y \<in># contents q \<Longrightarrow> cmp y x \<noteq> Greater"
    and peek_pop: "peek q = map_option fst (pop q)"
begin

lemma pop_n_contents:
  "pop_n pop n q = (xs, q') \<Longrightarrow> contents q = mset xs + contents q'"
  by (induction n arbitrary: q xs)
    (auto split: option.splits prod.splits dest!: contents_pop)

lemma pop_n_invar: "invar q \<Longrightarrow> pop_n pop n q = (xs, q') \<Longrightarrow> invar q'"
  by (induction n arbitrary: q xs)
    (auto split: option.splits prod.splits dest: invar_pop)

text \<open>Whatever is served is served in order, and before everything that stays.\<close>

lemma pop_n_sorted:
  "invar q \<Longrightarrow> pop_n pop n q = (xs, q') \<Longrightarrow>
   sorted_wrt (\<lambda>a b. cmp b a \<noteq> Greater) xs \<and>
   (\<forall>x \<in> set xs. \<forall>y \<in># contents q'. cmp y x \<noteq> Greater)"
proof (induction n arbitrary: q xs)
  case (Suc n)
  show ?case
  proof (cases "pop q")
    case None
    with Suc.prems show ?thesis by simp
  next
    case (Some xq)
    then obtain x r where x: "pop q = Some (x, r)" by (cases xq) auto
    with Suc.prems obtain ys where ys: "pop_n pop n r = (ys, q')" "xs = x # ys"
      by (auto split: prod.splits)
    have "set_mset (contents r) = set ys \<union> set_mset (contents q')"
      using pop_n_contents [OF ys(1)] by simp
    then have "set ys \<union> set_mset (contents q') \<subseteq> set_mset (contents q)"
      using contents_pop [OF x] by auto
    with Suc.IH [OF invar_pop [OF Suc.prems(1) x] ys(1)] pop_greatest [OF Suc.prems(1) x]
    show ?thesis by (auto simp: ys(2))
  qed
qed simp

lemma pop_n_all: "size (contents q) \<le> n \<Longrightarrow> pop_n pop n q = (xs, q') \<Longrightarrow> contents q' = {#}"
proof (induction n arbitrary: q xs)
  case (Suc n)
  show ?case
  proof (cases "pop q")
    case None
    with Suc.prems show ?thesis by (auto simp: pop_None)
  next
    case (Some xq)
    then obtain x r where x: "pop q = Some (x, r)" by (cases xq) auto
    with Suc.prems obtain ys where "pop_n pop n r = (ys, q')" by (auto split: prod.splits)
    moreover have "size (contents r) \<le> n" using contents_pop [OF x] Suc.prems(1) by simp
    ultimately show ?thesis using Suc.IH by blast
  qed
qed simp

end

sublocale heap_order \<subseteq> hq: max_queue cmp "heap_push cmp" "heap_pop cmp" heap_peek mset "is_heap cmp"
proof unfold_locales
  fix q x q' y
  assume "is_heap cmp q" "heap_pop cmp q = Some (x, q')" "y \<in># mset q"
  then show "cmp y x \<noteq> Greater"
    using heap_root_greatest heap_pop_root by (metis in_set_conv_nth set_mset_mset)
qed (auto simp: heap_push_is_heap heap_peek_pop dest: heap_pop_mset heap_pop_is_heap)

end
