(* ===== verification/Sync_Queue.thy ===== *)
theory Sync_Queue
  imports Core_Types Binary_Heap
begin

text \<open>
  The operations and the priority queue of \<open>cloudsync-sync\<close> (\<open>operation.rs\<close>, \<open>queue.rs\<close>,
  \<open>error.rs\<close>). A \<open>SyncQueue\<close> is a binary heap behind a mutex, so every method is one atomic
  step on the heap's vector; tasks that share the queue interleave whole methods.
\<close>

section \<open>Operations\<close>

datatype SyncOperationType = Upload | Download | Delete

fun operation_type_str :: "SyncOperationType \<Rightarrow> string" where
  "operation_type_str Upload = ''upload''"
| "operation_type_str Download = ''download''"
| "operation_type_str Delete = ''delete''"

datatype SyncPriority = Low | Normal | High

text \<open>The discriminants, which \<open>derive(Ord)\<close> compares.\<close>

fun priority_rank :: "SyncPriority \<Rightarrow> nat" where
  "priority_rank Low = 0"
| "priority_rank Normal = 1"
| "priority_rank High = 2"

fun priority_str :: "SyncPriority \<Rightarrow> string" where
  "priority_str Low = ''low''"
| "priority_str Normal = ''normal''"
| "priority_str High = ''high''"

instantiation SyncPriority :: linorder
begin

definition less_eq_SyncPriority :: "SyncPriority \<Rightarrow> SyncPriority \<Rightarrow> bool" where
  "less_eq_SyncPriority a b \<longleftrightarrow> priority_rank a \<le> priority_rank b"

definition less_SyncPriority :: "SyncPriority \<Rightarrow> SyncPriority \<Rightarrow> bool" where
  "less_SyncPriority a b \<longleftrightarrow> priority_rank a < priority_rank b"

instance
proof
  fix a b :: SyncPriority
  show "a \<le> b \<Longrightarrow> b \<le> a \<Longrightarrow> a = b"
    by (cases a; cases b) (simp_all add: less_eq_SyncPriority_def)
qed (auto simp: less_eq_SyncPriority_def less_SyncPriority_def)

end

datatype OperationId = OperationId string

record SyncOperation =
  op_id :: OperationId
  op_account_id :: AccountId
  op_file_id :: FileId
  op_path :: CloudPath
  op_type :: SyncOperationType
  op_priority :: SyncPriority
  op_created_at :: datetime
  op_size :: "u64 option"

definition operation_id_new :: "'w sys \<Rightarrow> 'w \<Rightarrow> OperationId \<times> 'w" where
  "operation_id_new env w = (case new_v4 env w of (s, w') \<Rightarrow> (OperationId s, w'))"

primrec operation_id_str :: "OperationId \<Rightarrow> string" where
  "operation_id_str (OperationId s) = s"

definition sync_operation_new ::
  "'w sys \<Rightarrow> AccountId \<Rightarrow> FileId \<Rightarrow> CloudPath \<Rightarrow> SyncOperationType \<Rightarrow> SyncPriority \<Rightarrow> u64 option \<Rightarrow>
   'w \<Rightarrow> SyncOperation \<times> 'w" where
  "sync_operation_new env acc fid path ty prio sz w =
     (case operation_id_new env w of (oid, w1) \<Rightarrow>
      case utc_now env w1 of (now, w2) \<Rightarrow>
        (\<lparr> op_id = oid, op_account_id = acc, op_file_id = fid, op_path = path, op_type = ty,
           op_priority = prio, op_created_at = now, op_size = sz \<rparr>, w2))"

definition upload_high_priority ::
  "'w sys \<Rightarrow> AccountId \<Rightarrow> FileId \<Rightarrow> CloudPath \<Rightarrow> u64 option \<Rightarrow> 'w \<Rightarrow> SyncOperation \<times> 'w" where
  "upload_high_priority env acc fid path sz = sync_operation_new env acc fid path Upload High sz"

definition download_normal_priority ::
  "'w sys \<Rightarrow> AccountId \<Rightarrow> FileId \<Rightarrow> CloudPath \<Rightarrow> u64 option \<Rightarrow> 'w \<Rightarrow> SyncOperation \<times> 'w" where
  "download_normal_priority env acc fid path sz =
     sync_operation_new env acc fid path Download Normal sz"

definition download_high_priority ::
  "'w sys \<Rightarrow> AccountId \<Rightarrow> FileId \<Rightarrow> CloudPath \<Rightarrow> u64 option \<Rightarrow> 'w \<Rightarrow> SyncOperation \<times> 'w" where
  "download_high_priority env acc fid path sz =
     sync_operation_new env acc fid path Download High sz"

definition delete_operation ::
  "'w sys \<Rightarrow> AccountId \<Rightarrow> FileId \<Rightarrow> CloudPath \<Rightarrow> SyncPriority \<Rightarrow> 'w \<Rightarrow> SyncOperation \<times> 'w" where
  "delete_operation env acc fid path prio = sync_operation_new env acc fid path Delete prio None"

section \<open>Errors\<close>

datatype SyncError =
    QueueEmpty
  | OperationNotFound string
  | SyncFailed string
  | OtherError string

fun sync_error_str :: "SyncError \<Rightarrow> string" where
  "sync_error_str QueueEmpty = ''Sync queue is empty''"
| "sync_error_str (OperationNotFound i) = ''Operation with ID '' @ i @ '' not found in queue''"
| "sync_error_str (SyncFailed m) = ''Sync error: '' @ m"
| "sync_error_str (OtherError m) = m"

section \<open>The queue\<close>

text \<open>\<open>Ord for QueuedOperation\<close>: higher priority, then older.\<close>

definition queued_cmp :: "SyncOperation \<Rightarrow> SyncOperation \<Rightarrow> comp" where
  "queued_cmp a b =
     (case cmp_ord (op_priority a) (op_priority b) of
        Equiv \<Rightarrow> cmp_ord (op_created_at b) (op_created_at a)
      | other \<Rightarrow> other)"

type_synonym SyncQueue = "SyncOperation list"

definition queue_new :: SyncQueue where
  "queue_new = []"

definition queue_push :: "SyncOperation \<Rightarrow> SyncQueue \<Rightarrow> SyncQueue" where
  "queue_push operation q = heap_push queued_cmp operation q"

definition queue_pop :: "(SyncQueue, SyncOperation, SyncError) st" where
  "queue_pop q = (case heap_pop queued_cmp q of
     None \<Rightarrow> (Err QueueEmpty, q)
   | Some (operation, q') \<Rightarrow> (Ok operation, q'))"

definition queue_peek :: "SyncQueue \<Rightarrow> (SyncOperation, SyncError) outcome" where
  "queue_peek q = ok_or QueueEmpty (heap_peek q)"

text \<open>
  \<open>remove\<close> drains the heap into a vector before it looks for the operation, and the \<open>?\<close>
  after \<open>position\<close> leaves with the heap still drained.
\<close>

definition queue_remove :: "OperationId \<Rightarrow> (SyncQueue, SyncOperation, SyncError) st" where
  "queue_remove oid q =
     (let operations = q; drained = []
      in case position (\<lambda>operation. op_id operation = oid) operations of
           None \<Rightarrow> (Err (OperationNotFound (operation_id_str oid)), drained)
         | Some i \<Rightarrow> (Ok (operations ! i), heap_from_vec queued_cmp (remove_nth i operations)))"

definition queue_len :: "SyncQueue \<Rightarrow> nat" where
  "queue_len q = length q"

definition queue_is_empty :: "SyncQueue \<Rightarrow> bool" where
  "queue_is_empty q \<longleftrightarrow> q = []"

text \<open>The closure \<open>list\<close> sorts with; \<open>sort_by\<close> is the library's stable sort.\<close>

definition list_cmp :: "SyncOperation \<Rightarrow> SyncOperation \<Rightarrow> comp" where
  "list_cmp a b =
     (case cmp_ord (op_priority b) (op_priority a) of
        Equiv \<Rightarrow> cmp_ord (op_created_at a) (op_created_at b)
      | other \<Rightarrow> other)"

lift_definition list_comparator :: "SyncOperation comparator" is list_cmp
  by standard (auto simp: list_cmp_def split: comp.splits)

definition queue_list :: "SyncQueue \<Rightarrow> SyncOperation list" where
  "queue_list q = Sorting_Algorithms.sort list_comparator q"

definition queue_list_by_priority :: "SyncPriority \<Rightarrow> SyncQueue \<Rightarrow> SyncOperation list" where
  "queue_list_by_priority prio q = filter (\<lambda>operation. op_priority operation = prio) q"

definition queue_clear :: "SyncQueue \<Rightarrow> SyncQueue" where
  "queue_clear q = []"

section \<open>The queue serves the highest priority first\<close>

lemma queued_cmp_Greater:
  "queued_cmp a b = Greater \<longleftrightarrow>
     op_priority b < op_priority a \<or> op_priority a = op_priority b \<and> op_created_at a < op_created_at b"
  by (auto simp: queued_cmp_def split: comp.splits)

lemma list_cmp_swap: "list_cmp a b = queued_cmp b a"
  by (simp add: list_cmp_def queued_cmp_def)

interpretation queue_order: heap_order queued_cmp
  by standard (auto simp: queued_cmp_def split: comp.splits)

lemma compare_list_comparator [simp]: "compare list_comparator = list_cmp"
  by (rule list_comparator.rep_eq)

abbreviation served_before :: "SyncOperation \<Rightarrow> SyncOperation \<Rightarrow> bool" where
  "served_before a b \<equiv> queued_cmp b a \<noteq> Greater"

text \<open>What \<open>served_before\<close> says of the fields.\<close>

lemma served_before_iff:
  "served_before a b \<longleftrightarrow>
     op_priority b < op_priority a \<or> op_priority a = op_priority b \<and> op_created_at a \<le> op_created_at b"
  using queued_cmp_Greater [of b a] by (auto simp: not_less)

lemma queue_pop_Ok:
  "queue_pop q = (Ok x, q') \<longleftrightarrow> heap_pop queued_cmp q = Some (x, q')"
  by (auto simp: queue_pop_def split: option.splits prod.splits)

lemma queue_pop_Err:
  "queue_pop q = (Err e, q') \<longleftrightarrow> e = QueueEmpty \<and> q = [] \<and> q' = []"
proof (cases "heap_pop queued_cmp q")
  case None
  then have "q = []" by simp
  with None show ?thesis by (auto simp: queue_pop_def)
next
  case (Some xq)
  then have "q \<noteq> []" by (metis heap_pop_None_iff option.distinct(1))
  with Some show ?thesis by (auto simp: queue_pop_def split: prod.splits)
qed

lemma queue_pop_not_panic [simp]: "queue_pop q \<noteq> (Panicked, q')"
  by (auto simp: queue_pop_def split: option.splits prod.splits)

lemma queue_pop_length: "queue_pop q = (Ok x, q') \<Longrightarrow> length q = Suc (length q')"
  by (auto simp: queue_pop_Ok dest: heap_pop_length)

abbreviation pops :: "nat \<Rightarrow> SyncQueue \<Rightarrow> SyncOperation list \<times> SyncQueue" where
  "pops \<equiv> pop_n (heap_pop queued_cmp)"

lemma sorted_list_cmp: "Sorting_Algorithms.sorted list_comparator xs \<longleftrightarrow> sorted_wrt served_before xs"
proof (induction xs)
  case (Cons x xs)
  show ?case
  proof
    assume a: "Sorting_Algorithms.sorted list_comparator (x # xs)"
    from a have "Sorting_Algorithms.sorted list_comparator xs"
      by (rule Sorting_Algorithms.sorted_Cons_imp_sorted)
    moreover have "\<forall>y \<in> set xs. list_cmp x y \<noteq> Greater"
      using Sorting_Algorithms.sorted_Cons_imp_not_less [OF a] by auto
    ultimately show "sorted_wrt served_before (x # xs)"
      using Cons.IH by (simp add: list_cmp_swap)
  next
    assume "sorted_wrt served_before (x # xs)"
    with Cons.IH show "Sorting_Algorithms.sorted list_comparator (x # xs)"
      by (intro Sorting_Algorithms.sorted_ConsI) (auto simp: list_cmp_swap)
  qed
qed simp

lemma queue_list_sorted: "sorted_wrt served_before (queue_list q)"
  by (simp add: queue_list_def flip: sorted_list_cmp)

lemma mset_queue_list [simp]: "mset (queue_list q) = mset q"
  by (simp add: queue_list_def)

text \<open>
  With ties the two orders differ only among operations of one priority and creation time:
  a list in a total order is determined by its elements, so the keys agree at every position.
\<close>

lemma sorted_wrt_unique:
  assumes antisym: "\<And>x y. R x y \<Longrightarrow> R y x \<Longrightarrow> x = y"
  shows "sorted_wrt R xs \<Longrightarrow> sorted_wrt R ys \<Longrightarrow> mset xs = mset ys \<Longrightarrow> xs = ys"
proof (induction xs arbitrary: ys)
  case (Cons x xs)
  then obtain y ys' where ys: "ys = y # ys'" by (cases ys) auto
  have "x = y"
  proof (rule ccontr)
    assume "x \<noteq> y"
    with Cons.prems(3) ys have "x \<in># mset ys'" "y \<in># mset xs" by (metis insert_iff mset.simps(2) set_mset_add_mset_insert)+
    with Cons.prems(1,2) ys antisym [of x y] \<open>x \<noteq> y\<close> show False by auto
  qed
  with Cons ys show ?case by simp
qed simp

lemma pops_all_keys:
  assumes "is_heap queued_cmp q" and "pops (length q) q = (xs, r)"
  shows "r = []" "mset xs = mset q"
    "map (\<lambda>x. (op_priority x, op_created_at x)) xs = map (\<lambda>x. (op_priority x, op_created_at x)) (queue_list q)"
proof -
  show r: "r = []" using queue_order.hq.pop_n_all [OF _ assms(2)] by simp
  show m: "mset xs = mset q" using queue_order.hq.pop_n_contents [OF assms(2)] r by simp
  have "sorted_wrt served_before xs" using queue_order.hq.pop_n_sorted [OF assms] by simp
  then show "map (\<lambda>x. (op_priority x, op_created_at x)) xs = map (\<lambda>x. (op_priority x, op_created_at x)) (queue_list q)"
    using m queue_list_sorted [of q]
    by (intro sorted_wrt_unique [where R = "\<lambda>(p, t) (p', t'). p' < p \<or> p = p' \<and> t \<le> t'"])
      (auto simp: sorted_wrt_map served_before_iff mset_map)
qed

text \<open>No two queued operations tie on priority and creation time.\<close>

definition no_ties :: "SyncQueue \<Rightarrow> bool" where
  "no_ties q \<longleftrightarrow> distinct (map (\<lambda>operation. (op_priority operation, op_created_at operation)) q)"

lemma filter_Equiv_no_ties:
  assumes "no_ties xs" and "x \<in> set xs"
  shows "filter (\<lambda>y. list_cmp x y = Equiv) xs = [x]"
  using assms
proof (induction xs)
  case (Cons y ys)
  have eq: "list_cmp w z = Equiv \<longleftrightarrow> op_priority w = op_priority z \<and> op_created_at w = op_created_at z"
    for w z by (auto simp: list_cmp_def split: comp.splits)
  show ?case
  proof (cases "x = y")
    case True
    with Cons.prems have "filter (\<lambda>z. list_cmp x z = Equiv) ys = []"
      by (auto simp: no_ties_def filter_empty_conv eq image_iff)
    with True show ?thesis by (simp add: eq)
  next
    case False
    with Cons show ?thesis by (auto simp: no_ties_def eq image_iff)
  qed
qed simp

lemma pops_all_eq_list:
  assumes "is_heap queued_cmp q" and "no_ties q"
  shows "pops (length q) q = (queue_list q, [])"
proof -
  obtain xs r where xs: "pops (length q) q = (xs, r)" by fastforce
  note r = pops_all_keys(1) [OF assms(1) xs] and m = pops_all_keys(2) [OF assms(1) xs, symmetric]
  have "sorted_wrt served_before xs" using queue_order.hq.pop_n_sorted [OF assms(1) xs] by simp
  then have "Sorting_Algorithms.sorted list_comparator xs" by (simp add: sorted_list_cmp)
  moreover have "filter (\<lambda>y. list_cmp x y = Equiv) q = filter (\<lambda>y. list_cmp x y = Equiv) xs"
    if "x \<in> set q" for x
  proof -
    have "mset (map (\<lambda>z. (op_priority z, op_created_at z)) q)
        = mset (map (\<lambda>z. (op_priority z, op_created_at z)) xs)" using m by simp
    then have "no_ties xs" using assms(2) unfolding no_ties_def by (metis mset_eq_imp_distinct_iff)
    moreover have "x \<in> set xs" using that m by (metis set_mset_mset)
    ultimately show ?thesis using filter_Equiv_no_ties assms(2) that by metis
  qed
  ultimately have "queue_list q = xs"
    unfolding queue_list_def using m by (intro Sorting_Algorithms.sort_eqI) auto
  with xs r show ?thesis by simp
qed

section \<open>Removing and interleaving\<close>

lemma queue_remove_found:
  assumes "op_id x = oid" and "x \<in> set q"
  obtains y q' where "queue_remove oid q = (Ok y, q')" "op_id y = oid" "mset q = add_mset y (mset q')"
    "is_heap queued_cmp q'"
proof -
  obtain i where i: "position (\<lambda>x. op_id x = oid) q = Some i"
    using assms by (cases "position (\<lambda>x. op_id x = oid) q") auto
  from position_Some [OF i] have "i < length q" "op_id (q ! i) = oid" by auto
  then show ?thesis
    using i that [of "q ! i" "heap_from_vec queued_cmp (remove_nth i q)"]
    by (simp add: queue_remove_def mset_remove_nth queue_order.heap_from_vec_is_heap)
qed

lemma queue_remove_missing:
  "(\<forall>x \<in> set q. op_id x \<noteq> oid) \<Longrightarrow>
   queue_remove oid q = (Err (OperationNotFound (operation_id_str oid)), [])"
  by (simp add: queue_remove_def position_None_iff [THEN iffD2])

lemma queue_remove_Ok:
  assumes "queue_remove oid q = (Ok x, q')"
  shows "mset q = add_mset x (mset q') \<and> is_heap queued_cmp q' \<and> op_id x = oid"
proof -
  have "\<exists>y \<in> set q. op_id y = oid"
    using assms queue_remove_missing [of q oid] by auto
  then obtain z where z: "op_id z = oid" "z \<in> set q" by blast
  obtain y r where y: "queue_remove oid q = (Ok y, r)" "op_id y = oid" "mset q = add_mset y (mset r)"
    "is_heap queued_cmp r"
    by (rule queue_remove_found [OF z])
  from y(1) assms have "y = x" "r = q'" by simp_all
  with y show ?thesis by simp
qed

lemma queue_remove_Err:
  "queue_remove oid q = (Err e, q') \<Longrightarrow> q' = [] \<and> (\<forall>x \<in> set q. op_id x \<noteq> oid)"
  by (auto simp: queue_remove_def Let_def split: option.splits)

text \<open>
  Tasks that share a queue: each step is one method call, whether it succeeds or not. The
  multisets record what was pushed, what was handed to a caller, and what was dropped by a
  call that empties the queue.
\<close>

inductive queue_history ::
  "SyncOperation multiset \<Rightarrow> SyncOperation multiset \<Rightarrow> SyncOperation multiset \<Rightarrow> SyncQueue \<Rightarrow> bool" where
  created: "queue_history {#} {#} {#} queue_new"
| pushed: "queue_history P T D q \<Longrightarrow> queue_history (add_mset x P) T D (queue_push x q)"
| popped: "queue_history P T D q \<Longrightarrow> queue_pop q = (Ok x, q') \<Longrightarrow> queue_history P (add_mset x T) D q'"
| popped_empty: "queue_history P T D q \<Longrightarrow> queue_pop q = (Err e, q') \<Longrightarrow> queue_history P T D q'"
| removed: "queue_history P T D q \<Longrightarrow> queue_remove oid q = (Ok x, q') \<Longrightarrow>
    queue_history P (add_mset x T) D q'"
| not_found: "queue_history P T D q \<Longrightarrow> queue_remove oid q = (Err e, q') \<Longrightarrow>
    queue_history P T (D + mset q) q'"
| cleared: "queue_history P T D q \<Longrightarrow> queue_history P T (D + mset q) (queue_clear q)"

lemma queue_history_inv:
  "queue_history P T D q \<Longrightarrow> P = T + D + mset q \<and> is_heap queued_cmp q"
proof (induction rule: queue_history.induct)
  case created
  show ?case by (simp add: queue_new_def is_heap_def)
next
  case (pushed P T D q x)
  then show ?case by (simp add: queue_push_def queue_order.heap_push_is_heap)
next
  case (popped P T D q x q')
  then show ?case
    using heap_pop_mset [of queued_cmp q x q'] queue_order.heap_pop_is_heap [of q x q']
    by (simp add: queue_pop_Ok)
next
  case (popped_empty P T D q e q')
  then show ?case by (simp add: queue_pop_Err)
next
  case (removed P T D q oid x q')
  then show ?case using queue_remove_Ok [of oid q x q'] by simp
next
  case (not_found P T D q oid e q')
  then show ?case using queue_remove_Err [of oid q e q'] by (simp add: is_heap_def)
next
  case (cleared P T D q)
  then show ?case by (simp add: queue_clear_def is_heap_def)
qed

section \<open>Properties\<close>

text \<open>A queue of three operations, for the concrete instances.\<close>

definition sample_op :: "nat \<Rightarrow> SyncPriority \<Rightarrow> datetime \<Rightarrow> SyncOperation" where
  "sample_op n prio t = \<lparr> op_id = OperationId (show_nat n), op_account_id = AccountId ''acc'',
     op_file_id = FileId (show_nat n), op_path = cloud_path_new (show_nat n), op_type = Download,
     op_priority = prio, op_created_at = t, op_size = None \<rparr>"

definition sample_queue :: SyncQueue where
  "sample_queue = queue_push (sample_op 3 High 30) (queue_push (sample_op 2 Low 10)
     (queue_push (sample_op 1 High 20) queue_new))"

lemmas heap_eval =
  heap_push_def heap_pop_def heap_sift_up.simps heap_to_bottom.simps heap_sift_down.simps
  heap_from_vec_def greater_child_def swap_at_def parent_at_def

lemma sample_queue_eq:
  "sample_queue = [sample_op 1 High 20, sample_op 2 Low 10, sample_op 3 High 30]"
  by (simp add: sample_queue_def queue_push_def queue_new_def heap_eval Let_def queued_cmp_def
      cmp_ord_def sample_op_def less_SyncPriority_def)

lemma sample_queue_history:
  "queue_history {#sample_op 3 High 30, sample_op 2 Low 10, sample_op 1 High 20#} {#} {#} sample_queue"
  unfolding sample_queue_def by (intro queue_history.intros)

text \<open>Four operations that tie: they are listed as 1, 2, 3, 4 and served as 1, 3, 2, 4.\<close>

definition tied_queue :: SyncQueue where
  "tied_queue = queue_push (sample_op 4 High 10) (queue_push (sample_op 3 High 10)
     (queue_push (sample_op 2 High 10) (queue_push (sample_op 1 High 10) queue_new)))"

lemma tied_queue_history:
  "queue_history {#sample_op 4 High 10, sample_op 3 High 10, sample_op 2 High 10, sample_op 1 High 10#} {#} {#} tied_queue"
  unfolding tied_queue_def by (intro queue_history.intros)

lemma tied_queue_eq: "tied_queue = [sample_op 1 High 10, sample_op 2 High 10, sample_op 3 High 10, sample_op 4 High 10]"
  by (simp add: tied_queue_def queue_push_def queue_new_def heap_eval Let_def queued_cmp_def
      cmp_ord_def sample_op_def less_SyncPriority_def)

lemma tied_queue_list: "queue_list tied_queue = map (\<lambda>n. sample_op n High 10) [1, 2, 3, 4]"
proof -
  have "sorted_wrt served_before tied_queue" by (simp add: tied_queue_eq served_before_iff sample_op_def)
  then have "Sorting_Algorithms.sorted list_comparator tied_queue" by (simp add: sorted_list_cmp)
  then show ?thesis by (simp add: queue_list_def Sorting_Algorithms.sort_eqI tied_queue_eq)
qed

lemma tied_queue_pops:
  "pops (length tied_queue) tied_queue = ([sample_op 1 High 10, sample_op 3 High 10, sample_op 2 High 10, sample_op 4 High 10], [])"
  by (simp add: tied_queue_eq heap_eval Let_def queued_cmp_def cmp_ord_def sample_op_def less_SyncPriority_def)

lemma sample_queue_pop:
  "queue_pop sample_queue = (Ok (sample_op 1 High 20), [sample_op 3 High 30, sample_op 2 Low 10])"
  by (simp add: sample_queue_eq queue_pop_def heap_eval Let_def queued_cmp_def cmp_ord_def
      sample_op_def less_SyncPriority_def)

text \<open>
  C1: From any queue that a sequence of calls can produce, \<open>pop\<close> hands out an operation
  that no waiting operation outranks (higher priority first, then the older one), takes
  exactly that operation out, and fails only when nothing is waiting.
\<close>

theorem queue_pop_serves_best:
  assumes "queue_history P T D q"
  shows "case queue_pop q of
      (Ok x, q') \<Rightarrow> mset q = add_mset x (mset q') \<and> queue_peek q = Ok x \<and>
        (\<forall>y \<in># mset q'. op_priority y < op_priority x \<or>
           op_priority x = op_priority y \<and> op_created_at x \<le> op_created_at y)
    | (Err e, q') \<Rightarrow> e = QueueEmpty \<and> q = [] \<and> q' = []
    | (Panicked, q') \<Rightarrow> False"
proof -
  obtain r q' where pop: "queue_pop q = (r, q')" by fastforce
  have h: "is_heap queued_cmp q" using queue_history_inv [OF assms] by simp
  show ?thesis
  proof (cases r)
    case (Ok x)
    with pop have x: "heap_pop queued_cmp q = Some (x, q')" by (simp add: queue_pop_Ok)
    have "served_before x y" if "y \<in># mset q'" for y
      using queue_order.hq.pop_greatest [OF h x, of y] queue_order.hq.contents_pop [OF x] that by simp
    then show ?thesis
      using Ok pop heap_pop_mset [OF x] queue_order.heap_peek_pop [of q] x
      by (simp add: served_before_iff queue_peek_def)
  next
    case (Err e)
    with pop have "e = QueueEmpty \<and> q = [] \<and> q' = []" using queue_pop_Err by blast
    with pop Err show ?thesis by simp
  next
    case Panicked
    with pop show ?thesis by simp
  qed
qed

theorem queue_pop_serves_best_witness:
  "queue_pop sample_queue = (Ok (sample_op 1 High 20), [sample_op 3 High 30, sample_op 2 Low 10]) \<and>
   mset sample_queue = add_mset (sample_op 1 High 20) (mset [sample_op 3 High 30, sample_op 2 Low 10])"
  using queue_pop_serves_best [OF sample_queue_history] by (simp add: sample_queue_pop)

text \<open>
  C34: Draining a queue hands the operations out exactly in the order that \<open>list\<close> reports,
  as long as no two of them tie on both priority and creation time.
\<close>

theorem draining_follows_list:
  assumes "queue_history P T D q" and "no_ties q"
  shows "pop_n (heap_pop queued_cmp) (queue_len q) q = (queue_list q, queue_new)"
  using pops_all_eq_list [OF _ assms(2)] queue_history_inv [OF assms(1)]
  by (simp add: queue_len_def queue_new_def)

theorem draining_follows_list_witness:
  "pop_n (heap_pop queued_cmp) (queue_len sample_queue) sample_queue = (queue_list sample_queue, queue_new)"
  by (rule draining_follows_list [OF sample_queue_history])
    (simp add: sample_queue_eq no_ties_def sample_op_def)

text \<open>
  C20: Whatever calls are made, every operation that was pushed is either still waiting, was
  handed to exactly one caller, or was dropped by \<open>clear\<close> or by a \<open>remove\<close> that failed; and
  \<open>list\<close> shows exactly the waiting ones, best first.
\<close>

theorem queue_conserves_operations:
  assumes "queue_history P T D q"
  shows "P = T + D + mset q \<and> mset (queue_list q) = mset q \<and>
    sorted_wrt (\<lambda>x y. op_priority y < op_priority x \<or>
      op_priority x = op_priority y \<and> op_created_at x \<le> op_created_at y) (queue_list q)"
  using queue_history_inv [OF assms] queue_list_sorted [of q] by (simp add: served_before_iff)

theorem queue_conserves_operations_witness:
  "mset (queue_list sample_queue) = {#sample_op 3 High 30, sample_op 2 Low 10, sample_op 1 High 20#}"
  using queue_conserves_operations [OF sample_queue_history] by simp

text \<open>
  C33: Removing an operation that is waiting returns one with that identifier, keeps all the
  others, and leaves a queue that still serves the best operation first. Removing one that is
  not waiting reports \<open>OperationNotFound\<close> and empties the queue: every operation that was
  waiting is lost.
\<close>

theorem queue_remove_outcome:
  "if \<exists>x \<in> set q. op_id x = oid
   then \<exists>y q'. queue_remove oid q = (Ok y, q') \<and> op_id y = oid \<and> mset q = add_mset y (mset q') \<and> is_heap queued_cmp q'
   else queue_remove oid q = (Err (OperationNotFound (operation_id_str oid)), [])"
  using queue_remove_found [of _ oid q] queue_remove_missing [of q oid] by auto metis

theorem queue_remove_outcome_witness:
  "(\<exists>y q'. queue_remove (OperationId (show_nat 2)) sample_queue = (Ok y, q') \<and> mset sample_queue = add_mset y (mset q')) \<and>
   queue_remove (OperationId ''other'') sample_queue = (Err (OperationNotFound ''other''), [])"
  using queue_remove_outcome [of sample_queue "OperationId (show_nat 2)"] queue_remove_outcome [of sample_queue "OperationId ''other''"]
  by (auto simp: sample_queue_eq sample_op_def show_nat.simps)

end
