(* ===== verification/Rust_Path.thy ===== *)
theory Rust_Path
  imports Prelude
begin

text \<open>
  What the sources use of \<open>std::path\<close> and \<open>std::fs\<close> on Unix. A path is its text; two texts
  name the same path when they have the same components. The disk maps absolute locations
  to directories and files; what the operating system may refuse (permissions, a full disk)
  is a parameter that can fail any single call.
\<close>

section \<open>Paths\<close>

datatype PathComponent = RootDir | CurDir | ParentDir | NormalC string

type_synonym PathBuf = string

fun component_str :: "PathComponent \<Rightarrow> string" where
  "component_str RootDir = ''/''"
| "component_str CurDir = ''.''"
| "component_str ParentDir = ''..''"
| "component_str (NormalC n) = n"

text \<open>Repeated separators and inner \<open>.\<close> are skipped.\<close>

definition piece_components :: "string list \<Rightarrow> PathComponent list" where
  "piece_components ps =
     map (\<lambda>p. if p = ''..'' then ParentDir else NormalC p) (filter (\<lambda>p. p \<noteq> [] \<and> p \<noteq> ''.'') ps)"

definition path_is_absolute :: "PathBuf \<Rightarrow> bool" where
  "path_is_absolute s \<longleftrightarrow> starts_with ''/'' s"

definition path_components :: "PathBuf \<Rightarrow> PathComponent list" where
  "path_components s =
     (if path_is_absolute s then RootDir # piece_components (split_char slash s)
      else if hd (split_char slash s) = ''.'' then CurDir # piece_components (split_char slash s)
      else piece_components (split_char slash s))"

text \<open>\<open>PathBuf::push\<close>, hence \<open>join\<close>: an absolute argument replaces the base.\<close>

definition path_join :: "PathBuf \<Rightarrow> string \<Rightarrow> PathBuf" where
  "path_join base p =
     (if path_is_absolute p then p
      else if base \<noteq> [] \<and> last base \<noteq> slash then base @ ''/'' @ p
      else base @ p)"

text \<open>\<open>collect::<PathBuf>()\<close> of components.\<close>

definition path_collect :: "PathComponent list \<Rightarrow> PathBuf" where
  "path_collect cs = foldl (\<lambda>p c. path_join p (component_str c)) [] cs"

definition path_parent :: "PathBuf \<Rightarrow> PathBuf option" where
  "path_parent s =
     (let cs = path_components s
      in if cs = [] \<or> last cs = RootDir then None else Some (path_collect (butlast cs)))"

definition path_strip_prefix :: "PathBuf \<Rightarrow> PathBuf \<Rightarrow> PathComponent list option" where
  "path_strip_prefix s base =
     (let cs = path_components s; bs = path_components base
      in if take (length bs) cs = bs then Some (drop (length bs) cs) else None)"

section \<open>How components and joining interact\<close>

lemma split_char_not_Nil [simp]: "split_char c s \<noteq> []"
  by (induction s) (auto split: list.splits)

lemma split_char_append: "split_char c (s @ c # t) = split_char c s @ split_char c t"
  by (induction s) (auto split: list.splits)

lemma split_char_single: "c \<notin> set s \<Longrightarrow> split_char c s = [s]"
  by (induction s) auto

lemma split_char_piece: "p \<in> set (split_char c s) \<Longrightarrow> c \<notin> set p \<and> set p \<subseteq> set s"
proof (induction s arbitrary: p)
  case (Cons x s)
  then show ?case by (cases "split_char c s") (fastforce split: if_splits)+
qed simp

lemma piece_components_append [simp]:
  "piece_components (ps @ qs) = piece_components ps @ piece_components qs"
  by (simp add: piece_components_def)

lemma piece_components_Nil_piece [simp]:
  "piece_components [] = []" "piece_components ([] # ps) = piece_components ps"
  by (simp_all add: piece_components_def)

lemma piece_components_no_root [simp]: "RootDir \<notin> set (piece_components ps)" "CurDir \<notin> set (piece_components ps)"
  by (auto simp: piece_components_def)

lemma path_components_relative:
  "\<not> path_is_absolute p \<Longrightarrow> hd (split_char slash p) \<noteq> ''.'' \<Longrightarrow>
   path_components p = piece_components (split_char slash p)"
  by (simp add: path_components_def)

lemma path_is_absolute_iff: "path_is_absolute s \<longleftrightarrow> s \<noteq> [] \<and> hd s = slash"
  by (cases s) (auto simp: path_is_absolute_def starts_with_def)

lemma hd_split_char_append: "hd (split_char c (s @ c # t)) = hd (split_char c s)"
  by (simp add: split_char_append)

text \<open>Joining a relative path below a nonempty base appends its pieces to the base's components.\<close>

lemma components_join_sep:
  assumes "b \<noteq> []"
  shows "path_components (b @ slash # p) = path_components b @ piece_components (split_char slash p)"
proof -
  have "path_is_absolute (b @ slash # p) = path_is_absolute b"
    using assms by (cases b) (auto simp: path_is_absolute_iff)
  then show ?thesis by (simp add: path_components_def split_char_append)
qed

lemma components_join_trailing:
  "path_components (b @ slash # p) = path_components (b @ [slash]) @ piece_components (split_char slash p)"
proof -
  have "path_is_absolute (b @ slash # p) = path_is_absolute (b @ [slash])"
    by (cases b) (auto simp: path_is_absolute_iff)
  moreover have "hd (split_char slash (b @ slash # p)) = hd (split_char slash (b @ [slash]))"
    by (simp add: split_char_append)
  ultimately show ?thesis by (simp add: path_components_def split_char_append)
qed

lemma path_components_join:
  assumes "\<not> path_is_absolute p" and "base \<noteq> []"
  shows "path_components (path_join base p) = path_components base @ piece_components (split_char slash p)"
proof (cases "last base = slash")
  case True
  then obtain b where "base = b @ [slash]" using assms(2) by (metis append_butlast_last_id)
  then show ?thesis using assms(1) components_join_trailing [of b p] by (simp add: path_join_def)
next
  case False
  then show ?thesis using assms components_join_sep [of base p] by (simp add: path_join_def)
qed

lemma path_join_nonempty: "base \<noteq> [] \<Longrightarrow> path_join base p \<noteq> []"
  by (auto simp: path_join_def path_is_absolute_iff)

text \<open>The text of components that were read from a relative path, rejoined with slashes.\<close>

definition plain_name :: "string \<Rightarrow> bool" where
  "plain_name n \<longleftrightarrow> n \<noteq> [] \<and> n \<noteq> ''.'' \<and> n \<noteq> ''..'' \<and> slash \<notin> set n"

lemma plain_name_components:
  assumes "plain_name n"
  shows "path_components n = [NormalC n]" "\<not> path_is_absolute n"
    "piece_components (split_char slash n) = [NormalC n]"
proof -
  have s: "split_char slash n = [n]" using assms by (simp add: plain_name_def split_char_single)
  show a: "\<not> path_is_absolute n" using assms by (cases n) (auto simp: plain_name_def path_is_absolute_iff)
  show p: "piece_components (split_char slash n) = [NormalC n]"
    using assms by (simp add: s piece_components_def plain_name_def)
  show "path_components n = [NormalC n]"
    using a p assms s by (simp add: path_components_relative plain_name_def)
qed

fun intercalate :: "char \<Rightarrow> string list \<Rightarrow> string" where
  "intercalate c [] = []"
| "intercalate c [x] = x"
| "intercalate c (x # y # ys) = x @ c # intercalate c (y # ys)"

lemma split_char_intercalate:
  "ps \<noteq> [] \<Longrightarrow> \<forall>p \<in> set ps. c \<notin> set p \<Longrightarrow> split_char c (intercalate c ps) = ps"
  by (induction c ps rule: intercalate.induct) (auto simp: split_char_single split_char_append)

lemma intercalate_snoc:
  "ps \<noteq> [] \<Longrightarrow> intercalate c (ps @ [x]) = intercalate c ps @ c # x"
  by (induction c ps rule: intercalate.induct) auto

lemma intercalate_eq_Nil: "\<forall>n \<in> set ns. n \<noteq> [] \<Longrightarrow> intercalate c ns = [] \<longleftrightarrow> ns = []"
  by (cases "(c, ns)" rule: intercalate.cases) auto

lemma last_intercalate: "ns \<noteq> [] \<Longrightarrow> \<forall>n \<in> set ns. n \<noteq> [] \<Longrightarrow> last (intercalate c ns) = last (last ns)"
  by (induction c ns rule: intercalate.induct) (auto simp: intercalate_eq_Nil)

lemma path_collect_plain:
  "\<forall>n \<in> set ns. plain_name n \<Longrightarrow> path_collect (map NormalC ns) = intercalate slash ns"
proof (induction ns rule: rev_induct)
  case Nil
  then show ?case by (simp add: path_collect_def)
next
  case (snoc n ns)
  then have ih: "path_collect (map NormalC ns) = intercalate slash ns" by simp
  have n: "\<not> path_is_absolute n" using snoc.prems plain_name_components by simp
  show ?case
  proof (cases "ns = []")
    case True
    then show ?thesis using n by (simp add: path_collect_def path_join_def)
  next
    case False
    have ne: "\<forall>m \<in> set ns. m \<noteq> []" using snoc.prems by (auto simp: plain_name_def)
    have "last ns \<in> set ns" using False by simp
    then have "slash \<notin> set (last ns)" "last ns \<noteq> []" using snoc.prems by (auto simp: plain_name_def)
    then have "last (intercalate slash ns) \<noteq> slash"
      using last_intercalate [OF False ne, of slash] by (metis last_in_set)
    moreover have "intercalate slash ns \<noteq> []" using intercalate_eq_Nil [OF ne] False by simp
    ultimately show ?thesis
      using ih n by (simp add: path_collect_def path_join_def intercalate_snoc [OF False])
  qed
qed

section \<open>The disk\<close>

datatype node = DirN | FileN "u8 list"

type_synonym location = "string list"
type_synonym disk = "location \<Rightarrow> node option"

record 'w world =
  w_disk :: disk
  w_outer :: 'w

text \<open>
  \<open>io_fault\<close> is the error the operating system reports for a call at a location, if it
  refuses the call; \<open>io_cwd\<close> is the current directory; \<open>io_read_len\<close> is the number of bytes
  one \<open>read\<close> call at a position delivers at most (a short read is allowed).
\<close>

record 'w io =
  io_fault :: "string \<Rightarrow> location \<Rightarrow> 'w \<Rightarrow> string option"
  io_cwd :: location
  io_read_len :: "location \<Rightarrow> nat \<Rightarrow> nat \<Rightarrow> 'w \<Rightarrow> nat"

definition is_dir_at :: "disk \<Rightarrow> location \<Rightarrow> bool" where
  "is_dir_at d l \<longleftrightarrow> l = [] \<or> d l = Some DirN"

fun walk :: "disk \<Rightarrow> location \<Rightarrow> PathComponent list \<Rightarrow> location option" where
  "walk d cur [] = Some cur"
| "walk d cur (RootDir # cs) = walk d [] cs"
| "walk d cur (CurDir # cs) = (if is_dir_at d cur then walk d cur cs else None)"
| "walk d cur (ParentDir # cs) = (if is_dir_at d cur then walk d (butlast cur) cs else None)"
| "walk d cur (NormalC n # cs) = (if is_dir_at d cur then walk d (cur @ [n]) cs else None)"

definition node_at :: "'w io \<Rightarrow> disk \<Rightarrow> PathBuf \<Rightarrow> node option" where
  "node_at io d p = (case walk d (io_cwd io) (path_components p) of
     None \<Rightarrow> None
   | Some l \<Rightarrow> if l = [] then Some DirN else d l)"

text \<open>\<open>Path::exists\<close>: an error of the system also reads as absent.\<close>

definition path_exists :: "'w io \<Rightarrow> PathBuf \<Rightarrow> 'w world \<Rightarrow> bool" where
  "path_exists io p w \<longleftrightarrow> node_at io (w_disk w) p \<noteq> None \<and>
     io_fault io ''stat'' (the (walk (w_disk w) (io_cwd io) (path_components p))) (w_outer w) = None"

text \<open>\<open>File::open\<close> for reading, with what is found there.\<close>

definition file_open :: "'w io \<Rightarrow> PathBuf \<Rightarrow> 'w world \<Rightarrow> (location \<times> node, string) outcome" where
  "file_open io p w = (case (walk (w_disk w) (io_cwd io) (path_components p), node_at io (w_disk w) p) of
     (Some l, Some n) \<Rightarrow> (case io_fault io ''open'' l (w_outer w) of Some e \<Rightarrow> Err e | None \<Rightarrow> Ok (l, n))
   | _ \<Rightarrow> Err ''No such file or directory (os error 2)'')"

text \<open>Seeking from the start and one \<open>read\<close> call: offsets above \<open>i64::MAX\<close> are refused.\<close>

definition file_read_at :: "'w io \<Rightarrow> location \<times> node \<Rightarrow> u64 \<Rightarrow> nat \<Rightarrow> 'w world \<Rightarrow> (u8 list, string) outcome" where
  "file_read_at io f start n w = (case f of (l, nd) \<Rightarrow>
     if 2 ^ 63 \<le> unat start then Err ''Invalid argument (os error 22)''
     else case io_fault io ''lseek'' l (w_outer w) of Some e \<Rightarrow> Err e | None \<Rightarrow>
       (case io_fault io ''read'' l (w_outer w) of Some e \<Rightarrow> Err e | None \<Rightarrow>
         (case nd of DirN \<Rightarrow> Err ''Is a directory (os error 21)''
          | FileN b \<Rightarrow> Ok (take (min n (io_read_len io l (unat start) n (w_outer w))) (drop (unat start) b)))))"

text \<open>\<open>create_dir_all\<close> makes the missing directories of the path from the top down.\<close>

fun make_dirs :: "'w io \<Rightarrow> location \<Rightarrow> PathComponent list \<Rightarrow> ('w world, unit, string) st" where
  "make_dirs io cur [] w = (Ok (), w)"
| "make_dirs io cur (RootDir # cs) w = make_dirs io [] cs w"
| "make_dirs io cur (CurDir # cs) w = make_dirs io cur cs w"
| "make_dirs io cur (ParentDir # cs) w = make_dirs io (butlast cur) cs w"
| "make_dirs io cur (NormalC n # cs) w =
     (let l = cur @ [n]
      in case w_disk w l of
           Some DirN \<Rightarrow> make_dirs io l cs w
         | Some (FileN b) \<Rightarrow> (Err ''File exists (os error 17)'', w)
         | None \<Rightarrow> (case io_fault io ''mkdir'' l (w_outer w) of
             Some e \<Rightarrow> (Err e, w)
           | None \<Rightarrow> make_dirs io l cs (w\<lparr> w_disk := (w_disk w)(l \<mapsto> DirN) \<rparr>)))"

definition create_dir_all :: "'w io \<Rightarrow> PathBuf \<Rightarrow> ('w world, unit, string) st" where
  "create_dir_all io p = make_dirs io (io_cwd io) (path_components p)"

text \<open>\<open>remove_file\<close> refuses directories.\<close>

definition remove_file :: "'w io \<Rightarrow> PathBuf \<Rightarrow> ('w world, unit, string) st" where
  "remove_file io p w = (case walk (w_disk w) (io_cwd io) (path_components p) of
     None \<Rightarrow> (Err ''No such file or directory (os error 2)'', w)
   | Some l \<Rightarrow> (case io_fault io ''unlink'' l (w_outer w) of
       Some e \<Rightarrow> (Err e, w)
     | None \<Rightarrow> (case (if l = [] then Some DirN else w_disk w l) of
         None \<Rightarrow> (Err ''No such file or directory (os error 2)'', w)
       | Some DirN \<Rightarrow> (Err ''Is a directory (os error 21)'', w)
       | Some (FileN b) \<Rightarrow> (Ok (), w\<lparr> w_disk := (w_disk w)(l := None) \<rparr>))))"

text \<open>An operating system that refuses nothing and reads all it can.\<close>

definition plain_io :: "'w io" where
  "plain_io = \<lparr> io_fault = (\<lambda>_ _ _. None), io_cwd = [], io_read_len = (\<lambda>_ _ n _. n) \<rparr>"

text \<open>Making directories never touches what is already on the disk.\<close>

lemma make_dirs_keeps:
  "make_dirs io cur cs w = (r, w') \<Longrightarrow>
   w_outer w' = w_outer w \<and>
   (\<forall>l. w_disk w' l = w_disk w l \<or> w_disk w l = None \<and> w_disk w' l = Some DirN)"
proof (induction io cur cs w rule: make_dirs.induct)
  case (5 io cur n cs w)
  show ?case
  proof (cases "w_disk w (cur @ [n])")
    case None
    show ?thesis
    proof (cases "io_fault io ''mkdir'' (cur @ [n]) (w_outer w)")
      case no: None
      let ?v = "w\<lparr> w_disk := (w_disk w)(cur @ [n] \<mapsto> DirN) \<rparr>"
      have "make_dirs io (cur @ [n]) cs ?v = (r, w')"
        using "5.prems" None no by (simp add: Let_def)
      then have ih: "w_outer w' = w_outer ?v \<and>
          (\<forall>l. w_disk w' l = w_disk ?v l \<or> w_disk ?v l = None \<and> w_disk w' l = Some DirN)"
        by (rule "5.IH"(1) [OF refl None no])
      show ?thesis
      proof (intro conjI allI)
        fix l
        show "w_disk w' l = w_disk w l \<or> w_disk w l = None \<and> w_disk w' l = Some DirN"
          using ih [THEN conjunct2, THEN spec, of l] None by (cases "l = cur @ [n]") auto
      qed (use ih in simp)
    next
      case (Some e)
      with 5 None show ?thesis by (simp add: Let_def)
    qed
  next
    case (Some x)
    with 5 show ?thesis by (cases x) (auto simp: Let_def)
  qed
qed auto

lemma create_dir_all_keeps:
  assumes "create_dir_all io p w = (r, w')"
  shows "w_outer w' = w_outer w"
    and "w_disk w l = Some x \<Longrightarrow> w_disk w' l = Some x"
    and "w_disk w' l = Some (FileN b) \<Longrightarrow> w_disk w l = Some (FileN b)"
  using make_dirs_keeps [OF assms [unfolded create_dir_all_def]] by (auto dest: spec [of _ l])

end
