(* ===== verification/Sync_Engine.thy ===== *)
theory Sync_Engine
  imports Sync_Queue Rust_Path
begin

text \<open>
  \<open>SyncEngine\<close> (\<open>engine.rs\<close>): the initial listing, the periodic refresh over a provider's
  change feed, and the execution of queued operations. The engine's \<open>Arc<SyncQueue>\<close> and
  the world (the disk and the provider's own state) are threaded through; the identifiers
  and the clock come from a state of their own. The \<open>CloudProvider\<close> trait is a record of
  the functions the code calls; a trait method may do anything to the world.
\<close>

section \<open>The provider interface and the engine's state\<close>

record 'w CloudProvider =
  cp_id :: string
  cp_display_name :: string
  cp_list_folder :: "CloudPath \<Rightarrow> ('w world, CloudItem list, CoreError) st"
  cp_get_changes :: "string option \<Rightarrow> ('w world, ChangeList, CoreError) st"
  cp_download :: "FileId \<Rightarrow> PathBuf \<Rightarrow> ('w world, unit, CoreError) st"

record 'w SyncEngine =
  eg_provider :: "'w CloudProvider"
  eg_account_id :: AccountId

record ('s, 'w) engine_state =
  es_queue :: SyncQueue
  es_sys :: 's
  es_world :: "'w world"

text \<open>A call on the world, inside the engine's state.\<close>

definition on_world :: "('w world, 'a, 'e) st \<Rightarrow> (('s, 'w) engine_state, 'a, 'e) st" where
  "on_world m st = (case m (es_world st) of (r, w) \<Rightarrow> (r, st\<lparr> es_world := w \<rparr>))"

definition push_new ::
  "('s \<Rightarrow> SyncOperation \<times> 's) \<Rightarrow> ('s, 'w) engine_state \<Rightarrow> ('s, 'w) engine_state" where
  "push_new mk st = (case mk (es_sys st) of (operation, s) \<Rightarrow>
     st\<lparr> es_queue := queue_push operation (es_queue st), es_sys := s \<rparr>)"

section \<open>The initial synchronisation\<close>

fun queue_items ::
  "'s sys \<Rightarrow> 'w SyncEngine \<Rightarrow> CloudItem list \<Rightarrow> nat \<Rightarrow> ('s, 'w) engine_state \<Rightarrow>
   nat \<times> ('s, 'w) engine_state" where
  "queue_items env eg [] queued_count st = (queued_count, st)"
| "queue_items env eg (item # items) queued_count st =
     (if ci_is_folder item then queue_items env eg items queued_count st
      else queue_items env eg items (queued_count + 1)
        (push_new (download_high_priority env (eg_account_id eg) (ci_id item) (ci_path item)
           (ci_size item)) st))"

definition initial_sync ::
  "'s sys \<Rightarrow> 'w SyncEngine \<Rightarrow> CloudPath \<Rightarrow> (('s, 'w) engine_state, nat, SyncError) st" where
  "initial_sync env eg provider_root =
     bindS (map_errS (\<lambda>e. SyncFailed (''Failed to list folder during initial sync: '' @ core_error_str e))
        (on_world (cp_list_folder (eg_provider eg) provider_root))) (\<lambda>items.
     bindS (\<lambda>st. case queue_items env eg items 0 st of (n, st') \<Rightarrow> (Ok n, st')) (\<lambda>queued_count.
     bindS (map_errS (\<lambda>e. SyncFailed (''Failed to get initial change token: '' @ core_error_str e))
        (on_world (cp_get_changes (eg_provider eg) None))) (\<lambda>change_list.
     returnS queued_count)))"

section \<open>The periodic refresh\<close>

fun queue_changes ::
  "'s sys \<Rightarrow> 'w SyncEngine \<Rightarrow> Change list \<Rightarrow> nat \<Rightarrow> ('s, 'w) engine_state \<Rightarrow>
   nat \<times> ('s, 'w) engine_state" where
  "queue_changes env eg [] total_queued st = (total_queued, st)"
| "queue_changes env eg (change # changes) total_queued st =
     (if ch_deleted change then queue_changes env eg changes total_queued st
      else case ch_item change of
        None \<Rightarrow> queue_changes env eg changes total_queued st
      | Some item \<Rightarrow>
          if ci_is_folder item then queue_changes env eg changes total_queued st
          else queue_changes env eg changes (total_queued + 1)
            (push_new (download_normal_priority env (eg_account_id eg) (ci_id item) (ci_path item)
               (ci_size item)) st))"

text \<open>The loop asks for page after page; a feed that never ends never returns, which is \<open>None\<close>.\<close>

partial_function (option) refresh_loop ::
  "'s sys \<Rightarrow> 'w SyncEngine \<Rightarrow> string option \<Rightarrow> nat \<Rightarrow> ('s, 'w) engine_state \<Rightarrow>
   ((nat \<times> string, SyncError) outcome \<times> ('s, 'w) engine_state) option" where
  "refresh_loop env eg current_cursor total_queued st =
     (case map_errS (\<lambda>e. SyncFailed (''Failed to get changes: '' @ core_error_str e))
             (on_world (cp_get_changes (eg_provider eg) current_cursor)) st of
        (Err e, st1) \<Rightarrow> Some (Err e, st1)
      | (Panicked, st1) \<Rightarrow> Some (Panicked, st1)
      | (Ok change_list, st1) \<Rightarrow>
          (case queue_changes env eg (cl_changes change_list) total_queued st1 of (n, st2) \<Rightarrow>
             if \<not> cl_has_more change_list then Some (Ok (n, cl_cursor change_list), st2)
             else refresh_loop env eg (Some (cl_cursor change_list)) n st2))"

definition refresh_sync ::
  "'s sys \<Rightarrow> 'w SyncEngine \<Rightarrow> string option \<Rightarrow> ('s, 'w) engine_state \<Rightarrow>
   ((nat \<times> string, SyncError) outcome \<times> ('s, 'w) engine_state) option" where
  "refresh_sync env eg cursor st = refresh_loop env eg cursor 0 st"

section \<open>Executing operations\<close>

definition download_target :: "PathBuf \<Rightarrow> SyncOperation \<Rightarrow> PathBuf" where
  "download_target local_root operation =
     (let relative_path = trim_start_matches slash (cloud_path_as_str (op_path operation))
      in path_join local_root relative_path)"

definition execute_download ::
  "'w io \<Rightarrow> 'w SyncEngine \<Rightarrow> SyncOperation \<Rightarrow> PathBuf \<Rightarrow> ('w world, unit, SyncError) st" where
  "execute_download io eg operation local_root =
     (let local_path = download_target local_root operation
      in bindS (case path_parent local_path of
             Some parent \<Rightarrow> map_errS (\<lambda>e. SyncFailed (''Failed to create directories: '' @ e))
               (create_dir_all io parent)
           | None \<Rightarrow> returnS ()) (\<lambda>_.
         bindS (map_errS (\<lambda>e. SyncFailed (''Provider download failed for ''
               @ file_id_str (op_file_id operation) @ '': '' @ core_error_str e))
             (cp_download (eg_provider eg) (op_file_id operation) local_path)) (\<lambda>_.
         returnS ())))"

function execute_loop ::
  "'w io \<Rightarrow> 'w SyncEngine \<Rightarrow> PathBuf \<Rightarrow> nat \<Rightarrow> nat \<Rightarrow> (('s, 'w) engine_state, nat, SyncError) st" where
  "execute_loop io eg local_root limit executed_count st =
     (if \<not> executed_count < limit then (Ok executed_count, st)
      else case queue_pop (es_queue st) of
        (Err QueueEmpty, q) \<Rightarrow> (Ok executed_count, st\<lparr> es_queue := q \<rparr>)
      | (Err e, q) \<Rightarrow> (Err (SyncFailed (''Failed to pop from queue: '' @ sync_error_str e)),
                       st\<lparr> es_queue := q \<rparr>)
      | (Panicked, q) \<Rightarrow> (Panicked, st\<lparr> es_queue := q \<rparr>)
      | (Ok operation, q) \<Rightarrow>
          (if op_type operation = Download then
             (case execute_download io eg operation local_root (es_world st) of
                (Ok _, w) \<Rightarrow> execute_loop io eg local_root limit (executed_count + 1)
                              (st\<lparr> es_queue := q, es_world := w \<rparr>)
              | (Err e, w) \<Rightarrow> execute_loop io eg local_root limit executed_count
                              (st\<lparr> es_queue := q, es_world := w \<rparr>)
              | (Panicked, w) \<Rightarrow> (Panicked, st\<lparr> es_queue := q, es_world := w \<rparr>))
           else execute_loop io eg local_root limit executed_count (st\<lparr> es_queue := q \<rparr>)))"
  by pat_completeness auto
termination
  by (relation "measure (\<lambda>(io, eg, root, limit, n, st). length (es_queue st))")
    (auto dest!: sym [of "(_, _)" "queue_pop _"] queue_pop_length)

declare execute_loop.simps [simp del]

text \<open>\<open>max_operations.unwrap_or(usize::MAX)\<close>.\<close>

definition execute_operations ::
  "'w io \<Rightarrow> 'w SyncEngine \<Rightarrow> PathBuf \<Rightarrow> nat option \<Rightarrow> (('s, 'w) engine_state, nat, SyncError) st" where
  "execute_operations io eg local_root max_operations =
     execute_loop io eg local_root (case max_operations of Some n \<Rightarrow> n | None \<Rightarrow> 2 ^ 64 - 1) 0"

section \<open>What gets queued\<close>

text \<open>The operation that downloads an item.\<close>

definition downloads_item :: "SyncPriority \<Rightarrow> AccountId \<Rightarrow> CloudItem \<Rightarrow> SyncOperation \<Rightarrow> bool" where
  "downloads_item prio acc item operation \<longleftrightarrow>
     op_type operation = Download \<and> op_priority operation = prio \<and> op_account_id operation = acc \<and>
     op_file_id operation = ci_id item \<and> op_path operation = ci_path item \<and>
     op_size operation = ci_size item"

text \<open>The changes that call for a download: those of files that still exist.\<close>

definition changed_file :: "Change \<Rightarrow> CloudItem option" where
  "changed_file change =
     (if ch_deleted change then None
      else case ch_item change of
        None \<Rightarrow> None | Some item \<Rightarrow> if ci_is_folder item then None else Some item)"

definition changed_files :: "Change list \<Rightarrow> CloudItem list" where
  "changed_files changes = List.map_filter changed_file changes"

definition push_all :: "SyncOperation list \<Rightarrow> SyncQueue \<Rightarrow> SyncQueue" where
  "push_all ops q = fold queue_push ops q"

lemma changed_files_simps [simp]:
  "changed_files [] = []"
  "changed_files (c # cs) = (case changed_file c of None \<Rightarrow> changed_files cs | Some i \<Rightarrow> i # changed_files cs)"
  "changed_files (cs @ ds) = changed_files cs @ changed_files ds"
  by (simp_all add: changed_files_def List.map_filter_def split: option.splits)

lemma push_all_simps [simp]:
  "push_all [] q = q" "push_all (x # xs) q = push_all xs (queue_push x q)"
  "push_all (xs @ ys) q = push_all ys (push_all xs q)"
  by (simp_all add: push_all_def)

lemma mset_push_all [simp]: "mset (push_all ops q) = mset ops + mset q"
  by (induction ops arbitrary: q) (simp_all add: queue_push_def)

lemma push_all_is_heap: "is_heap queued_cmp q \<Longrightarrow> is_heap queued_cmp (push_all ops q)"
  by (induction ops arbitrary: q) (simp_all add: queue_push_def queue_order.heap_push_is_heap)

lemma download_priority_item:
  "download_high_priority env acc (ci_id item) (ci_path item) (ci_size item) s = (x, s') \<Longrightarrow>
     downloads_item High acc item x"
  "download_normal_priority env acc (ci_id item) (ci_path item) (ci_size item) s = (x, s') \<Longrightarrow>
     downloads_item Normal acc item x"
  by (auto simp: download_high_priority_def download_normal_priority_def sync_operation_new_def
      downloads_item_def split: prod.splits)

lemma queue_items_spec:
  "\<exists>ops s'. queue_items env eg items n st =
       (n + length ops, st\<lparr> es_queue := push_all ops (es_queue st), es_sys := s' \<rparr>) \<and>
     list_all2 (downloads_item High (eg_account_id eg)) (filter (\<lambda>i. \<not> ci_is_folder i) items) ops"
proof (induction env eg items n st rule: queue_items.induct)
  case (1 env eg n st)
  show ?case by (intro exI [of _ "[]"] exI [of _ "es_sys st"]) simp
next
  case (2 env eg item items n st)
  show ?case
  proof (cases "ci_is_folder item")
    case True
    with 2 show ?thesis by simp
  next
    case False
    obtain x s1 where x: "download_high_priority env (eg_account_id eg) (ci_id item) (ci_path item)
        (ci_size item) (es_sys st) = (x, s1)" by fastforce
    from "2.IH"(2) [OF False] x obtain ops s' where
      "queue_items env eg items (n + 1) (st\<lparr> es_queue := queue_push x (es_queue st), es_sys := s1 \<rparr>) =
         (n + 1 + length ops, st\<lparr> es_queue := push_all ops (queue_push x (es_queue st)), es_sys := s' \<rparr>)"
      "list_all2 (downloads_item High (eg_account_id eg)) (filter (\<lambda>i. \<not> ci_is_folder i) items) ops"
      by (auto simp: push_new_def)
    then show ?thesis
      using False x download_priority_item(1) [OF x]
      by (intro exI [of _ "x # ops"] exI [of _ s']) (simp add: push_new_def)
  qed
qed

lemma queue_changes_spec:
  "\<exists>ops s'. queue_changes env eg changes n st =
       (n + length ops, st\<lparr> es_queue := push_all ops (es_queue st), es_sys := s' \<rparr>) \<and>
     list_all2 (downloads_item Normal (eg_account_id eg)) (changed_files changes) ops"
proof (induction changes arbitrary: n st)
  case Nil
  show ?case by (intro exI [of _ "[]"] exI [of _ "es_sys st"]) simp
next
  case (Cons change changes)
  show ?case
  proof (cases "changed_file change")
    case None
    then have "queue_changes env eg (change # changes) n st = queue_changes env eg changes n st"
      by (auto simp: changed_file_def split: if_splits option.splits)
    with None Cons.IH [of n st] show ?thesis by simp
  next
    case (Some item)
    obtain x s1 where x: "download_normal_priority env (eg_account_id eg) (ci_id item) (ci_path item)
        (ci_size item) (es_sys st) = (x, s1)" by fastforce
    have "queue_changes env eg (change # changes) n st = queue_changes env eg changes (n + 1)
        (st\<lparr> es_queue := queue_push x (es_queue st), es_sys := s1 \<rparr>)"
      using Some x by (auto simp: changed_file_def push_new_def split: if_splits option.splits)
    moreover obtain ops s' where
      "queue_changes env eg changes (n + 1) (st\<lparr> es_queue := queue_push x (es_queue st), es_sys := s1 \<rparr>) =
         (n + 1 + length ops, st\<lparr> es_queue := push_all ops (queue_push x (es_queue st)), es_sys := s' \<rparr>)"
      "list_all2 (downloads_item Normal (eg_account_id eg)) (changed_files changes) ops"
      using Cons.IH [of "n + 1" "st\<lparr> es_queue := queue_push x (es_queue st), es_sys := s1 \<rparr>"] by auto
    ultimately show ?thesis
      using Some download_priority_item(2) [OF x]
      by (intro exI [of _ "x # ops"] exI [of _ s']) simp
  qed
qed

section \<open>Following a change feed\<close>

text \<open>
  The pages a provider hands out from a cursor on, up to the first page without \<open>has_more\<close>
  or the first failure, and the cursor or the error it ends with.
\<close>

inductive change_feed ::
  "'w CloudProvider \<Rightarrow> string option \<Rightarrow> 'w world \<Rightarrow> ChangeList list \<Rightarrow> (string, CoreError) outcome \<Rightarrow>
   'w world \<Rightarrow> bool" for prov where
  last_page: "cp_get_changes prov cursor w = (Ok cl, w') \<Longrightarrow> \<not> cl_has_more cl \<Longrightarrow>
    change_feed prov cursor w [cl] (Ok (cl_cursor cl)) w'"
| next_page: "cp_get_changes prov cursor w = (Ok cl, w') \<Longrightarrow> cl_has_more cl \<Longrightarrow>
    change_feed prov (Some (cl_cursor cl)) w' pages r w'' \<Longrightarrow>
    change_feed prov cursor w (cl # pages) r w''"
| feed_error: "cp_get_changes prov cursor w = (Err e, w') \<Longrightarrow> change_feed prov cursor w [] (Err e) w'"
| feed_panic: "cp_get_changes prov cursor w = (Panicked, w') \<Longrightarrow> change_feed prov cursor w [] Panicked w'"

definition refresh_result :: "nat \<Rightarrow> (string, CoreError) outcome \<Rightarrow> (nat \<times> string, SyncError) outcome" where
  "refresh_result n r =
     map_err (\<lambda>e. SyncFailed (''Failed to get changes: '' @ core_error_str e)) (map_ok (\<lambda>c. (n, c)) r)"

lemma refresh_loop_feed:
  assumes "change_feed (eg_provider eg) cursor w pages r w'" and "es_world st = w"
  shows "\<exists>ops s'. refresh_loop env eg cursor n st =
       Some (refresh_result (n + length ops) r,
             st\<lparr> es_queue := push_all ops (es_queue st), es_sys := s', es_world := w' \<rparr>) \<and>
     list_all2 (downloads_item Normal (eg_account_id eg))
       (changed_files (concat (map cl_changes pages))) ops"
  using assms
proof (induction arbitrary: n st rule: change_feed.induct)
  case (last_page cursor w cl w')
  obtain ops s' where q: "queue_changes env eg (cl_changes cl) n (st\<lparr> es_world := w' \<rparr>) =
      (n + length ops, st\<lparr> es_world := w', es_queue := push_all ops (es_queue st), es_sys := s' \<rparr>)"
    "list_all2 (downloads_item Normal (eg_account_id eg)) (changed_files (cl_changes cl)) ops"
    using queue_changes_spec [of env eg "cl_changes cl" n "st\<lparr> es_world := w' \<rparr>"] by auto
  with last_page show ?case
    by (intro exI [of _ ops] exI [of _ s'])
      (simp add: refresh_loop.simps on_world_def map_errS_def refresh_result_def)
next
  case (next_page cursor w cl w' pages r w'')
  obtain ops s' where q: "queue_changes env eg (cl_changes cl) n (st\<lparr> es_world := w' \<rparr>) =
      (n + length ops, st\<lparr> es_world := w', es_queue := push_all ops (es_queue st), es_sys := s' \<rparr>)"
    "list_all2 (downloads_item Normal (eg_account_id eg)) (changed_files (cl_changes cl)) ops"
    using queue_changes_spec [of env eg "cl_changes cl" n "st\<lparr> es_world := w' \<rparr>"] by auto
  define st2 where "st2 = st\<lparr> es_world := w', es_queue := push_all ops (es_queue st), es_sys := s' \<rparr>"
  obtain ops' s'' where "refresh_loop env eg (Some (cl_cursor cl)) (n + length ops) st2 =
       Some (refresh_result (n + length ops + length ops') r,
             st2\<lparr> es_queue := push_all ops' (es_queue st2), es_sys := s'', es_world := w'' \<rparr>)"
     "list_all2 (downloads_item Normal (eg_account_id eg)) (changed_files (concat (map cl_changes pages))) ops'"
    using next_page.IH [of st2 "n + length ops"] by (auto simp: st2_def)
  with next_page.hyps next_page.prems q show ?case
    by (intro exI [of _ "ops @ ops'"] exI [of _ s''])
      (simp add: refresh_loop.simps [of _ _ cursor] on_world_def map_errS_def st2_def list_all2_appendI add.assoc)
next
  case (feed_error cursor w e w')
  then show ?case
    by (intro exI [of _ "[]"] exI [of _ "es_sys st"])
      (simp add: refresh_loop.simps on_world_def map_errS_def refresh_result_def)
next
  case (feed_panic cursor w w')
  then show ?case
    by (intro exI [of _ "[]"] exI [of _ "es_sys st"])
      (simp add: refresh_loop.simps on_world_def map_errS_def refresh_result_def)
qed

lemma refresh_loop_returns:
  "refresh_loop env eg cursor n st = Some y \<Longrightarrow>
   \<exists>pages r w'. change_feed (eg_provider eg) cursor (es_world st) pages r w'"
proof (induction rule: refresh_loop.raw_induct [rotated, consumes 1, case_names step])
  case (step rec env eg cursor n st y)
  obtain r w1 where g: "cp_get_changes (eg_provider eg) cursor (es_world st) = (r, w1)" by fastforce
  show ?case
  proof (cases r)
    case (Ok cl)
    show ?thesis
    proof (cases "cl_has_more cl")
      case True
      obtain ops s' where q: "queue_changes env eg (cl_changes cl) n (st\<lparr> es_world := w1 \<rparr>) =
          (n + length ops, st\<lparr> es_world := w1, es_queue := push_all ops (es_queue st), es_sys := s' \<rparr>)"
        using queue_changes_spec [of env eg "cl_changes cl" n "st\<lparr> es_world := w1 \<rparr>"] by auto
      then have "rec env eg (Some (cl_cursor cl)) (n + length ops)
          (st\<lparr> es_world := w1, es_queue := push_all ops (es_queue st), es_sys := s' \<rparr>) = Some y"
        using step.hyps g Ok True by (simp add: on_world_def map_errS_def)
      from step.IH [OF this] show ?thesis
        using change_feed.next_page [OF g [unfolded Ok] True] by (auto; blast)
    next
      case False
      then show ?thesis using change_feed.last_page g Ok by blast
    qed
  next
    case (Err e)
    with g show ?thesis using change_feed.feed_error by blast
  next
    case Panicked
    with g show ?thesis using change_feed.feed_panic by blast
  qed
qed

section \<open>Executing in order\<close>

text \<open>
  The reference behaviour of \<open>execute_operations\<close>: walk through a list, count the downloads
  that succeed, and stop with the rest of the list once the limit is reached.
\<close>

fun run_operations ::
  "'w io \<Rightarrow> 'w SyncEngine \<Rightarrow> PathBuf \<Rightarrow> nat \<Rightarrow> nat \<Rightarrow> SyncOperation list \<Rightarrow> 'w world \<Rightarrow>
   (nat, SyncError) outcome \<times> SyncOperation list \<times> 'w world" where
  "run_operations io eg root limit n [] w = (Ok n, [], w)"
| "run_operations io eg root limit n (x # xs) w =
     (if limit \<le> n then (Ok n, x # xs, w)
      else if op_type x = Download then
        (case execute_download io eg x root w of
           (Ok _, w') \<Rightarrow> run_operations io eg root limit (n + 1) xs w'
         | (Err _, w') \<Rightarrow> run_operations io eg root limit n xs w'
         | (Panicked, w') \<Rightarrow> (Panicked, xs, w'))
      else run_operations io eg root limit n xs w)"

lemma execute_loop_runs:
  assumes "pops (length (es_queue st)) (es_queue st) = (xs, [])"
    and "execute_loop io eg root limit n st = (r, st')"
  shows "\<exists>rest. run_operations io eg root limit n xs (es_world st) = (r, rest, es_world st') \<and>
    pops (length (es_queue st')) (es_queue st') = (rest, [])"
  using assms
proof (induction io eg root limit n st arbitrary: xs rule: execute_loop.induct)
  case (1 io eg root limit n st)
  note ex = "1.prems"(2) [unfolded execute_loop.simps [of io eg root limit n st]]
  obtain res q where pop: "queue_pop (es_queue st) = (res, q)" by fastforce
  show ?case
  proof (cases "limit \<le> n")
    case True
    with ex "1.prems"(1) show ?thesis by (cases xs) auto
  next
    case below: False
    show ?thesis
    proof (cases res)
      case (Err e)
      with pop have "e = QueueEmpty \<and> es_queue st = [] \<and> q = []" using queue_pop_Err by blast
      with ex below pop Err "1.prems"(1) show ?thesis by auto
    next
      case Panicked
      with pop show ?thesis by simp
    next
      case (Ok x)
      have len: "length (es_queue st) = Suc (length q)" using pop Ok queue_pop_length by blast
      from pop Ok have "heap_pop queued_cmp (es_queue st) = Some (x, q)" by (simp add: queue_pop_Ok)
      with "1.prems"(1) len obtain ys where ys: "pops (length q) q = (ys, [])" "xs = x # ys"
        by (auto split: prod.splits)
      note IH = "1.IH" [OF _ pop [symmetric] Ok]
      show ?thesis
      proof (cases "op_type x = Download")
        case True
        obtain rd w where d: "execute_download io eg x root (es_world st) = (rd, w)" by fastforce
        show ?thesis
        proof (cases rd)
          case (Ok u)
          show ?thesis
            using IH(1) [OF _ True d [symmetric] Ok, of ys] ex below pop True d Ok \<open>res = Ok x\<close> ys by auto
        next
          case (Err e)
          show ?thesis
            using IH(2) [OF _ True d [symmetric] Err, of ys] ex below pop True d Err \<open>res = Ok x\<close> ys by auto
        next
          case Panicked
          show ?thesis using ex below pop True d Panicked \<open>res = Ok x\<close> ys by auto
        qed
      next
        case False
        then show ?thesis using IH(3) [OF _ False, of ys] ex below pop \<open>res = Ok x\<close> ys by auto
      qed
    qed
  qed
qed

lemma run_operations_result:
  "run_operations io eg root limit n xs w = (r, rest, w') \<Longrightarrow>
   (\<exists>done. xs = done @ rest) \<and>
   (case r of
      Ok m \<Rightarrow> n \<le> m \<and> m \<le> n + length (filter (\<lambda>x. op_type x = Download) xs) \<and>
        (rest = [] \<or> limit \<le> m) \<and> (n \<le> limit \<longrightarrow> m \<le> limit)
    | Err e \<Rightarrow> False
    | Panicked \<Rightarrow> \<exists>x \<in> set xs. \<exists>w. fst (execute_download io eg x root w) = Panicked)"
proof (induction io eg root limit n xs w rule: run_operations.induct)
  case (2 io eg root limit n x xs w)
  show ?case
  proof (cases "limit \<le> n")
    case True
    with "2.prems" show ?thesis by auto
  next
    case False
    then show ?thesis
      using 2
      by (auto split: if_splits prod.splits outcome.splits intro: exI [of _ "x # _"])
        (metis fst_conv)+
  qed
qed auto

section \<open>Where downloads go\<close>

lemma pieces_trim_start:
  "piece_components (split_char slash (trim_start_matches slash s)) = piece_components (split_char slash s)"
  by (induction s) (auto simp: trim_start_matches_def)

lemma download_target_components:
  assumes "local_root \<noteq> []"
  shows "path_components (download_target local_root operation) =
    path_components local_root @ piece_components (split_char slash (cloud_path_as_str (op_path operation)))"
proof -
  have "\<not> path_is_absolute (trim_start_matches slash s)" for s
    using trim_start_no_prefix [of slash s] by (auto simp: path_is_absolute_iff)
  then show ?thesis
    using assms by (simp add: download_target_def path_components_join pieces_trim_start)
qed

section \<open>Properties\<close>

text \<open>
  A provider that offers two files and a folder over two pages of changes, and a system
  clock that advances by one second, for the concrete instances.
\<close>

definition sample_item :: "nat \<Rightarrow> bool \<Rightarrow> string \<Rightarrow> CloudItem" where
  "sample_item n folder path = \<lparr> ci_id = FileId (show_nat n), ci_name = path,
     ci_path = cloud_path_new path, ci_is_folder = folder, ci_size = Some 5, ci_content_hash = None,
     ci_modified = 0, ci_created = None, ci_mime_type = None \<rparr>"

definition sample_change :: "CloudItem \<Rightarrow> Change" where
  "sample_change item = \<lparr> ch_item = Some item, ch_file_id = ci_id item, ch_deleted = False,
     ch_timestamp = 0 \<rparr>"

definition sample_page :: "bool \<Rightarrow> ChangeList" where
  "sample_page lastp =
     (if lastp then \<lparr> cl_changes = [sample_change (sample_item 3 False ''/b'')], cl_cursor = ''3'',
                     cl_has_more = False \<rparr>
      else \<lparr> cl_changes = [sample_change (sample_item 1 False ''/a''), sample_change (sample_item 2 True ''/d'')],
             cl_cursor = ''2'', cl_has_more = True \<rparr>)"

definition sample_provider :: "unit CloudProvider" where
  "sample_provider = \<lparr> cp_id = ''gdrive'', cp_display_name = ''Google Drive'',
     cp_list_folder = (\<lambda>p w. (Ok [sample_item 1 False ''/a'', sample_item 2 True ''/d''], w)),
     cp_get_changes = (\<lambda>c w. (Ok (sample_page (c = Some ''2'')), w)),
     cp_download = (\<lambda>i p w. (Ok (), w)) \<rparr>"

definition sample_sys :: "nat sys" where
  "sample_sys = \<lparr> new_v4 = (\<lambda>n. (show_nat n, n)), utc_now = (\<lambda>n. (int n * 1000000000, n + 1)) \<rparr>"

definition sample_engine :: "unit SyncEngine" where
  "sample_engine = \<lparr> eg_provider = sample_provider, eg_account_id = AccountId ''acc'' \<rparr>"

definition sample_state :: "SyncQueue \<Rightarrow> (nat, unit) engine_state" where
  "sample_state q = \<lparr> es_queue = q, es_sys = 0, es_world = \<lparr> w_disk = Map.empty, w_outer = () \<rparr> \<rparr>"

lemma sample_feed:
  "change_feed (eg_provider sample_engine) None w [sample_page False, sample_page True] (Ok ''3'') w"
proof (rule change_feed.next_page)
  have "change_feed (eg_provider sample_engine) (Some ''2'') w [sample_page True] (Ok (cl_cursor (sample_page True))) w"
    by (rule change_feed.last_page) (simp_all add: sample_provider_def sample_engine_def sample_page_def)
  then show "change_feed (eg_provider sample_engine) (Some (cl_cursor (sample_page False))) w
      [sample_page True] (Ok ''3'') w"
    by (simp add: sample_page_def)
qed (simp_all add: sample_provider_def sample_engine_def sample_page_def)

text \<open>
  C15: When the change feed ends, with its last page or with an error, \<open>refresh_sync\<close>
  returns; it has queued exactly one normal-priority download for each change of a file that
  is neither deleted nor a folder, in feed order, over all pages read so far, and it reports
  their number and the cursor of the last page, or the error.
\<close>

theorem refresh_sync_follows_feed:
  assumes "change_feed (eg_provider eg) cursor (es_world st) pages r w'"
  shows "\<exists>ops s'. refresh_sync env eg cursor st =
       Some (refresh_result (length ops) r,
             st\<lparr> es_queue := push_all ops (es_queue st), es_sys := s', es_world := w' \<rparr>) \<and>
     list_all2 (downloads_item Normal (eg_account_id eg))
       (changed_files (concat (map cl_changes pages))) ops"
  using refresh_loop_feed [OF assms refl, of env 0] by (simp add: refresh_sync_def)

theorem refresh_sync_follows_feed_witness:
  "\<exists>ops s'. refresh_sync sample_sys sample_engine None (sample_state []) =
       Some (Ok (length ops, ''3''), (sample_state [])\<lparr> es_queue := push_all ops [], es_sys := s' \<rparr>) \<and>
     list_all2 (downloads_item Normal (AccountId ''acc''))
       [sample_item 1 False ''/a'', sample_item 3 False ''/b''] ops"
proof -
  have files: "changed_files (concat (map cl_changes [sample_page False, sample_page True]))
      = [sample_item 1 False ''/a'', sample_item 3 False ''/b'']"
    by (simp add: sample_page_def sample_change_def changed_file_def sample_item_def)
  have eq: "(sample_state [])\<lparr> es_queue := q, es_sys := s, es_world := es_world (sample_state []) \<rparr>
      = (sample_state [])\<lparr> es_queue := q, es_sys := s \<rparr>" for q s
    by (simp add: sample_state_def)
  show ?thesis
    using refresh_sync_follows_feed [OF sample_feed [of "es_world (sample_state [])"], of sample_sys]
    unfolding files eq by (simp add: sample_engine_def refresh_result_def sample_state_def)
qed

text \<open>
  C31: \<open>refresh_sync\<close> returns exactly when the provider's change feed ends: it loops forever
  on a provider that always reports more changes, and on no other.
\<close>

theorem refresh_sync_terminates_iff:
  "(\<exists>result. refresh_sync env eg cursor st = Some result) \<longleftrightarrow>
   (\<exists>pages r w'. change_feed (eg_provider eg) cursor (es_world st) pages r w')"
proof
  assume "\<exists>result. refresh_sync env eg cursor st = Some result"
  then show "\<exists>pages r w'. change_feed (eg_provider eg) cursor (es_world st) pages r w'"
    unfolding refresh_sync_def using refresh_loop_returns by blast
next
  assume "\<exists>pages r w'. change_feed (eg_provider eg) cursor (es_world st) pages r w'"
  then show "\<exists>result. refresh_sync env eg cursor st = Some result"
    unfolding refresh_sync_def using refresh_loop_feed [OF _ refl] by blast
qed

text \<open>
  C6: \<open>execute_operations\<close> always comes to an end, never with an error, and panics only if a
  download does. It does what walking through the waiting operations in the order in which
  \<open>pop\<close> serves them does: each download is tried once, a failed one is skipped, and it stops
  once the limit of successful downloads is reached, leaving exactly the rest of that order
  in the queue. At every position this order has the priority and creation time that \<open>list\<close>
  shows there, and it is the order of \<open>list\<close> itself when no two operations tie on both; when
  they tie, it need not be.
\<close>

theorem execute_operations_refines:
  assumes "queue_history P T D (es_queue st)"
  shows "\<exists>order r st' rest executed. pop_n (heap_pop queued_cmp) (queue_len (es_queue st)) (es_queue st) = (order, []) \<and>
    mset order = mset (es_queue st) \<and>
    map (\<lambda>x. (op_priority x, op_created_at x)) order = map (\<lambda>x. (op_priority x, op_created_at x)) (queue_list (es_queue st)) \<and>
    (no_ties (es_queue st) \<longrightarrow> order = queue_list (es_queue st)) \<and>
    execute_operations io eg root max_ops st = (r, st') \<and>
    run_operations io eg root (case max_ops of Some n \<Rightarrow> n | None \<Rightarrow> 2 ^ 64 - 1) 0 order (es_world st) = (r, rest, es_world st') \<and>
    order = executed @ rest \<and> pop_n (heap_pop queued_cmp) (queue_len (es_queue st')) (es_queue st') = (rest, []) \<and>
    mset (es_queue st') = mset rest \<and>
    (case r of
       Ok n \<Rightarrow> n \<le> length (filter (\<lambda>x. op_type x = Download) order) \<and>
         (rest = [] \<or> n = (case max_ops of Some k \<Rightarrow> k | None \<Rightarrow> 2 ^ 64 - 1))
     | Err e \<Rightarrow> False
     | Panicked \<Rightarrow> \<exists>x \<in> set order. \<exists>w. fst (execute_download io eg x root w) = Panicked)"
proof -
  have heap: "is_heap queued_cmp (es_queue st)" using queue_history_inv [OF assms] by simp
  obtain r st' where ex: "execute_operations io eg root max_ops st = (r, st')" by fastforce
  obtain order q where order: "pops (length (es_queue st)) (es_queue st) = (order, q)" by fastforce
  note keys = pops_all_keys [OF heap order]
  from execute_loop_runs [OF order [unfolded keys(1)] ex [unfolded execute_operations_def]]
  obtain rest where rest: "run_operations io eg root (case max_ops of Some n \<Rightarrow> n | None \<Rightarrow> 2 ^ 64 - 1) 0
      order (es_world st) = (r, rest, es_world st')"
    "pops (length (es_queue st')) (es_queue st') = (rest, [])"
    by (auto split: option.splits)
  have "mset (es_queue st') = mset rest" using queue_order.hq.pop_n_contents [OF rest(2)] by simp
  moreover have "no_ties (es_queue st) \<Longrightarrow> order = queue_list (es_queue st)"
    using pops_all_eq_list [OF heap] order by simp
  moreover obtain executed where "order = executed @ rest" using run_operations_result [OF rest(1)] by blast
  ultimately show ?thesis
    using ex order rest keys run_operations_result [OF rest(1)]
    by (intro exI [of _ order] exI [of _ r] exI [of _ st'] exI [of _ rest] exI [of _ executed])
      (auto simp: queue_len_def split: outcome.splits dest: le_antisym)
qed

text \<open>Two of four operations that tie are executed: the first and the third of the list.\<close>

theorem execute_operations_refines_witness:
  "queue_list tied_queue = map (\<lambda>n. sample_op n High 10) [1, 2, 3, 4] \<and>
   (\<exists>st'. execute_operations plain_io sample_engine ''/sync'' (Some 2) (sample_state tied_queue) = (Ok 2, st') \<and>
     mset (es_queue st') = {# sample_op 2 High 10, sample_op 4 High 10 #})"
proof -
  let ?run = "run_operations plain_io sample_engine ''/sync'' 2 0
      [sample_op 1 High 10, sample_op 3 High 10, sample_op 2 High 10, sample_op 4 High 10] \<lparr> w_disk = Map.empty, w_outer = () \<rparr>"
  have run: "fst ?run = Ok 2" "fst (snd ?run) = [sample_op 2 High 10, sample_op 4 High 10]" by code_simp+
  let ?st = "sample_state tied_queue"
  have "queue_history {#sample_op 4 High 10, sample_op 3 High 10, sample_op 2 High 10, sample_op 1 High 10#} {#} {#} (es_queue ?st)"
    using tied_queue_history by (simp add: sample_state_def)
  from execute_operations_refines [OF this, of plain_io sample_engine "''/sync''" "Some 2"]
  obtain order r st' rest where ex: "pops (queue_len (es_queue ?st)) (es_queue ?st) = (order, [])"
    "execute_operations plain_io sample_engine ''/sync'' (Some 2) ?st = (r, st')"
    "run_operations plain_io sample_engine ''/sync'' 2 0 order (es_world ?st) = (r, rest, es_world st')"
    "mset (es_queue st') = mset rest" by (simp only: option.case) blast
  have "order = [sample_op 1 High 10, sample_op 3 High 10, sample_op 2 High 10, sample_op 4 High 10]"
    using ex(1) tied_queue_pops by (simp add: sample_state_def queue_len_def)
  then have "?run = (r, rest, es_world st')" using ex(3) by (simp add: sample_state_def)
  then have "r = Ok 2" "rest = [sample_op 2 High 10, sample_op 4 High 10]" using run by (metis fst_conv snd_conv)+
  then show ?thesis using ex(2,4) tied_queue_list by simp
qed

text \<open>
  C32: \<open>initial_sync\<close> queues exactly one high-priority download per listed file, none for
  folders, before it asks for the change token; when that last call fails the operations
  stay queued although an error is reported.
\<close>

theorem initial_sync_queues_files:
  assumes "cp_list_folder (eg_provider eg) root (es_world st) = (Ok items, w1)"
    and "cp_get_changes (eg_provider eg) None w1 = (token, w2)"
  shows "\<exists>ops s'. initial_sync env eg root st =
      (map_err (\<lambda>e. SyncFailed (''Failed to get initial change token: '' @ core_error_str e))
         (map_ok (\<lambda>_. length ops) token),
       st\<lparr> es_queue := push_all ops (es_queue st), es_sys := s', es_world := w2 \<rparr>) \<and>
    list_all2 (downloads_item High (eg_account_id eg)) (filter (\<lambda>i. \<not> ci_is_folder i) items) ops"
proof -
  obtain ops s' where "queue_items env eg items 0 (st\<lparr> es_world := w1 \<rparr>) =
      (length ops, st\<lparr> es_world := w1, es_queue := push_all ops (es_queue st), es_sys := s' \<rparr>)"
    "list_all2 (downloads_item High (eg_account_id eg)) (filter (\<lambda>i. \<not> ci_is_folder i) items) ops"
    using queue_items_spec [of env eg items 0 "st\<lparr> es_world := w1 \<rparr>"] by auto
  then show ?thesis
    using assms
    by (intro exI [of _ ops] exI [of _ s'], cases token)
      (simp_all add: initial_sync_def st_defs on_world_def)
qed

theorem initial_sync_queues_files_witness:
  "\<exists>ops s'. initial_sync sample_sys sample_engine cloud_path_root (sample_state []) =
      (Ok (length ops), (sample_state [])\<lparr> es_queue := push_all ops [], es_sys := s' \<rparr>) \<and>
    list_all2 (downloads_item High (AccountId ''acc'')) [sample_item 1 False ''/a''] ops"
  using initial_sync_queues_files [of sample_engine cloud_path_root "sample_state []" _ _ _ _ sample_sys]
  by (fastforce simp: sample_engine_def sample_provider_def sample_state_def sample_item_def)

text \<open>
  C38: A download is written below the local root when the cloud path has no \<open>..\<close> component:
  the target's components are those of the root followed by the plain names of the path.
\<close>

theorem download_target_below_root:
  assumes "local_root \<noteq> []" and "''..'' \<notin> set (split_char slash (cloud_path_as_str (op_path operation)))"
  shows "\<exists>names. path_components (download_target local_root operation) =
    path_components local_root @ map NormalC names \<and> (\<forall>n \<in> set names. plain_name n)"
proof -
  define ps where "ps = split_char slash (cloud_path_as_str (op_path operation))"
  define names where "names = filter (\<lambda>p. p \<noteq> [] \<and> p \<noteq> ''.'') ps"
  have "piece_components ps = map NormalC names"
    using assms(2) by (auto simp: piece_components_def names_def ps_def)
  moreover have "\<forall>n \<in> set names. plain_name n"
    using assms(2) split_char_piece by (fastforce simp: names_def ps_def plain_name_def)
  ultimately show ?thesis
    using download_target_components [OF assms(1), of operation] by (auto simp: ps_def)
qed

theorem download_target_below_root_witness:
  "\<exists>names. path_components (download_target ''/sync'' ((sample_op 1 High 0)\<lparr> op_path := cloud_path_new ''a/b'' \<rparr>))
     = path_components ''/sync'' @ map NormalC names \<and> (\<forall>n \<in> set names. plain_name n)"
  by (rule download_target_below_root)
    (simp_all add: cloud_path_new_def starts_with_def replace_char_def)

end
