(* ===== verification/Db_Schema.thy ===== *)
theory Db_Schema
  imports Core_Types
begin

text \<open>
  The tables of \<open>cloudsync-db\<close> as the SQL text of its migrations declares them, the rows and
  the constraints (\<open>PRIMARY KEY\<close>, \<open>UNIQUE\<close>, \<open>CHECK\<close>, \<open>FOREIGN KEY .. ON DELETE CASCADE\<close>,
  \<open>AUTOINCREMENT\<close>), the errors of \<open>error.rs\<close>, and what executing a statement does. SQLite
  itself is a parameter in two respects: a statement may fail for reasons of its own, leaving
  the data as it was, and a query without a full \<open>ORDER BY\<close> visits the rows in an order the
  engine chooses.
\<close>

section \<open>Errors\<close>

datatype SqlError = ConstraintViolation string | QueryReturnedNoRows | InvalidQuery | SqlOther string

datatype DbError =
    DbNotFound string
  | DbConflict string
  | DbQuery string
  | DbSqlite SqlError
  | DbMigration string

fun sql_error_str :: "SqlError \<Rightarrow> string" where
  "sql_error_str (ConstraintViolation m) = m"
| "sql_error_str QueryReturnedNoRows = ''Query returned no rows''"
| "sql_error_str InvalidQuery = ''Query is not read-only''"
| "sql_error_str (SqlOther m) = m"

fun db_error_str :: "DbError \<Rightarrow> string" where
  "db_error_str (DbNotFound m) = ''Database not found: '' @ m"
| "db_error_str (DbConflict m) = ''Conflict: '' @ m"
| "db_error_str (DbQuery m) = ''Query failed: '' @ m"
| "db_error_str (DbSqlite e) = ''SQLite error: '' @ sql_error_str e"
| "db_error_str (DbMigration m) = ''Migration failed: '' @ m"

section \<open>Tables\<close>

record account_row =
  ar_id :: string
  ar_provider :: string
  ar_email :: string
  ar_access_token :: string
  ar_refresh_token :: "string option"
  ar_token_expires_at :: "int option"
  ar_is_active :: int
  ar_created_at :: int
  ar_updated_at :: int

record file_row =
  fr_id :: int
  fr_account_id :: string
  fr_provider_file_id :: string
  fr_path :: string
  fr_name :: string
  fr_size :: "int option"
  fr_content_hash :: "string option"
  fr_is_folder :: int
  fr_state :: string
  fr_modified_at :: int
  fr_synced_at :: "int option"
  fr_created_at :: int
  fr_updated_at :: int

record inode_row =
  ir_inode :: int
  ir_file_id :: string
  ir_created_at :: int

record cursor_row =
  cr_account_id :: string
  cr_cursor :: string
  cr_updated_at :: int

text \<open>
  \<open>db_files_seq\<close> is the row of \<open>sqlite_sequence\<close> for \<open>files\<close>, the largest identifier ever
  given out; \<open>db_schema\<close> lists the batches of statements that built the schema.
\<close>

record database =
  db_accounts :: "account_row list"
  db_files :: "file_row list"
  db_files_seq :: int
  db_inodes :: "inode_row list"
  db_cursors :: "cursor_row list"
  db_user_version :: int
  db_schema :: "string list"

definition empty_db :: database where
  "empty_db = \<lparr> db_accounts = [], db_files = [], db_files_seq = 0, db_inodes = [], db_cursors = [],
     db_user_version = 0, db_schema = [] \<rparr>"

section \<open>Constraints\<close>

text \<open>\<open>CHECK(provider IN ..)\<close> and \<open>CHECK(state IN ..)\<close>.\<close>

definition provider_check :: "string \<Rightarrow> bool" where
  "provider_check p \<longleftrightarrow> p \<in> set [''googledrive'', ''dropbox'', ''onedrive'']"

definition state_check :: "string \<Rightarrow> bool" where
  "state_check s \<longleftrightarrow> s \<in> set [''synced'', ''cloud_only'', ''syncing'', ''pending'',
     ''error'', ''excluded'', ''offline_modified'', ''conflict'']"

text \<open>Whether a new version of a row may stand beside the other rows.\<close>

definition account_fits :: "account_row \<Rightarrow> account_row list \<Rightarrow> bool" where
  "account_fits row others \<longleftrightarrow> provider_check (ar_provider row) \<and>
     ar_id row \<notin> ar_id ` set others \<and>
     (ar_provider row, ar_email row) \<notin> (\<lambda>r. (ar_provider r, ar_email r)) ` set others"

definition file_fits :: "file_row \<Rightarrow> file_row list \<Rightarrow> bool" where
  "file_fits row others \<longleftrightarrow> state_check (fr_state row) \<and>
     fr_id row \<notin> fr_id ` set others \<and>
     (fr_account_id row, fr_provider_file_id row) \<notin>
       (\<lambda>r. (fr_account_id r, fr_provider_file_id r)) ` set others"

definition inode_fits :: "inode_row \<Rightarrow> inode_row list \<Rightarrow> bool" where
  "inode_fits row others \<longleftrightarrow>
     ir_inode row \<notin> ir_inode ` set others \<and> ir_file_id row \<notin> ir_file_id ` set others"

text \<open>\<open>FOREIGN KEY(account_id) REFERENCES accounts(id)\<close>.\<close>

definition account_exists :: "string \<Rightarrow> database \<Rightarrow> bool" where
  "account_exists i d \<longleftrightarrow> i \<in> ar_id ` set (db_accounts d)"

text \<open>The constraints of the whole database.\<close>

definition db_ok :: "database \<Rightarrow> bool" where
  "db_ok d \<longleftrightarrow>
     distinct (map ar_id (db_accounts d)) \<and>
     distinct (map (\<lambda>r. (ar_provider r, ar_email r)) (db_accounts d)) \<and>
     (\<forall>r \<in> set (db_accounts d). provider_check (ar_provider r)) \<and>
     distinct (map fr_id (db_files d)) \<and>
     distinct (map (\<lambda>r. (fr_account_id r, fr_provider_file_id r)) (db_files d)) \<and>
     (\<forall>r \<in> set (db_files d). state_check (fr_state r) \<and> account_exists (fr_account_id r) d \<and>
        0 < fr_id r \<and> fr_id r \<le> db_files_seq d) \<and> 0 \<le> db_files_seq d \<and> db_files_seq d < 2 ^ 63 \<and>
     distinct (map ir_inode (db_inodes d)) \<and> distinct (map ir_file_id (db_inodes d)) \<and>
     distinct (map cr_account_id (db_cursors d)) \<and>
     (\<forall>r \<in> set (db_cursors d). account_exists (cr_account_id r) d)"

section \<open>Connections\<close>

text \<open>
  \<open>sq_fault\<close> makes a statement fail; \<open>sq_scan_accounts\<close> and \<open>sq_scan_files\<close> give the order in
  which a query visits the rows; \<open>sq_batch\<close> executes the text of a migration.
\<close>

record sqlite =
  sq_fault :: "string \<Rightarrow> database \<Rightarrow> string option"
  sq_scan_accounts :: "string \<Rightarrow> account_row list \<Rightarrow> account_row list"
  sq_scan_files :: "string \<Rightarrow> file_row list \<Rightarrow> file_row list"
  sq_batch :: "string \<Rightarrow> database \<Rightarrow> string + database"

record 's db_env =
  de_sys :: "'s sys"
  de_chrono :: chrono
  de_sql :: sqlite

text \<open>
  An open connection: the data, the settings that \<open>connection.rs\<close> makes on it, and the state
  of the clock.
\<close>

record 's conn =
  cn_db :: database
  cn_foreign_keys :: bool
  cn_read_only :: bool
  cn_cache_size :: int
  cn_wal :: bool
  cn_sys :: 's

text \<open>What SQLite documents, as far as the code relies on it.\<close>

definition no_faults :: "sqlite \<Rightarrow> bool" where
  "no_faults sq \<longleftrightarrow> (\<forall>stmt d. sq_fault sq stmt d = None)"

definition scans_rows :: "sqlite \<Rightarrow> bool" where
  "scans_rows sq \<longleftrightarrow> (\<forall>q rows. mset (sq_scan_accounts sq q rows) = mset rows) \<and>
     (\<forall>q rows. mset (sq_scan_files sq q rows) = mset rows)"

text \<open>A fault-free engine that visits rows in insertion order.\<close>

definition plain_sqlite :: sqlite where
  "plain_sqlite = \<lparr> sq_fault = (\<lambda>_ _. None), sq_scan_accounts = (\<lambda>_ rows. rows),
     sq_scan_files = (\<lambda>_ rows. rows), sq_batch = (\<lambda>sql d. Inr (d\<lparr> db_schema := db_schema d @ [sql] \<rparr>)) \<rparr>"

lemma plain_sqlite_ok [simp]: "no_faults plain_sqlite" "scans_rows plain_sqlite"
  by (simp_all add: no_faults_def scans_rows_def plain_sqlite_def)

section \<open>Statements\<close>

text \<open>
  \<open>Connection::execute\<close>: \<open>f\<close> is what the statement does to the data, with the number it
  returns, or the error it meets; a failing statement changes nothing.
\<close>

definition sql_execute ::
  "'s db_env \<Rightarrow> string \<Rightarrow> (bool \<Rightarrow> database \<Rightarrow> SqlError + 'a \<times> database) \<Rightarrow> ('s conn, 'a, SqlError) st" where
  "sql_execute env stmt f c =
     (case sq_fault (de_sql env) stmt (cn_db c) of
        Some e \<Rightarrow> (Err (SqlOther e), c)
      | None \<Rightarrow> if cn_read_only c then (Err (SqlOther ''attempt to write a readonly database''), c)
          else (case f (cn_foreign_keys c) (cn_db c) of
          Inl e \<Rightarrow> (Err e, c)
        | Inr (n, d) \<Rightarrow> (Ok n, c\<lparr> cn_db := d \<rparr>)))"

text \<open>\<open>Connection::query_row\<close> on the rows the query selects, in the order it visits them.\<close>

definition sql_query_row ::
  "'s db_env \<Rightarrow> string \<Rightarrow> (database \<Rightarrow> 'r list) \<Rightarrow> ('r \<Rightarrow> ('a, SqlError) outcome) \<Rightarrow> ('s conn, 'a, SqlError) st" where
  "sql_query_row env stmt select from_row c =
     (case sq_fault (de_sql env) stmt (cn_db c) of
        Some e \<Rightarrow> (Err (SqlOther e), c)
      | None \<Rightarrow> (case select (cn_db c) of
          [] \<Rightarrow> (Err QueryReturnedNoRows, c)
        | row # _ \<Rightarrow> (from_row row, c)))"

text \<open>\<open>prepare\<close>, \<open>query_map\<close> and \<open>collect\<close>.\<close>

definition sql_query_map ::
  "'s db_env \<Rightarrow> string \<Rightarrow> (database \<Rightarrow> 'r list) \<Rightarrow> ('r \<Rightarrow> ('a, SqlError) outcome) \<Rightarrow>
   ('s conn, 'a list, SqlError) st" where
  "sql_query_map env stmt select from_row c =
     (case sq_fault (de_sql env) stmt (cn_db c) of
        Some e \<Rightarrow> (Err (SqlOther e), c)
      | None \<Rightarrow> (collect_ok from_row (select (cn_db c)), c))"

text \<open>\<open>.map(Some).or_else(..)\<close>: no row is not an error.\<close>

definition optional_row :: "('s conn, 'a, SqlError) st \<Rightarrow> ('s conn, 'a option, DbError) st" where
  "optional_row m c = (case m c of
     (Ok x, c') \<Rightarrow> (Ok (Some x), c')
   | (Err QueryReturnedNoRows, c') \<Rightarrow> (Ok None, c')
   | (Err e, c') \<Rightarrow> (Err (DbSqlite e), c')
   | (Panicked, c') \<Rightarrow> (Panicked, c'))"

text \<open>\<open>map_err\<close> of the insertions: a violated constraint becomes a \<open>Conflict\<close>.\<close>

definition conflict_or :: "string \<Rightarrow> SqlError \<Rightarrow> DbError" where
  "conflict_or msg e = (case e of ConstraintViolation _ \<Rightarrow> DbConflict msg | _ \<Rightarrow> DbSqlite e)"

text \<open>\<open>Utc::now()\<close> on a connection's clock.\<close>

definition now_st :: "'s db_env \<Rightarrow> ('s conn, datetime, 'e) st" where
  "now_st env c = (case utc_now (de_sys env) (cn_sys c) of (t, s) \<Rightarrow> (Ok t, c\<lparr> cn_sys := s \<rparr>))"

section \<open>What every statement keeps\<close>

definition conn_ok :: "'s conn \<Rightarrow> bool" where
  "conn_ok c \<longleftrightarrow> cn_foreign_keys c \<and> \<not> cn_read_only c \<and> db_ok (cn_db c)"

lemma preserves_sql_execute [preserve_intros]:
  fixes env :: "'s db_env"
  assumes "\<And>fk d n d'. fk \<Longrightarrow> db_ok d \<Longrightarrow> f fk d = Inr (n, d') \<Longrightarrow> db_ok d'"
  shows "preserves conn_ok (sql_execute env stmt f)"
proof (rule preservesI)
  fix c :: "'s conn" assume "conn_ok c"
  then show "conn_ok (snd (sql_execute env stmt f c))"
    using assms [of "cn_foreign_keys c" "cn_db c"]
    by (cases "f (cn_foreign_keys c) (cn_db c)")
      (auto simp: sql_execute_def conn_ok_def split: option.splits)
qed

lemma sql_query_row_state [simp]: "snd (sql_query_row env stmt select from_row c) = c"
  by (simp add: sql_query_row_def split: option.splits list.splits)

lemma sql_query_map_state [simp]: "snd (sql_query_map env stmt select from_row c) = c"
  by (simp add: sql_query_map_def split: option.splits)

lemma optional_row_state [simp]: "snd (optional_row m c) = snd (m c)"
  by (auto simp: optional_row_def split: prod.splits outcome.splits SqlError.splits)

lemma preserves_queries [preserve_intros]:
  "preserves P (sql_query_row env stmt select from_row)"
  "preserves P (sql_query_map env stmt select' from_row')"
  "preserves P m \<Longrightarrow> preserves P (optional_row m)"
  by (simp_all add: preserves_def)

lemma preserves_now [preserve_intros]: "preserves conn_ok (now_st env)"
  by (auto simp: preserves_def now_st_def conn_ok_def split: prod.splits)

lemma now_st_app: "now_st env c = (Ok (fst (utc_now (de_sys env) (cn_sys c))),
    c\<lparr> cn_sys := snd (utc_now (de_sys env) (cn_sys c)) \<rparr>)"
  by (simp add: now_st_def split: prod.splits)

section \<open>Rows found by a unique key\<close>

lemma filter_unique_perm:
  assumes "distinct (map kf rows)" and "mset rows' = mset rows"
  shows "filter (\<lambda>r. kf r = k) rows' = filter (\<lambda>r. kf r = k) rows"
proof -
  have one: "length (filter (\<lambda>r. kf r = k) rows) \<le> 1"
    using assms(1)
  proof (induction rows)
    case (Cons x rows)
    have "filter (\<lambda>r. kf r = k) rows = []" if "kf x = k"
      using Cons.prems that by (metis (mono_tags, lifting) distinct.simps(2) filter_False imageI list.map(2) list.set_map)
    with Cons show ?case by auto
  qed simp
  have m: "mset (filter (\<lambda>r. kf r = k) rows') = mset (filter (\<lambda>r. kf r = k) rows)"
    using assms(2) by simp
  show ?thesis
  proof (cases "filter (\<lambda>r. kf r = k) rows")
    case Nil
    with m show ?thesis by simp
  next
    case (Cons x xs)
    with one have "filter (\<lambda>r. kf r = k) rows = [x]" by simp
    with m show ?thesis by (metis mset_single_iff_right mset.simps)
  qed
qed

lemma filter_unique_key:
  assumes "distinct (map kf rows)" and "r \<in> set rows"
  shows "filter (\<lambda>x. kf x = kf r) rows = [r]"
  using assms
proof (induction rows)
  case (Cons y ys)
  show ?case
  proof (cases "r = y")
    case True
    with Cons.prems have "filter (\<lambda>x. kf x = kf r) ys = []"
      by (metis (mono_tags, lifting) distinct.simps(2) filter_False imageI list.map(2) list.set_map)
    with True show ?thesis by simp
  next
    case False
    with Cons show ?thesis by (auto simp: image_iff)
  qed
qed simp

lemma distinct_map_filter: "distinct (map kf rows) \<Longrightarrow> distinct (map kf (filter P rows))"
  by (induction rows) auto

text \<open>An \<open>UPDATE .. WHERE key = k\<close> that rewrites the one matching row.\<close>

definition update_rows :: "('r \<Rightarrow> bool) \<Rightarrow> ('r \<Rightarrow> 'r) \<Rightarrow> 'r list \<Rightarrow> 'r list" where
  "update_rows P f rows = map (\<lambda>r. if P r then f r else r) rows"

lemma set_update_rows: "set (update_rows P f rows) = {r \<in> set rows. \<not> P r} \<union> f ` {r \<in> set rows. P r}"
  by (auto simp: update_rows_def)

lemma update_rows_same_key:
  "(\<And>r. P r \<Longrightarrow> kf (f r) = kf r) \<Longrightarrow> map kf (update_rows P f rows) = map kf rows"
  by (simp add: update_rows_def)

lemma distinct_update_rows:
  assumes d: "distinct (map id_of rows)" "distinct (map kf rows)"
    and P: "\<And>r. P r \<longleftrightarrow> id_of r = k"
    and fresh: "\<And>r s. r \<in> set rows \<Longrightarrow> s \<in> set rows \<Longrightarrow> P s \<Longrightarrow> \<not> P r \<Longrightarrow> kf r \<noteq> kf (f s)"
  shows "distinct (map kf (update_rows P f rows))"
  using d fresh
proof (induction rows)
  case (Cons x xs)
  have ih: "distinct (map kf (update_rows P f xs))" using Cons by simp
  show ?case
  proof (cases "P x")
    case True
    then have no: "\<not> P r" if "r \<in> set xs" for r using that Cons.prems(1) P by (auto simp: image_iff)
    then have "update_rows P f xs = xs" by (simp add: update_rows_def map_idI)
    moreover have "kf r \<noteq> kf (f x)" if "r \<in> set xs" for r
      using Cons.prems(3) [of r x] True no that by simp
    ultimately have "kf (f x) \<notin> kf ` set (update_rows P f xs)" by (metis (no_types, lifting) imageE)
    moreover have "update_rows P f (x # xs) = f x # update_rows P f xs"
      using True by (simp add: update_rows_def)
    ultimately show ?thesis using ih by simp
  next
    case False
    have "kf x \<noteq> kf y" if "y \<in> set (update_rows P f xs)" for y
      using that Cons.prems(2,3) False by (auto simp: set_update_rows)
    then have "kf x \<notin> kf ` set (update_rows P f xs)" by (metis (no_types, lifting) imageE)
    moreover have "update_rows P f (x # xs) = x # update_rows P f xs"
      using False by (simp add: update_rows_def)
    ultimately show ?thesis using ih by simp
  qed
qed (simp add: update_rows_def)

end
