(* ===== verification/Db_Accounts.thy ===== *)
theory Db_Accounts
  imports Db_Schema
begin

text \<open>
  The accounts table (\<open>accounts.rs\<close>): the mapping between an \<open>Account\<close> and its row, and the
  five operations with the SQL statement each executes.
\<close>

section \<open>Accounts and their rows\<close>

record Account =
  acc_id :: AccountId
  acc_provider :: ProviderId
  acc_email :: string
  acc_access_token :: string
  acc_refresh_token :: "string option"
  acc_token_expires_at :: "datetime option"
  acc_is_active :: bool
  acc_created_at :: datetime
  acc_updated_at :: datetime

definition account_new ::
  "'s sys \<Rightarrow> ProviderId \<Rightarrow> string \<Rightarrow> string \<Rightarrow> string option \<Rightarrow> datetime option \<Rightarrow> 's \<Rightarrow> Account \<times> 's" where
  "account_new env provider email access_token refresh_token token_expires_at s =
     (case utc_now env s of (now, s1) \<Rightarrow>
      case account_id_new env s1 of (i, s2) \<Rightarrow>
        (\<lparr> acc_id = i, acc_provider = provider, acc_email = email, acc_access_token = access_token,
           acc_refresh_token = refresh_token, acc_token_expires_at = token_expires_at,
           acc_is_active = True, acc_created_at = now, acc_updated_at = now \<rparr>, s2))"

fun provider_column :: "ProviderId \<Rightarrow> string" where
  "provider_column GoogleDrive = ''googledrive''"
| "provider_column Dropbox = ''dropbox''"
| "provider_column OneDrive = ''onedrive''"

definition provider_of_column :: "string \<Rightarrow> (ProviderId, SqlError) outcome" where
  "provider_of_column s =
     (if s = ''googledrive'' then Ok GoogleDrive
      else if s = ''dropbox'' then Ok Dropbox
      else if s = ''onedrive'' then Ok OneDrive
      else Err InvalidQuery)"

text \<open>The parameters of the \<open>INSERT\<close>.\<close>

definition account_params :: "chrono \<Rightarrow> Account \<Rightarrow> account_row" where
  "account_params ch a = \<lparr> ar_id = account_id_str (acc_id a), ar_provider = provider_column (acc_provider a),
     ar_email = acc_email a, ar_access_token = acc_access_token a, ar_refresh_token = acc_refresh_token a,
     ar_token_expires_at = map_option (timestamp ch) (acc_token_expires_at a),
     ar_is_active = (if acc_is_active a then 1 else 0),
     ar_created_at = timestamp ch (acc_created_at a), ar_updated_at = timestamp ch (acc_updated_at a) \<rparr>"

definition account_from_row :: "chrono \<Rightarrow> account_row \<Rightarrow> (Account, SqlError) outcome" where
  "account_from_row ch row =
     bindO (provider_of_column (ar_provider row)) (\<lambda>provider.
     bindO (case ar_token_expires_at row of
         None \<Rightarrow> Ok None
       | Some ts \<Rightarrow> map_ok Some (unwrap (from_timestamp ch ts))) (\<lambda>token_expires_at.
     bindO (unwrap (from_timestamp ch (ar_created_at row))) (\<lambda>created_at.
     bindO (unwrap (from_timestamp ch (ar_updated_at row))) (\<lambda>updated_at.
     Ok \<lparr> acc_id = AccountId (ar_id row), acc_provider = provider, acc_email = ar_email row,
          acc_access_token = ar_access_token row, acc_refresh_token = ar_refresh_token row,
          acc_token_expires_at = token_expires_at, acc_is_active = (ar_is_active row \<noteq> 0),
          acc_created_at = created_at, acc_updated_at = updated_at \<rparr>))))"

section \<open>Operations\<close>

definition insert_account_row :: "account_row \<Rightarrow> bool \<Rightarrow> database \<Rightarrow> SqlError + unit \<times> database" where
  "insert_account_row row fk d =
     (if account_fits row (db_accounts d)
      then Inr ((), d\<lparr> db_accounts := db_accounts d @ [row] \<rparr>)
      else Inl (ConstraintViolation ''UNIQUE constraint failed: accounts''))"

definition create_account :: "'s db_env \<Rightarrow> Account \<Rightarrow> ('s conn, AccountId, DbError) st" where
  "create_account env account =
     bindS (map_errS (conflict_or ''Account with this provider and email already exists'')
        (sql_execute env ''INSERT INTO accounts'' (insert_account_row (account_params (de_chrono env) account))))
       (\<lambda>_. returnS (acc_id account))"

definition get_account_by_id :: "'s db_env \<Rightarrow> AccountId \<Rightarrow> ('s conn, Account option, DbError) st" where
  "get_account_by_id env i = optional_row (sql_query_row env ''SELECT accounts BY id''
     (\<lambda>d. filter (\<lambda>r. ar_id r = account_id_str i)
        (sq_scan_accounts (de_sql env) ''SELECT accounts BY id'' (db_accounts d)))
     (account_from_row (de_chrono env)))"

text \<open>\<open>ORDER BY created_at DESC\<close>, rows with equal times in the order they are visited.\<close>

definition list_accounts :: "'s db_env \<Rightarrow> bool \<Rightarrow> ('s conn, Account list, DbError) st" where
  "list_accounts env active_only = map_errS DbSqlite (sql_query_map env ''SELECT accounts''
     (\<lambda>d. sort_key (\<lambda>r. - ar_created_at r) (filter (\<lambda>r. active_only \<longrightarrow> ar_is_active r = 1)
        (sq_scan_accounts (de_sql env) ''SELECT accounts'' (db_accounts d))))
     (account_from_row (de_chrono env)))"

text \<open>The \<open>UPDATE\<close> sets every column but \<open>id\<close> and \<open>created_at\<close>.\<close>

definition set_account_row :: "account_row \<Rightarrow> account_row \<Rightarrow> account_row" where
  "set_account_row new old = new\<lparr> ar_id := ar_id old, ar_created_at := ar_created_at old \<rparr>"

definition update_account_row :: "account_row \<Rightarrow> bool \<Rightarrow> database \<Rightarrow> SqlError + nat \<times> database" where
  "update_account_row new fk d =
     (let hit = (\<lambda>r. ar_id r = ar_id new); rows = db_accounts d
      in if (\<exists>r \<in> set rows. hit r) \<and> \<not> account_fits new (filter (\<lambda>r. \<not> hit r) rows)
         then Inl (ConstraintViolation ''UNIQUE constraint failed: accounts'')
         else Inr (length (filter hit rows), d\<lparr> db_accounts := update_rows hit (set_account_row new) rows \<rparr>))"

definition update_account :: "'s db_env \<Rightarrow> Account \<Rightarrow> ('s conn, bool, DbError) st" where
  "update_account env account =
     bindS (now_st env) (\<lambda>now.
     bindS (map_errS DbSqlite (sql_execute env ''UPDATE accounts''
        (update_account_row (account_params (de_chrono env) (account\<lparr> acc_updated_at := now \<rparr>))))) (\<lambda>rows_affected.
     returnS (0 < rows_affected)))"

text \<open>\<open>ON DELETE CASCADE\<close> removes the account's files and cursor when foreign keys are on.\<close>

definition delete_account_row :: "string \<Rightarrow> bool \<Rightarrow> database \<Rightarrow> SqlError + nat \<times> database" where
  "delete_account_row i fk d =
     Inr (length (filter (\<lambda>r. ar_id r = i) (db_accounts d)),
       d\<lparr> db_accounts := filter (\<lambda>r. ar_id r \<noteq> i) (db_accounts d),
          db_files := (if fk then filter (\<lambda>r. fr_account_id r \<noteq> i) (db_files d) else db_files d),
          db_cursors := (if fk then filter (\<lambda>r. cr_account_id r \<noteq> i) (db_cursors d) else db_cursors d) \<rparr>)"

definition delete_account :: "'s db_env \<Rightarrow> AccountId \<Rightarrow> ('s conn, bool, DbError) st" where
  "delete_account env i =
     bindS (map_errS DbSqlite (sql_execute env ''DELETE FROM accounts'' (delete_account_row (account_id_str i))))
       (\<lambda>rows_affected. returnS (0 < rows_affected))"

section \<open>The constraints hold\<close>

lemma provider_check_column [simp]: "provider_check (provider_column p)"
  by (cases p) (simp_all add: provider_check_def)

lemma provider_of_column_column [simp]: "provider_of_column (provider_column p) = Ok p"
  by (cases p) (simp_all add: provider_of_column_def)

lemma provider_column_inj [simp]: "provider_column p = provider_column q \<longleftrightarrow> p = q"
  by (cases p; cases q) simp_all

lemma account_exists_simps [simp]:
  "account_exists i (d\<lparr> db_files := x \<rparr>) = account_exists i d"
  "account_exists i (d\<lparr> db_files_seq := y \<rparr>) = account_exists i d"
  "account_exists i (d\<lparr> db_cursors := z \<rparr>) = account_exists i d"
  "account_exists i (d\<lparr> db_inodes := v \<rparr>) = account_exists i d"
  by (simp_all add: account_exists_def)

lemma insert_account_row_ok:
  "db_ok d \<Longrightarrow> insert_account_row row fk d = Inr (n, d') \<Longrightarrow> db_ok d'"
  by (auto simp: insert_account_row_def db_ok_def account_fits_def account_exists_def split: if_splits)

lemma set_account_row_simps [simp]:
  "ar_id (set_account_row new old) = ar_id old" "ar_created_at (set_account_row new old) = ar_created_at old"
  "ar_provider (set_account_row new old) = ar_provider new" "ar_email (set_account_row new old) = ar_email new"
  by (simp_all add: set_account_row_def)

lemma update_account_row_ok:
  assumes "db_ok d" and "update_account_row new fk d = Inr (n, d')"
  shows "db_ok d'"
proof -
  define hit where "hit = (\<lambda>r :: account_row. ar_id r = ar_id new)"
  define rows where "rows = update_rows hit (set_account_row new) (db_accounts d)"
  have d': "d' = d\<lparr> db_accounts := rows \<rparr>"
    using assms(2) by (auto simp: update_account_row_def Let_def rows_def hit_def split: if_splits)
  have fits: "(\<exists>r \<in> set (db_accounts d). hit r) \<longrightarrow>
      account_fits new (filter (\<lambda>r. \<not> hit r) (db_accounts d))"
    using assms(2) by (auto simp: update_account_row_def Let_def hit_def split: if_splits)
  have ids: "map ar_id rows = map ar_id (db_accounts d)"
    by (simp add: rows_def update_rows_same_key)
  have "distinct (map (\<lambda>r. (ar_provider r, ar_email r)) rows)"
    unfolding rows_def
  proof (rule distinct_update_rows)
    show "distinct (map ar_id (db_accounts d))" "distinct (map (\<lambda>r. (ar_provider r, ar_email r)) (db_accounts d))"
      using assms(1) by (simp_all add: db_ok_def)
    show "hit r \<longleftrightarrow> ar_id r = ar_id new" for r by (simp add: hit_def)
    show "(ar_provider r, ar_email r) \<noteq> (ar_provider (set_account_row new s), ar_email (set_account_row new s))"
      if "r \<in> set (db_accounts d)" "s \<in> set (db_accounts d)" "hit s" "\<not> hit r" for r s
    proof -
      have "account_fits new (filter (\<lambda>r. \<not> hit r) (db_accounts d))" using fits that by blast
      moreover have "(ar_provider r, ar_email r) \<in>
          (\<lambda>r. (ar_provider r, ar_email r)) ` set (filter (\<lambda>r. \<not> hit r) (db_accounts d))"
        using that by (intro imageI) simp
      ultimately show ?thesis unfolding account_fits_def set_account_row_simps by metis
    qed
  qed
  moreover have "\<forall>r \<in> set rows. provider_check (ar_provider r)"
    using assms(1) fits by (auto simp: rows_def set_update_rows db_ok_def account_fits_def)
  moreover have "account_exists i d' = account_exists i d" for i
    using arg_cong [OF ids, of set] by (simp add: account_exists_def d')
  ultimately show ?thesis using assms(1) ids by (simp add: db_ok_def d')
qed

lemma delete_account_row_ok:
  "db_ok d \<Longrightarrow> delete_account_row i True d = Inr (n, d') \<Longrightarrow> db_ok d'"
proof -
  assume d: "db_ok d" and r: "delete_account_row i True d = Inr (n, d')"
  have "account_exists j d' \<longleftrightarrow> j \<noteq> i \<and> account_exists j d" for j
    using r by (auto simp: delete_account_row_def account_exists_def)
  with d r show ?thesis by (auto simp: delete_account_row_def db_ok_def distinct_map_filter)
qed

lemma create_account_preserves [preserve_intros]: "preserves conn_ok (create_account env a)"
  unfolding create_account_def by (intro preserve_intros) (rule insert_account_row_ok)

lemma get_account_by_id_state [simp]: "snd (get_account_by_id env i c) = c"
  by (simp add: get_account_by_id_def)

lemma list_accounts_state [simp]: "snd (list_accounts env b c) = c"
  by (simp add: list_accounts_def)

lemma update_account_preserves [preserve_intros]: "preserves conn_ok (update_account env a)"
  unfolding update_account_def by (intro preserve_intros) (rule update_account_row_ok)

lemma delete_account_preserves [preserve_intros]: "preserves conn_ok (delete_account env i)"
  unfolding delete_account_def by (intro preserve_intros) (auto dest: delete_account_row_ok)

section \<open>What is stored is what is read\<close>

text \<open>An account as the database can represent it: times cut to whole seconds.\<close>

definition stored_account :: "Account \<Rightarrow> Account" where
  "stored_account a = a\<lparr> acc_token_expires_at := map_option trunc_subsecs (acc_token_expires_at a),
     acc_created_at := trunc_subsecs (acc_created_at a), acc_updated_at := trunc_subsecs (acc_updated_at a) \<rparr>"

definition account_stamps_ok :: "chrono \<Rightarrow> Account \<Rightarrow> bool" where
  "account_stamps_ok ch a \<longleftrightarrow> stamp_ok ch (acc_created_at a) \<and> stamp_ok ch (acc_updated_at a) \<and>
     (case acc_token_expires_at a of None \<Rightarrow> True | Some t \<Rightarrow> stamp_ok ch t)"

lemma account_from_row_params:
  "account_stamps_ok ch a \<Longrightarrow> account_from_row ch (account_params ch a) = Ok (stored_account a)"
  by (auto simp: account_from_row_def account_params_def account_stamps_ok_def stamp_ok_def stored_account_def
      split: option.splits)

lemma account_from_row_Err: "account_from_row ch row = Err e \<Longrightarrow> e = InvalidQuery"
  by (auto simp: account_from_row_def provider_of_column_def bindO_Err_iff split: option.splits if_splits)

lemma get_account_by_id_found:
  assumes "no_faults (de_sql env)" "scans_rows (de_sql env)" "conn_ok c"
    and "row \<in> set (db_accounts (cn_db c))" "ar_id row = account_id_str i"
  shows "get_account_by_id env i c = (map_err DbSqlite (map_ok Some (account_from_row (de_chrono env) row)), c)"
proof -
  have d: "distinct (map ar_id (db_accounts (cn_db c)))" using assms(3) by (simp add: conn_ok_def db_ok_def)
  have "filter (\<lambda>r. ar_id r = account_id_str i)
      (sq_scan_accounts (de_sql env) ''SELECT accounts BY id'' (db_accounts (cn_db c)))
      = filter (\<lambda>r. ar_id r = account_id_str i) (db_accounts (cn_db c))"
    using assms(2) by (intro filter_unique_perm [OF d]) (simp add: scans_rows_def)
  also have "\<dots> = [row]" using filter_unique_key [OF d assms(4)] assms(5) by simp
  finally show ?thesis
    using assms(1) account_from_row_Err [of "de_chrono env" row] by (cases "account_from_row (de_chrono env) row")
      (auto simp: get_account_by_id_def optional_row_def sql_query_row_def no_faults_def split: SqlError.splits)
qed

end
