(* ===== verification/Db_Files.thy ===== *)
theory Db_Files
  imports Db_Accounts
begin

text \<open>
  The files table (\<open>files.rs\<close>): the mapping between a \<open>File\<close> and its row, with sizes going
  through \<open>i64\<close>, and the eight operations with the SQL statement each executes.
\<close>

section \<open>Files and their rows\<close>

record File =
  f_id :: int
  f_account_id :: AccountId
  f_provider_file_id :: FileId
  f_path :: CloudPath
  f_name :: string
  f_size :: "u64 option"
  f_content_hash :: "string option"
  f_is_folder :: bool
  f_state :: FileState
  f_modified_at :: datetime
  f_synced_at :: "datetime option"
  f_created_at :: datetime
  f_updated_at :: datetime

definition file_new ::
  "'s sys \<Rightarrow> AccountId \<Rightarrow> FileId \<Rightarrow> CloudPath \<Rightarrow> string \<Rightarrow> u64 option \<Rightarrow> string option \<Rightarrow> bool \<Rightarrow> datetime \<Rightarrow>
   's \<Rightarrow> File \<times> 's" where
  "file_new env account_id provider_file_id path nm sz content_hash is_folder modified_at s =
     (case utc_now env s of (now, s') \<Rightarrow>
        (\<lparr> f_id = 0, f_account_id = account_id, f_provider_file_id = provider_file_id, f_path = path,
           f_name = nm, f_size = sz, f_content_hash = content_hash, f_is_folder = is_folder,
           f_state = Pending, f_modified_at = modified_at, f_synced_at = None, f_created_at = now,
           f_updated_at = now \<rparr>, s'))"

fun state_column :: "FileState \<Rightarrow> string" where
  "state_column Synced = ''synced''"
| "state_column CloudOnly = ''cloud_only''"
| "state_column Syncing = ''syncing''"
| "state_column Pending = ''pending''"
| "state_column Error = ''error''"
| "state_column Excluded = ''excluded''"
| "state_column OfflineModified = ''offline_modified''"
| "state_column Conflict = ''conflict''"

definition state_of_column :: "string \<Rightarrow> (FileState, SqlError) outcome" where
  "state_of_column s =
     (if s = ''synced'' then Ok Synced
      else if s = ''cloud_only'' then Ok CloudOnly
      else if s = ''syncing'' then Ok Syncing
      else if s = ''pending'' then Ok Pending
      else if s = ''error'' then Ok Error
      else if s = ''excluded'' then Ok Excluded
      else if s = ''offline_modified'' then Ok OfflineModified
      else if s = ''conflict'' then Ok Conflict
      else Err InvalidQuery)"

definition file_params :: "chrono \<Rightarrow> File \<Rightarrow> file_row" where
  "file_params ch f = \<lparr> fr_id = f_id f, fr_account_id = account_id_str (f_account_id f),
     fr_provider_file_id = file_id_str (f_provider_file_id f), fr_path = cloud_path_as_str (f_path f),
     fr_name = f_name f, fr_size = map_option as_i64 (f_size f), fr_content_hash = f_content_hash f,
     fr_is_folder = (if f_is_folder f then 1 else 0), fr_state = state_column (f_state f),
     fr_modified_at = timestamp ch (f_modified_at f),
     fr_synced_at = map_option (timestamp ch) (f_synced_at f),
     fr_created_at = timestamp ch (f_created_at f), fr_updated_at = timestamp ch (f_updated_at f) \<rparr>"

definition file_from_row :: "chrono \<Rightarrow> file_row \<Rightarrow> (File, SqlError) outcome" where
  "file_from_row ch row =
     bindO (state_of_column (fr_state row)) (\<lambda>state.
     bindO (unwrap (from_timestamp ch (fr_modified_at row))) (\<lambda>modified_at.
     bindO (unwrap (from_timestamp ch (fr_created_at row))) (\<lambda>created_at.
     bindO (unwrap (from_timestamp ch (fr_updated_at row))) (\<lambda>updated_at.
     Ok \<lparr> f_id = fr_id row, f_account_id = AccountId (fr_account_id row),
          f_provider_file_id = FileId (fr_provider_file_id row), f_path = cloud_path_new (fr_path row),
          f_name = fr_name row, f_size = map_option as_u64 (fr_size row),
          f_content_hash = fr_content_hash row, f_is_folder = (fr_is_folder row \<noteq> 0), f_state = state,
          f_modified_at = modified_at,
          f_synced_at = Option.bind (fr_synced_at row) (from_timestamp ch),
          f_created_at = created_at, f_updated_at = updated_at \<rparr>))))"

section \<open>Operations\<close>

text \<open>
  \<open>AUTOINCREMENT\<close> gives the identifier after the largest one ever used and fails when there
  is none left.
\<close>

definition insert_file_row :: "file_row \<Rightarrow> bool \<Rightarrow> database \<Rightarrow> SqlError + int \<times> database" where
  "insert_file_row new fk d =
     (let i = db_files_seq d + 1; row = new\<lparr> fr_id := i \<rparr>
      in if 2 ^ 63 \<le> i then Inl (SqlOther ''database or disk is full'')
         else if \<not> file_fits row (db_files d)
         then Inl (ConstraintViolation ''UNIQUE constraint failed: files'')
         else if fk \<and> \<not> account_exists (fr_account_id row) d
         then Inl (ConstraintViolation ''FOREIGN KEY constraint failed'')
         else Inr (i, d\<lparr> db_files := db_files d @ [row], db_files_seq := i \<rparr>))"

text \<open>\<open>last_insert_rowid()\<close> right after the insertion is the new row's identifier.\<close>

definition create_file :: "'s db_env \<Rightarrow> File \<Rightarrow> ('s conn, int, DbError) st" where
  "create_file env file =
     map_errS (conflict_or ''File with this account and provider_file_id already exists'')
       (sql_execute env ''INSERT INTO files'' (insert_file_row (file_params (de_chrono env) file)))"

definition query_file :: "'s db_env \<Rightarrow> string \<Rightarrow> (file_row \<Rightarrow> bool) \<Rightarrow> ('s conn, File option, DbError) st" where
  "query_file env stmt cond = optional_row (sql_query_row env stmt
     (\<lambda>d. filter cond (sq_scan_files (de_sql env) stmt (db_files d))) (file_from_row (de_chrono env)))"

definition get_file_by_id :: "'s db_env \<Rightarrow> int \<Rightarrow> ('s conn, File option, DbError) st" where
  "get_file_by_id env i = query_file env ''SELECT files BY id'' (\<lambda>r. fr_id r = i)"

definition get_file_by_provider_id ::
  "'s db_env \<Rightarrow> AccountId \<Rightarrow> FileId \<Rightarrow> ('s conn, File option, DbError) st" where
  "get_file_by_provider_id env account_id provider_file_id = query_file env ''SELECT files BY provider_file_id''
     (\<lambda>r. fr_account_id r = account_id_str account_id \<and> fr_provider_file_id r = file_id_str provider_file_id)"

definition get_file_by_cloud_path ::
  "'s db_env \<Rightarrow> AccountId \<Rightarrow> CloudPath \<Rightarrow> ('s conn, File option, DbError) st" where
  "get_file_by_cloud_path env account_id cloud_path = query_file env ''SELECT files BY path''
     (\<lambda>r. fr_account_id r = account_id_str account_id \<and> fr_path r = cloud_path_as_str cloud_path)"

text \<open>\<open>ORDER BY path ASC\<close> in byte order, rows with equal paths in the order they are visited.\<close>

definition list_files :: "'s db_env \<Rightarrow> AccountId \<Rightarrow> FileState option \<Rightarrow> ('s conn, File list, DbError) st" where
  "list_files env account_id state_filter = map_errS DbSqlite (sql_query_map env ''SELECT files''
     (\<lambda>d. sort_key fr_path (filter (\<lambda>r. fr_account_id r = account_id_str account_id \<and>
           (case state_filter of None \<Rightarrow> True | Some state \<Rightarrow> fr_state r = state_column state))
        (sq_scan_files (de_sql env) ''SELECT files'' (db_files d))))
     (file_from_row (de_chrono env)))"

text \<open>The \<open>UPDATE\<close> sets every column but \<open>id\<close> and \<open>created_at\<close>.\<close>

definition set_file_row :: "file_row \<Rightarrow> file_row \<Rightarrow> file_row" where
  "set_file_row new old = new\<lparr> fr_id := fr_id old, fr_created_at := fr_created_at old \<rparr>"

definition update_file_row :: "file_row \<Rightarrow> bool \<Rightarrow> database \<Rightarrow> SqlError + nat \<times> database" where
  "update_file_row new fk d =
     (let hit = (\<lambda>r. fr_id r = fr_id new); rows = db_files d; found = (\<exists>r \<in> set rows. hit r)
      in if found \<and> \<not> file_fits new (filter (\<lambda>r. \<not> hit r) rows)
         then Inl (ConstraintViolation ''UNIQUE constraint failed: files'')
         else if found \<and> fk \<and> \<not> account_exists (fr_account_id new) d
         then Inl (ConstraintViolation ''FOREIGN KEY constraint failed'')
         else Inr (length (filter hit rows), d\<lparr> db_files := update_rows hit (set_file_row new) rows \<rparr>))"

definition update_file :: "'s db_env \<Rightarrow> File \<Rightarrow> ('s conn, bool, DbError) st" where
  "update_file env file =
     bindS (now_st env) (\<lambda>now.
     bindS (map_errS DbSqlite (sql_execute env ''UPDATE files''
        (update_file_row (file_params (de_chrono env) (file\<lparr> f_updated_at := now \<rparr>))))) (\<lambda>rows_affected.
     returnS (0 < rows_affected)))"

definition delete_file_rows :: "(file_row \<Rightarrow> bool) \<Rightarrow> bool \<Rightarrow> database \<Rightarrow> SqlError + nat \<times> database" where
  "delete_file_rows cond fk d =
     Inr (length (filter cond (db_files d)), d\<lparr> db_files := filter (\<lambda>r. \<not> cond r) (db_files d) \<rparr>)"

definition delete_file :: "'s db_env \<Rightarrow> int \<Rightarrow> ('s conn, bool, DbError) st" where
  "delete_file env i =
     bindS (map_errS DbSqlite (sql_execute env ''DELETE FROM files BY id'' (delete_file_rows (\<lambda>r. fr_id r = i))))
       (\<lambda>rows_affected. returnS (0 < rows_affected))"

definition delete_files_by_account :: "'s db_env \<Rightarrow> AccountId \<Rightarrow> ('s conn, nat, DbError) st" where
  "delete_files_by_account env account_id =
     map_errS DbSqlite (sql_execute env ''DELETE FROM files BY account''
       (delete_file_rows (\<lambda>r. fr_account_id r = account_id_str account_id)))"

section \<open>The constraints hold\<close>

lemma state_check_column [simp]: "state_check (state_column s)"
  by (cases s) (simp_all add: state_check_def)

lemma state_of_column_column [simp]: "state_of_column (state_column s) = Ok s"
  by (cases s) (simp_all add: state_of_column_def)

lemma state_column_inj [simp]: "state_column s = state_column t \<longleftrightarrow> s = t"
  by (metis outcome.inject(1) state_of_column_column)

lemma file_params_simps [simp]:
  "fr_id (file_params ch f) = f_id f" "fr_account_id (file_params ch f) = account_id_str (f_account_id f)"
  "fr_provider_file_id (file_params ch f) = file_id_str (f_provider_file_id f)"
  "fr_state (file_params ch f) = state_column (f_state f)"
  "fr_path (file_params ch f) = cloud_path_as_str (f_path f)"
  by (simp_all add: file_params_def)

lemma set_file_row_simps [simp]:
  "fr_id (set_file_row new old) = fr_id old" "fr_account_id (set_file_row new old) = fr_account_id new"
  "fr_provider_file_id (set_file_row new old) = fr_provider_file_id new"
  "fr_state (set_file_row new old) = fr_state new" "fr_created_at (set_file_row new old) = fr_created_at old"
  by (simp_all add: set_file_row_def)

lemma insert_file_row_ok:
  "fk \<Longrightarrow> db_ok d \<Longrightarrow> insert_file_row row fk d = Inr (n, d') \<Longrightarrow> db_ok d'"
proof -
  assume a: "fk" "db_ok d" "insert_file_row row fk d = Inr (n, d')"
  have "fr_id r \<le> db_files_seq d + 1" if "r \<in> set (db_files d)" for r
    using a(2) that by (fastforce simp: db_ok_def)
  with a show ?thesis
    by (auto simp: insert_file_row_def Let_def db_ok_def file_fits_def split: if_splits)
qed

lemma update_file_row_ok:
  assumes "fk" and "db_ok d" and "update_file_row new fk d = Inr (n, d')"
  shows "db_ok d'"
proof -
  define hit where "hit = (\<lambda>r :: file_row. fr_id r = fr_id new)"
  define rows where "rows = update_rows hit (set_file_row new) (db_files d)"
  have d': "d' = d\<lparr> db_files := rows \<rparr>"
    using assms(3) by (auto simp: update_file_row_def Let_def rows_def hit_def split: if_splits)
  have fits: "(\<exists>r \<in> set (db_files d). hit r) \<longrightarrow>
      file_fits new (filter (\<lambda>r. \<not> hit r) (db_files d)) \<and> account_exists (fr_account_id new) d"
    using assms(1,3) by (auto simp: update_file_row_def Let_def hit_def split: if_splits)
  have ids: "map fr_id rows = map fr_id (db_files d)"
    by (simp add: rows_def update_rows_same_key)
  have "distinct (map (\<lambda>r. (fr_account_id r, fr_provider_file_id r)) rows)"
    unfolding rows_def
  proof (rule distinct_update_rows)
    show "distinct (map fr_id (db_files d))"
      "distinct (map (\<lambda>r. (fr_account_id r, fr_provider_file_id r)) (db_files d))"
      using assms(2) by (simp_all add: db_ok_def)
    show "hit r \<longleftrightarrow> fr_id r = fr_id new" for r by (simp add: hit_def)
    show "(fr_account_id r, fr_provider_file_id r) \<noteq>
        (fr_account_id (set_file_row new s), fr_provider_file_id (set_file_row new s))"
      if "r \<in> set (db_files d)" "s \<in> set (db_files d)" "hit s" "\<not> hit r" for r s
    proof -
      have "file_fits new (filter (\<lambda>r. \<not> hit r) (db_files d))" using fits that by blast
      moreover have "(fr_account_id r, fr_provider_file_id r) \<in>
          (\<lambda>r. (fr_account_id r, fr_provider_file_id r)) ` set (filter (\<lambda>r. \<not> hit r) (db_files d))"
        using that by (intro imageI) simp
      ultimately show ?thesis unfolding file_fits_def set_file_row_simps by metis
    qed
  qed
  moreover have "\<forall>r \<in> set rows. state_check (fr_state r) \<and> account_exists (fr_account_id r) d \<and>
      0 < fr_id r \<and> fr_id r \<le> db_files_seq d"
    using assms(2) fits by (auto simp: rows_def set_update_rows db_ok_def file_fits_def)
  ultimately show ?thesis using assms(2) ids by (simp add: db_ok_def d')
qed

lemma delete_file_rows_ok: "db_ok d \<Longrightarrow> delete_file_rows cond fk d = Inr (n, d') \<Longrightarrow> db_ok d'"
  by (auto simp: delete_file_rows_def db_ok_def distinct_map_filter)

lemma create_file_preserves [preserve_intros]: "preserves conn_ok (create_file env f)"
  unfolding create_file_def by (intro preserve_intros) (rule insert_file_row_ok)

lemma update_file_preserves [preserve_intros]: "preserves conn_ok (update_file env f)"
  unfolding update_file_def by (intro preserve_intros) (rule update_file_row_ok)

lemma delete_file_preserves [preserve_intros]: "preserves conn_ok (delete_file env i)"
  unfolding delete_file_def by (intro preserve_intros) (rule delete_file_rows_ok)

lemma delete_files_by_account_preserves [preserve_intros]:
  "preserves conn_ok (delete_files_by_account env i)"
  unfolding delete_files_by_account_def by (intro preserve_intros) (rule delete_file_rows_ok)

lemma query_file_state [simp]: "snd (query_file env stmt cond c) = c"
  by (simp add: query_file_def)

lemma list_files_state [simp]: "snd (list_files env a s c) = c"
  by (simp add: list_files_def)

section \<open>What is stored is what is read\<close>

text \<open>A file as the database can represent it: times cut to whole seconds, the path normalised.\<close>

definition stored_file :: "File \<Rightarrow> File" where
  "stored_file f = f\<lparr> f_path := cloud_path_new (cloud_path_as_str (f_path f)),
     f_modified_at := trunc_subsecs (f_modified_at f),
     f_synced_at := map_option trunc_subsecs (f_synced_at f),
     f_created_at := trunc_subsecs (f_created_at f), f_updated_at := trunc_subsecs (f_updated_at f) \<rparr>"

definition file_stamps_ok :: "chrono \<Rightarrow> File \<Rightarrow> bool" where
  "file_stamps_ok ch f \<longleftrightarrow> stamp_ok ch (f_modified_at f) \<and> stamp_ok ch (f_created_at f) \<and>
     stamp_ok ch (f_updated_at f) \<and> (case f_synced_at f of None \<Rightarrow> True | Some t \<Rightarrow> stamp_ok ch t)"

lemma file_from_row_params:
  "file_stamps_ok ch f \<Longrightarrow> file_from_row ch (file_params ch f) = Ok (stored_file f)"
  by (cases "f_size f"; cases "f_synced_at f")
    (auto simp: file_from_row_def file_params_def file_stamps_ok_def stamp_ok_def stored_file_def)

lemma file_from_row_id:
  "file_from_row ch (row\<lparr> fr_id := i \<rparr>) = map_ok (\<lambda>f. f\<lparr> f_id := i \<rparr>) (file_from_row ch row)"
  by (cases "state_of_column (fr_state row)"; cases "from_timestamp ch (fr_modified_at row)";
      cases "from_timestamp ch (fr_created_at row)"; cases "from_timestamp ch (fr_updated_at row)")
    (simp_all add: file_from_row_def)

lemma file_from_row_Err: "file_from_row ch row = Err e \<Longrightarrow> e = InvalidQuery"
  by (auto simp: file_from_row_def state_of_column_def bindO_Err_iff split: if_splits)

lemma query_file_result:
  assumes "no_faults (de_sql env)"
    and "filter cond (sq_scan_files (de_sql env) stmt (db_files (cn_db c))) = rows"
  shows "query_file env stmt cond c =
    (case rows of [] \<Rightarrow> Ok None
     | row # _ \<Rightarrow> map_err DbSqlite (map_ok Some (file_from_row (de_chrono env) row)), c)"
proof (cases rows)
  case Nil
  with assms show ?thesis
    by (simp add: query_file_def optional_row_def sql_query_row_def no_faults_def)
next
  case (Cons row rest)
  with assms show ?thesis
    using file_from_row_Err [of "de_chrono env" row]
    by (cases "file_from_row (de_chrono env) row")
      (auto simp: query_file_def optional_row_def sql_query_row_def no_faults_def split: SqlError.splits)
qed

text \<open>A query by a unique key does not depend on the order in which rows are visited.\<close>

lemma scan_unique:
  assumes "scans_rows (de_sql env)" and "distinct (map kf (db_files d))"
  shows "filter (\<lambda>r. kf r = k) (sq_scan_files (de_sql env) stmt (db_files d)) =
    filter (\<lambda>r. kf r = k) (db_files d)"
  using assms(1) by (intro filter_unique_perm [OF assms(2)]) (simp add: scans_rows_def)

lemma get_file_by_id_result:
  assumes "no_faults (de_sql env)" "scans_rows (de_sql env)" "conn_ok c"
  shows "get_file_by_id env i c =
    (case filter (\<lambda>r. fr_id r = i) (db_files (cn_db c)) of [] \<Rightarrow> Ok None
     | row # _ \<Rightarrow> map_err DbSqlite (map_ok Some (file_from_row (de_chrono env) row)), c)"
  unfolding get_file_by_id_def
  using assms(3) by (intro query_file_result [OF assms(1)] scan_unique assms(2)) (simp add: conn_ok_def db_ok_def)

lemma get_file_by_provider_id_result:
  assumes "no_faults (de_sql env)" "scans_rows (de_sql env)" "conn_ok c"
  shows "get_file_by_provider_id env a i c =
    (case filter (\<lambda>r. (fr_account_id r, fr_provider_file_id r) = (account_id_str a, file_id_str i))
            (db_files (cn_db c)) of [] \<Rightarrow> Ok None
     | row # _ \<Rightarrow> map_err DbSqlite (map_ok Some (file_from_row (de_chrono env) row)), c)"
proof -
  have "get_file_by_provider_id env a i = query_file env ''SELECT files BY provider_file_id''
      (\<lambda>r. (fr_account_id r, fr_provider_file_id r) = (account_id_str a, file_id_str i))"
    by (simp add: get_file_by_provider_id_def)
  then show ?thesis
    using assms(3) by (simp only:) (intro query_file_result [OF assms(1)] scan_unique assms(2),
        simp add: conn_ok_def db_ok_def)
qed

end
