(* ===== verification/Db_Inodes.thy ===== *)
theory Db_Inodes
  imports Db_Schema
begin

text \<open>
  The inode table of the virtual filesystem (\<open>vfs_inodes.rs\<close>) and the change cursors
  (\<open>sync_cursors.rs\<close>). Inodes are \<open>u64\<close> in Rust and \<open>i64\<close> in the table; the cast goes both ways
  without loss, but \<open>MAX(inode)\<close> compares the signed values.
\<close>

section \<open>Inodes\<close>

definition insert_inode_row :: "inode_row \<Rightarrow> bool \<Rightarrow> database \<Rightarrow> SqlError + unit \<times> database" where
  "insert_inode_row row fk d =
     (if inode_fits row (db_inodes d) then Inr ((), d\<lparr> db_inodes := db_inodes d @ [row] \<rparr>)
      else Inl (ConstraintViolation ''UNIQUE constraint failed: vfs_inodes''))"

definition inode_conflict_msg :: "u64 \<Rightarrow> string \<Rightarrow> string" where
  "inode_conflict_msg inode file_id =
     ''Inode mapping already exists for inode '' @ show_nat (unat inode) @ '' or file_id '' @ file_id"

definition insert_inode :: "'s db_env \<Rightarrow> u64 \<Rightarrow> string \<Rightarrow> ('s conn, unit, DbError) st" where
  "insert_inode env inode file_id =
     bindS (now_st env) (\<lambda>now.
     map_errS (conflict_or (inode_conflict_msg inode file_id))
       (sql_execute env ''INSERT INTO vfs_inodes''
         (insert_inode_row \<lparr> ir_inode = as_i64 inode, ir_file_id = file_id,
            ir_created_at = timestamp (de_chrono env) now \<rparr>)))"

definition get_inode_by_file_id :: "'s db_env \<Rightarrow> string \<Rightarrow> ('s conn, u64 option, DbError) st" where
  "get_inode_by_file_id env file_id = optional_row (sql_query_row env ''SELECT inode''
     (\<lambda>d. filter (\<lambda>r. ir_file_id r = file_id) (db_inodes d)) (\<lambda>r. Ok (as_u64 (ir_inode r))))"

definition get_file_id_by_inode :: "'s db_env \<Rightarrow> u64 \<Rightarrow> ('s conn, string option, DbError) st" where
  "get_file_id_by_inode env inode = optional_row (sql_query_row env ''SELECT file_id''
     (\<lambda>d. filter (\<lambda>r. ir_inode r = as_i64 inode) (db_inodes d)) (\<lambda>r. Ok (ir_file_id r)))"

text \<open>
  \<open>next_inode\<close> is a closure that may change state of its caller and may panic, so the operation
  runs on the pair of the connection and that state.
\<close>

definition on_fst :: "('a, 'x, 'e) st \<Rightarrow> ('a \<times> 'b, 'x, 'e) st" where
  "on_fst m = (\<lambda>(a, b). case m a of (r, a') \<Rightarrow> (r, (a', b)))"

definition on_snd :: "('b, 'x, 'e) st \<Rightarrow> ('a \<times> 'b, 'x, 'e) st" where
  "on_snd m = (\<lambda>(a, b). case m b of (r, b') \<Rightarrow> (r, (a, b')))"

definition get_or_insert_inode ::
  "'s db_env \<Rightarrow> string \<Rightarrow> ('c, u64, DbError) st \<Rightarrow> ('s conn \<times> 'c, u64, DbError) st" where
  "get_or_insert_inode env file_id next_inode =
     bindS (on_fst (get_inode_by_file_id env file_id)) (\<lambda>found.
     case found of
       Some inode \<Rightarrow> returnS inode
     | None \<Rightarrow>
         bindS (on_snd next_inode) (\<lambda>inode.
         bindS (on_fst (insert_inode env inode file_id)) (\<lambda>_.
         returnS inode)))"

text \<open>\<open>SELECT MAX(inode)\<close> yields one row, with a null when the table is empty.\<close>

definition get_max_inode :: "'s db_env \<Rightarrow> ('s conn, u64, DbError) st" where
  "get_max_inode env = map_errS DbSqlite (sql_query_row env ''SELECT MAX(inode)''
     (\<lambda>d. [if db_inodes d = [] then None else Some (Max (ir_inode ` set (db_inodes d)))])
     (\<lambda>m. Ok (case m of None \<Rightarrow> 0 | Some v \<Rightarrow> as_u64 v)))"

definition delete_inode_rows :: "string \<Rightarrow> bool \<Rightarrow> database \<Rightarrow> SqlError + nat \<times> database" where
  "delete_inode_rows file_id fk d =
     Inr (length (filter (\<lambda>r. ir_file_id r = file_id) (db_inodes d)),
       d\<lparr> db_inodes := filter (\<lambda>r. ir_file_id r \<noteq> file_id) (db_inodes d) \<rparr>)"

definition remove_inode :: "'s db_env \<Rightarrow> string \<Rightarrow> ('s conn, bool, DbError) st" where
  "remove_inode env file_id =
     bindS (map_errS DbSqlite (sql_execute env ''DELETE FROM vfs_inodes'' (delete_inode_rows file_id)))
       (\<lambda>rows. returnS (0 < rows))"

section \<open>Change cursors\<close>

text \<open>\<open>INSERT .. ON CONFLICT(account_id) DO UPDATE\<close>.\<close>

definition upsert_cursor_row :: "cursor_row \<Rightarrow> bool \<Rightarrow> database \<Rightarrow> SqlError + unit \<times> database" where
  "upsert_cursor_row row fk d =
     (let hit = (\<lambda>r. cr_account_id r = cr_account_id row)
      in if \<exists>r \<in> set (db_cursors d). hit r
         then Inr ((), d\<lparr> db_cursors := update_rows hit (\<lambda>_. row) (db_cursors d) \<rparr>)
         else if fk \<and> \<not> account_exists (cr_account_id row) d
         then Inl (ConstraintViolation ''FOREIGN KEY constraint failed'')
         else Inr ((), d\<lparr> db_cursors := db_cursors d @ [row] \<rparr>))"

definition upsert_cursor :: "'s db_env \<Rightarrow> string \<Rightarrow> string \<Rightarrow> ('s conn, unit, DbError) st" where
  "upsert_cursor env account_id cursor =
     bindS (now_st env) (\<lambda>now.
     map_errS DbSqlite (sql_execute env ''INSERT INTO sync_cursors''
       (upsert_cursor_row \<lparr> cr_account_id = account_id, cr_cursor = cursor,
          cr_updated_at = timestamp (de_chrono env) now \<rparr>)))"

definition get_cursor :: "'s db_env \<Rightarrow> string \<Rightarrow> ('s conn, string option, DbError) st" where
  "get_cursor env account_id = optional_row (sql_query_row env ''SELECT cursor''
     (\<lambda>d. filter (\<lambda>r. cr_account_id r = account_id) (db_cursors d)) (\<lambda>r. Ok (cr_cursor r)))"

definition delete_cursor_rows :: "string \<Rightarrow> bool \<Rightarrow> database \<Rightarrow> SqlError + nat \<times> database" where
  "delete_cursor_rows account_id fk d =
     Inr (length (filter (\<lambda>r. cr_account_id r = account_id) (db_cursors d)),
       d\<lparr> db_cursors := filter (\<lambda>r. cr_account_id r \<noteq> account_id) (db_cursors d) \<rparr>)"

definition delete_cursor :: "'s db_env \<Rightarrow> string \<Rightarrow> ('s conn, bool, DbError) st" where
  "delete_cursor env account_id =
     bindS (map_errS DbSqlite (sql_execute env ''DELETE FROM sync_cursors'' (delete_cursor_rows account_id)))
       (\<lambda>rows. returnS (0 < rows))"

section \<open>The constraints hold\<close>

lemma account_exists_other [simp]:
  "account_exists i (d\<lparr> db_inodes := v \<rparr>) = account_exists i d"
  "account_exists i (d\<lparr> db_cursors := z \<rparr>) = account_exists i d"
  by (simp_all add: account_exists_def)

lemma insert_inode_row_ok: "db_ok d \<Longrightarrow> insert_inode_row row fk d = Inr (n, d') \<Longrightarrow> db_ok d'"
  by (auto simp: insert_inode_row_def db_ok_def inode_fits_def split: if_splits)

lemma delete_inode_rows_ok: "db_ok d \<Longrightarrow> delete_inode_rows i fk d = Inr (n, d') \<Longrightarrow> db_ok d'"
  by (auto simp: delete_inode_rows_def db_ok_def distinct_map_filter)

lemma upsert_cursor_row_ok: "fk \<Longrightarrow> db_ok d \<Longrightarrow> upsert_cursor_row row fk d = Inr (n, d') \<Longrightarrow> db_ok d'"
proof -
  assume a: "fk" "db_ok d" "upsert_cursor_row row fk d = Inr (n, d')"
  define hit where "hit = (\<lambda>r :: cursor_row. cr_account_id r = cr_account_id row)"
  show ?thesis
  proof (cases "\<exists>r \<in> set (db_cursors d). hit r")
    case True
    then have d': "d' = d\<lparr> db_cursors := update_rows hit (\<lambda>_. row) (db_cursors d) \<rparr>"
      using a(3) by (auto simp: upsert_cursor_row_def Let_def hit_def)
    have "map cr_account_id (update_rows hit (\<lambda>_. row) (db_cursors d)) = map cr_account_id (db_cursors d)"
      by (rule update_rows_same_key) (simp add: hit_def)
    moreover have "\<forall>r \<in> set (update_rows hit (\<lambda>_. row) (db_cursors d)). account_exists (cr_account_id r) d"
      using a(2) by (auto simp: set_update_rows db_ok_def hit_def)
    ultimately show ?thesis using a(2) by (simp add: db_ok_def d')
  next
    case False
    then have "cr_account_id row \<notin> cr_account_id ` set (db_cursors d)" by (auto simp: hit_def)
    with a False show ?thesis
      by (auto simp: upsert_cursor_row_def Let_def hit_def db_ok_def split: if_splits)
  qed
qed

lemma delete_cursor_rows_ok: "db_ok d \<Longrightarrow> delete_cursor_rows i fk d = Inr (n, d') \<Longrightarrow> db_ok d'"
  by (auto simp: delete_cursor_rows_def db_ok_def distinct_map_filter)

lemma insert_inode_preserves [preserve_intros]: "preserves conn_ok (insert_inode env n i)"
  unfolding insert_inode_def by (intro preserve_intros) (rule insert_inode_row_ok)

lemma remove_inode_preserves [preserve_intros]: "preserves conn_ok (remove_inode env i)"
  unfolding remove_inode_def by (intro preserve_intros) (rule delete_inode_rows_ok)

lemma upsert_cursor_preserves [preserve_intros]: "preserves conn_ok (upsert_cursor env i cur)"
  unfolding upsert_cursor_def by (intro preserve_intros) (rule upsert_cursor_row_ok)

lemma delete_cursor_preserves [preserve_intros]: "preserves conn_ok (delete_cursor env i)"
  unfolding delete_cursor_def by (intro preserve_intros) (rule delete_cursor_rows_ok)

lemma inode_query_states [simp]:
  "snd (get_inode_by_file_id env f c) = c" "snd (get_file_id_by_inode env n c) = c"
  "snd (get_max_inode env c) = c" "snd (get_cursor env a c) = c"
  by (simp_all add: get_inode_by_file_id_def get_file_id_by_inode_def get_max_inode_def get_cursor_def)

section \<open>The inode table as a map\<close>

text \<open>The two readings of the table; both are partial functions because both columns are unique.\<close>

definition inode_of :: "database \<Rightarrow> string \<rightharpoonup> u64" where
  "inode_of d f = map_option (\<lambda>r. as_u64 (ir_inode r)) (find (\<lambda>r. ir_file_id r = f) (db_inodes d))"

definition file_of :: "database \<Rightarrow> u64 \<rightharpoonup> string" where
  "file_of d n = map_option ir_file_id (find (\<lambda>r. ir_inode r = as_i64 n) (db_inodes d))"

text \<open>Inodes in the table are the casts of \<open>u64\<close> values.\<close>

definition inodes_cast :: "database \<Rightarrow> bool" where
  "inodes_cast d \<longleftrightarrow> (\<forall>r \<in> set (db_inodes d). as_i64 (as_u64 (ir_inode r)) = ir_inode r)"

lemma filter_find: "find P xs = (case filter P xs of [] \<Rightarrow> None | x # _ \<Rightarrow> Some x)"
  by (induction xs) auto

lemma get_inode_by_file_id_eq:
  assumes "no_faults (de_sql env)"
  shows "get_inode_by_file_id env f c = (Ok (inode_of (cn_db c) f), c)"
  using assms
  by (auto simp: get_inode_by_file_id_def optional_row_def sql_query_row_def no_faults_def inode_of_def
      filter_find split: list.splits)

lemma get_file_id_by_inode_eq:
  assumes "no_faults (de_sql env)"
  shows "get_file_id_by_inode env n c = (Ok (file_of (cn_db c) n), c)"
  using assms
  by (auto simp: get_file_id_by_inode_def optional_row_def sql_query_row_def no_faults_def file_of_def
      filter_find split: list.splits)

lemma find_unique:
  assumes "distinct (map kf rows)"
  shows "find (\<lambda>r. kf r = k) rows = Some r \<longleftrightarrow> r \<in> set rows \<and> kf r = k"
proof
  assume "find (\<lambda>r. kf r = k) rows = Some r"
  then show "r \<in> set rows \<and> kf r = k" by (auto simp: find_Some_iff)
next
  assume "r \<in> set rows \<and> kf r = k"
  then show "find (\<lambda>r. kf r = k) rows = Some r"
    using filter_unique_key [OF assms, of r] by (simp add: filter_find)
qed

text \<open>The two lookups are inverse to each other.\<close>

lemma inode_of_iff:
  assumes "db_ok d"
  shows "inode_of d f = Some n \<longleftrightarrow> (\<exists>r \<in> set (db_inodes d). ir_file_id r = f \<and> as_u64 (ir_inode r) = n)"
proof -
  have "distinct (map ir_file_id (db_inodes d))" using assms by (simp add: db_ok_def)
  from find_unique [OF this, of f] show ?thesis by (auto simp: inode_of_def)
qed

lemma file_of_iff:
  assumes "db_ok d"
  shows "file_of d n = Some f \<longleftrightarrow> (\<exists>r \<in> set (db_inodes d). ir_inode r = as_i64 n \<and> ir_file_id r = f)"
proof -
  have "distinct (map ir_inode (db_inodes d))" using assms by (simp add: db_ok_def)
  from find_unique [OF this, of "as_i64 n"] show ?thesis by (auto simp: file_of_def)
qed

lemma inode_file_inverse:
  assumes "db_ok d" and "inodes_cast d"
  shows "inode_of d f = Some n \<longleftrightarrow> file_of d n = Some f"
  unfolding inode_of_iff [OF assms(1)] file_of_iff [OF assms(1)]
  using assms(2) by (metis as_u64_as_i64 inodes_cast_def)

lemma insert_inode_result:
  assumes "no_faults (de_sql env)" "conn_ok c" "inodes_cast (cn_db c)"
  shows "case insert_inode env n f c of
      (Ok _, c') \<Rightarrow> inode_of (cn_db c) f = None \<and> file_of (cn_db c) n = None \<and>
        inode_of (cn_db c') = (inode_of (cn_db c))(f \<mapsto> n) \<and> file_of (cn_db c') = (file_of (cn_db c))(n \<mapsto> f) \<and>
        inodes_cast (cn_db c')
    | (Err e, c') \<Rightarrow> e = DbConflict (inode_conflict_msg n f) \<and> cn_db c' = cn_db c \<and>
        (inode_of (cn_db c) f \<noteq> None \<or> file_of (cn_db c) n \<noteq> None)
    | (Panicked, c') \<Rightarrow> False"
proof -
  define t where "t = fst (utc_now (de_sys env) (cn_sys c))"
  define row where "row = \<lparr> ir_inode = as_i64 n, ir_file_id = f, ir_created_at = timestamp (de_chrono env) t \<rparr>"
  have ins: "insert_inode env n f c = map_errS (conflict_or (inode_conflict_msg n f))
      (sql_execute env ''INSERT INTO vfs_inodes'' (insert_inode_row row))
      (c\<lparr> cn_sys := snd (utc_now (de_sys env) (cn_sys c)) \<rparr>)"
    by (simp add: insert_inode_def bindS_def now_st_app row_def t_def)
  have none: "inode_of (cn_db c) f = None \<longleftrightarrow> f \<notin> ir_file_id ` set (db_inodes (cn_db c))"
    "file_of (cn_db c) n = None \<longleftrightarrow> as_i64 n \<notin> ir_inode ` set (db_inodes (cn_db c))"
    by (auto simp: inode_of_def file_of_def find_None_iff image_iff)
  show ?thesis
  proof (cases "inode_fits row (db_inodes (cn_db c))")
    case True
    then have free: "f \<notin> ir_file_id ` set (db_inodes (cn_db c))" "as_i64 n \<notin> ir_inode ` set (db_inodes (cn_db c))"
      by (simp_all add: inode_fits_def row_def)
    have app: "find P (xs @ [x]) = (case find P xs of Some y \<Rightarrow> Some y | None \<Rightarrow> if P x then Some x else None)"
      for P and x :: inode_row and xs by (induction xs) auto
    define d' where "d' = (cn_db c)\<lparr> db_inodes := db_inodes (cn_db c) @ [row] \<rparr>"
    have "inode_of d' = (inode_of (cn_db c))(f \<mapsto> n)" "file_of d' = (file_of (cn_db c))(n \<mapsto> f)"
      using free none by (auto simp: fun_eq_iff inode_of_def file_of_def d'_def app row_def split: option.splits)
    moreover have "inodes_cast d'" using assms(3) by (auto simp: inodes_cast_def d'_def row_def)
    ultimately show ?thesis
      using True free none assms(1,2)
      by (simp add: ins map_errS_def sql_execute_def no_faults_def insert_inode_row_def conn_ok_def flip: d'_def)
  next
    case False
    then show ?thesis
      using none assms(1,2)
      by (auto simp: ins map_errS_def sql_execute_def no_faults_def insert_inode_row_def conflict_or_def
          inode_fits_def row_def conn_ok_def)
  qed
qed

lemma get_or_insert_inode_result:
  assumes "no_faults (de_sql env)"
  shows "get_or_insert_inode env f next (c, k) =
    (case inode_of (cn_db c) f of
       Some n \<Rightarrow> (Ok n, (c, k))
     | None \<Rightarrow> (case next k of
         (Ok n, k') \<Rightarrow> (case insert_inode env n f c of (r, c') \<Rightarrow> (map_ok (\<lambda>_. n) r, (c', k')))
       | (Err e, k') \<Rightarrow> (Err e, (c, k'))
       | (Panicked, k') \<Rightarrow> (Panicked, (c, k'))))"
  using get_inode_by_file_id_eq [OF assms, of f c]
  by (auto simp: get_or_insert_inode_def bindS_def on_fst_def on_snd_def returnS_def
      split: option.splits prod.splits outcome.splits)

text \<open>\<open>MAX(inode)\<close> is the largest inode as long as none reaches the sign bit.\<close>

lemma get_max_inode_result:
  assumes "no_faults (de_sql env)"
  shows "get_max_inode env c =
    (Ok (if db_inodes (cn_db c) = [] then 0 else as_u64 (Max (ir_inode ` set (db_inodes (cn_db c))))), c)"
  using assms by (simp add: get_max_inode_def map_errS_def sql_query_row_def no_faults_def)

end
