(* ===== verification/Db_Open.thy ===== *)
theory Db_Open
  imports Db_Files Db_Inodes
begin

text \<open>
  Schema migrations (\<open>migrations.rs\<close>), opening connections (\<open>connection.rs\<close>) and the shared
  \<open>Database\<close> handle (\<open>lib.rs\<close>), whose mutex is poisoned by a call that panics. The
  properties of the whole storage layer are at the end.
\<close>

section \<open>Migrations\<close>

record Migration =
  mg_version :: int
  mg_description :: string
  mg_sql :: string

type_synonym Migrator = "Migration list"

definition pragma :: "'s db_env \<Rightarrow> string \<Rightarrow> ('s conn \<Rightarrow> 'a \<times> 's conn) \<Rightarrow> ('s conn, 'a, DbError) st" where
  "pragma env stmt f c = (case sq_fault (de_sql env) stmt (cn_db c) of
     Some e \<Rightarrow> (Err (DbSqlite (SqlOther e)), c)
   | None \<Rightarrow> (case f c of (x, c') \<Rightarrow> (Ok x, c')))"

definition current_version :: "'s db_env \<Rightarrow> ('s conn, int, DbError) st" where
  "current_version env = pragma env ''PRAGMA user_version'' (\<lambda>c. (db_user_version (cn_db c), c))"

definition pending_migrations :: "'s db_env \<Rightarrow> Migrator \<Rightarrow> ('s conn, Migration list, DbError) st" where
  "pending_migrations env migrations =
     bindS (current_version env) (\<lambda>current. returnS (filter (\<lambda>m. current < mg_version m) migrations))"

definition has_pending_migrations :: "'s db_env \<Rightarrow> Migrator \<Rightarrow> ('s conn, bool, DbError) st" where
  "has_pending_migrations env migrations =
     bindS (pending_migrations env migrations) (\<lambda>pending. returnS (pending \<noteq> []))"

definition execute_batch :: "'s db_env \<Rightarrow> string \<Rightarrow> ('s conn, unit, DbError) st" where
  "execute_batch env sql c = (case sq_batch (de_sql env) sql (cn_db c) of
     Inl e \<Rightarrow> (Err (DbSqlite (SqlOther e)), c)
   | Inr d \<Rightarrow> (Ok (), c\<lparr> cn_db := d \<rparr>))"

definition set_user_version :: "'s db_env \<Rightarrow> int \<Rightarrow> ('s conn, unit, DbError) st" where
  "set_user_version env v = pragma env ''PRAGMA user_version =''
     (\<lambda>c. ((), c\<lparr> cn_db := (cn_db c)\<lparr> db_user_version := v \<rparr> \<rparr>))"

definition apply_migration :: "'s db_env \<Rightarrow> Migration \<Rightarrow> ('s conn, unit, DbError) st" where
  "apply_migration env migration =
     bindS (execute_batch env (mg_sql migration)) (\<lambda>_. set_user_version env (mg_version migration))"

text \<open>A transaction that is dropped before its commit rolls back.\<close>

definition transaction :: "('s conn, 'a, DbError) st \<Rightarrow> ('s conn, 'a, DbError) st" where
  "transaction body c = (case body c of
     (Ok x, c') \<Rightarrow> (Ok x, c')
   | (Err e, c') \<Rightarrow> (Err e, c'\<lparr> cn_db := cn_db c \<rparr>)
   | (Panicked, c') \<Rightarrow> (Panicked, c'\<lparr> cn_db := cn_db c \<rparr>))"

definition migrate :: "'s db_env \<Rightarrow> Migrator \<Rightarrow> ('s conn, int, DbError) st" where
  "migrate env migrations =
     bindS (current_version env) (\<lambda>current.
     bindS (pending_migrations env migrations) (\<lambda>pending.
     if pending = [] then returnS current
     else
       bindS (pragma env ''BEGIN'' (\<lambda>c. ((), c))) (\<lambda>_.
       bindS (transaction
          (bindS (for_eachS (apply_migration env) pending) (\<lambda>_. pragma env ''COMMIT'' (\<lambda>c. ((), c))))) (\<lambda>_.
       current_version env))))"

section \<open>Connections\<close>

record ConnectionConfig =
  cc_path :: string
  cc_enable_wal :: bool
  cc_cache_size :: int
  cc_read_only :: bool

definition connection_config_default :: ConnectionConfig where
  "connection_config_default =
     \<lparr> cc_path = '':memory:'', cc_enable_wal = False, cc_cache_size = - 64000, cc_read_only = False \<rparr>"

definition file_with_wal :: "string \<Rightarrow> ConnectionConfig" where
  "file_with_wal path =
     \<lparr> cc_path = path, cc_enable_wal = True, cc_cache_size = - 64000, cc_read_only = False \<rparr>"

definition read_only_config :: "string \<Rightarrow> ConnectionConfig" where
  "read_only_config path =
     \<lparr> cc_path = path, cc_enable_wal = True, cc_cache_size = - 64000, cc_read_only = True \<rparr>"

definition apply_pragmas :: "'s db_env \<Rightarrow> ConnectionConfig \<Rightarrow> ('s conn, unit, DbError) st" where
  "apply_pragmas env config =
     bindS (pragma env ''PRAGMA foreign_keys'' (\<lambda>c. ((), c\<lparr> cn_foreign_keys := True \<rparr>))) (\<lambda>_.
     bindS (pragma env ''PRAGMA cache_size'' (\<lambda>c. ((), c\<lparr> cn_cache_size := cc_cache_size config \<rparr>))) (\<lambda>_.
     if cc_enable_wal config \<and> cc_path config \<noteq> '':memory:'' \<and> \<not> cc_read_only config then
       bindS (pragma env ''PRAGMA journal_mode'' (\<lambda>c. ((), c\<lparr> cn_wal := True \<rparr>))) (\<lambda>_.
       pragma env ''PRAGMA synchronous'' (\<lambda>c. ((), c)))
     else returnS ()))"

text \<open>
  \<open>store\<close> gives the databases on disk by path. A connection starts with \<open>foreign_keys\<close> off
  and SQLite's default cache.
\<close>

definition connection_open ::
  "'s db_env \<Rightarrow> ConnectionConfig \<Rightarrow> (string \<Rightarrow> database option) \<Rightarrow> 's \<Rightarrow> ('s conn, DbError) outcome" where
  "connection_open env config store s =
     (let start = (\<lambda>d. \<lparr> cn_db = d, cn_foreign_keys = False, cn_read_only = cc_read_only config,
             cn_cache_size = - 2000, cn_wal = False, cn_sys = s \<rparr>);
          opened = (if cc_read_only config then
               (case store (cc_path config) of
                  Some d \<Rightarrow> Ok (start d)
                | None \<Rightarrow> Err (DbSqlite (SqlOther ''unable to open database file'')))
             else if cc_path config = '':memory:'' then Ok (start empty_db)
             else Ok (start (case store (cc_path config) of Some d \<Rightarrow> d | None \<Rightarrow> empty_db)))
      in bindO opened (\<lambda>c.
         case sq_fault (de_sql env) ''OPEN'' (cn_db c) of
           Some e \<Rightarrow> Err (DbSqlite (SqlOther e))
         | None \<Rightarrow> (case apply_pragmas env config c of
             (Ok _, c') \<Rightarrow> Ok c' | (Err e, _) \<Rightarrow> Err e | (Panicked, _) \<Rightarrow> Panicked)))"

definition is_wal_enabled :: "'s db_env \<Rightarrow> ('s conn, bool, DbError) st" where
  "is_wal_enabled env = pragma env ''PRAGMA journal_mode'' (\<lambda>c. (cn_wal c, c))"

section \<open>The shared handle\<close>

record 's Database =
  dbh_conn :: "'s conn"
  dbh_poisoned :: bool

definition migrate_opened ::
  "'s db_env \<Rightarrow> Migrator \<Rightarrow> 's conn \<Rightarrow> ('s Database, DbError) outcome" where
  "migrate_opened env migrations c =
     (if migrations \<noteq> [] then
        (case migrate env migrations c of
           (Ok _, c') \<Rightarrow> Ok \<lparr> dbh_conn = c', dbh_poisoned = False \<rparr>
         | (Err e, _) \<Rightarrow> Err e
         | (Panicked, _) \<Rightarrow> Panicked)
      else Ok \<lparr> dbh_conn = c, dbh_poisoned = False \<rparr>)"

definition database_open ::
  "'s db_env \<Rightarrow> string \<Rightarrow> Migrator \<Rightarrow> (string \<Rightarrow> database option) \<Rightarrow> 's \<Rightarrow> ('s Database, DbError) outcome" where
  "database_open env path migrations store s =
     bindO (connection_open env (file_with_wal path) store s) (migrate_opened env migrations)"

definition database_in_memory :: "'s db_env \<Rightarrow> 's \<Rightarrow> ('s Database, DbError) outcome" where
  "database_in_memory env s =
     bindO (connection_open env connection_config_default (\<lambda>_. None) s)
       (\<lambda>c. Ok \<lparr> dbh_conn = c, dbh_poisoned = False \<rparr>)"

definition in_memory_with_migrations :: "'s db_env \<Rightarrow> Migrator \<Rightarrow> 's \<Rightarrow> ('s Database, DbError) outcome" where
  "in_memory_with_migrations env migrations s =
     bindO (database_in_memory env s) (\<lambda>db. migrate_opened env migrations (dbh_conn db))"

text \<open>\<open>self.conn.lock().unwrap()\<close> panics on a poisoned mutex; a panic of \<open>f\<close> poisons it.\<close>

definition with_conn :: "('s conn, 'a, DbError) st \<Rightarrow> ('s Database, 'a, DbError) st" where
  "with_conn f db =
     (if dbh_poisoned db then (Panicked, db)
      else case f (dbh_conn db) of
        (Panicked, c) \<Rightarrow> (Panicked, \<lparr> dbh_conn = c, dbh_poisoned = True \<rparr>)
      | (r, c) \<Rightarrow> (r, db\<lparr> dbh_conn := c \<rparr>))"

section \<open>Migrating is all or nothing\<close>

definition batches_keep :: "sqlite \<Rightarrow> bool" where
  "batches_keep sq \<longleftrightarrow> (\<forall>sql d d'. sq_batch sq sql d = Inr d' \<longrightarrow> db_ok d \<longrightarrow> db_ok d')"

text \<open>The database after running the migrations one after the other.\<close>

fun run_migrations :: "sqlite \<Rightarrow> Migration list \<Rightarrow> database \<Rightarrow> string + database" where
  "run_migrations sq [] d = Inr d"
| "run_migrations sq (m # ms) d = (case sq_batch sq (mg_sql m) d of
     Inl e \<Rightarrow> Inl e
   | Inr d' \<Rightarrow> run_migrations sq ms (d'\<lparr> db_user_version := mg_version m \<rparr>))"

lemma for_each_apply_migration:
  "for_eachS (apply_migration env) ms c = (Ok (), c') \<Longrightarrow>
   \<exists>d. run_migrations (de_sql env) ms (cn_db c) = Inr d \<and> c' = c\<lparr> cn_db := d \<rparr>"
proof (induction ms arbitrary: c)
  case Nil
  then show ?case by (intro exI [of _ "cn_db c"]) simp
next
  case (Cons m ms)
  then obtain c1 where c1: "apply_migration env m c = (Ok (), c1)"
    "for_eachS (apply_migration env) ms c1 = (Ok (), c')"
    by (auto simp: bindS_eq_Ok)
  from c1(1) obtain d where "sq_batch (de_sql env) (mg_sql m) (cn_db c) = Inr d"
    "c1 = c\<lparr> cn_db := d\<lparr> db_user_version := mg_version m \<rparr> \<rparr>"
    by (auto simp: apply_migration_def bindS_eq_Ok execute_batch_def set_user_version_def pragma_def
        split: sum.splits option.splits)
  with Cons.IH [OF c1(2)] show ?case by auto
qed

text \<open>Migrating changes nothing of a connection but its data.\<close>

definition same_conn :: "'s conn \<Rightarrow> 's conn \<Rightarrow> bool" where
  "same_conn c c' \<longleftrightarrow> cn_foreign_keys c' = cn_foreign_keys c \<and> cn_read_only c' = cn_read_only c \<and>
     cn_cache_size c' = cn_cache_size c \<and> cn_wal c' = cn_wal c \<and> cn_sys c' = cn_sys c"

lemma same_conn_refl: "same_conn c c"
  by (simp add: same_conn_def)

lemma preserves_apply_migration [preserve_intros]: "preserves (same_conn c) (apply_migration env m)"
  unfolding apply_migration_def
proof (intro preserve_intros)
  show "preserves (same_conn c) (execute_batch env (mg_sql m))"
    by (auto simp: preserves_def execute_batch_def same_conn_def split: sum.splits)
  show "preserves (same_conn c) (set_user_version env (mg_version m))"
    by (auto simp: preserves_def set_user_version_def pragma_def same_conn_def split: option.splits)
qed

lemma preserves_pragma_read [preserve_intros]: "preserves P (pragma env stmt (\<lambda>c. (x, c)))"
  by (simp add: preserves_def pragma_def split: option.splits)

lemma run_migrations_version:
  "run_migrations sq ms d = Inr d' \<Longrightarrow> db_user_version d' = (if ms = [] then db_user_version d else mg_version (last ms))"
proof (induction ms arbitrary: d)
  case (Cons m ms)
  then obtain d1 where "run_migrations sq ms (d1\<lparr> db_user_version := mg_version m \<rparr>) = Inr d'"
    by (auto split: sum.splits)
  from Cons.IH [OF this] show ?case by simp
qed simp

lemma run_migrations_ok: "batches_keep sq \<Longrightarrow> db_ok d \<Longrightarrow> run_migrations sq ms d = Inr d' \<Longrightarrow> db_ok d'"
proof (induction ms arbitrary: d)
  case (Cons m ms)
  then obtain d1 where d1: "sq_batch sq (mg_sql m) d = Inr d1"
    "run_migrations sq ms (d1\<lparr> db_user_version := mg_version m \<rparr>) = Inr d'"
    by (auto split: sum.splits)
  then have "db_ok d1" using Cons.prems by (simp add: batches_keep_def)
  then have "db_ok (d1\<lparr> db_user_version := mg_version m \<rparr>)" by (simp add: db_ok_def account_exists_def)
  with Cons d1 show ?case by blast
qed simp

definition pending_on :: "database \<Rightarrow> Migrator \<Rightarrow> Migration list" where
  "pending_on d migrations = filter (\<lambda>m. db_user_version d < mg_version m) migrations"

text \<open>
  Either nothing happened to the data, or all pending migrations ran; in both cases a
  success reports the resulting version.
\<close>

lemma migrate_cases:
  assumes m: "migrate env migrations c = (r, c')"
  defines "pending \<equiv> pending_on (cn_db c) migrations"
  shows "same_conn c c' \<and>
    (cn_db c' = cn_db c \<and> (\<forall>v. r = Ok v \<longrightarrow> pending = [] \<and> v = db_user_version (cn_db c)) \<or>
     run_migrations (de_sql env) pending (cn_db c) = Inr (cn_db c') \<and> pending \<noteq> [] \<and>
       (\<forall>v. r = Ok v \<longrightarrow> v = mg_version (last pending)))"
proof (cases "sq_fault (de_sql env) ''PRAGMA user_version'' (cn_db c)")
  case (Some e)
  with m show ?thesis by (auto simp: migrate_def bindS_def current_version_def pragma_def same_conn_def)
next
  case v: None
  show ?thesis
  proof (cases "pending = [] \<or> sq_fault (de_sql env) ''BEGIN'' (cn_db c) \<noteq> None")
    case True
    with m v show ?thesis
      by (auto simp: migrate_def bindS_def current_version_def pending_migrations_def pragma_def pending_def
          pending_on_def same_conn_def split: if_splits)
  next
    case False
    define body where "body = bindS (for_eachS (apply_migration env) pending)
        (\<lambda>_. pragma env ''COMMIT'' (\<lambda>c. ((), c)))"
    have t: "bindS (transaction body) (\<lambda>_. current_version env) c = (r, c')"
      using m v False
      by (auto simp: migrate_def bindS_def current_version_def pending_migrations_def pragma_def pending_def
          pending_on_def body_def split: option.splits)
    obtain rb c1 where b: "body c = (rb, c1)" by fastforce
    have keep: "same_conn c c1"
    proof -
      have "preserves (same_conn c) body" unfolding body_def by (intro preserve_intros)
      from preservesD [OF this _ b] show ?thesis by (simp add: same_conn_refl)
    qed
    show ?thesis
    proof (cases "\<exists>u. rb = Ok u")
      case err: False
      then have "cn_db c' = cn_db c \<and> c' = c1\<lparr> cn_db := cn_db c \<rparr> \<and> (\<forall>v. r \<noteq> Ok v)"
        using t b by (cases rb) (auto simp: transaction_def bindS_def)
      moreover have "same_conn c (c1\<lparr> cn_db := cn_db c \<rparr>)" using keep by (simp add: same_conn_def)
      ultimately show ?thesis by auto
    next
      case True
      then have ok: "body c = (Ok (), c1)" using b by auto
      then have run: "run_migrations (de_sql env) pending (cn_db c) = Inr (cn_db c1)"
        using for_each_apply_migration [of env pending c]
        by (fastforce simp: body_def bindS_eq_Ok pragma_def split: option.splits)
      have "current_version env c1 = (r, c')" using t ok by (simp add: transaction_def bindS_def)
      then have "c' = c1" "\<forall>v. r = Ok v \<longrightarrow> v = db_user_version (cn_db c1)"
        by (auto simp: current_version_def pragma_def split: option.splits)
      with run keep False run_migrations_version [OF run] show ?thesis by auto
    qed
  qed
qed

section \<open>Reachable databases\<close>

text \<open>
  What SQLite promises on the statements this code executes: no failures of its own, queries
  visit every row once, and the migrations' statements keep the constraints.
\<close>

definition sqlite_works :: "'s db_env \<Rightarrow> bool" where
  "sqlite_works env \<longleftrightarrow> no_faults (de_sql env) \<and> scans_rows (de_sql env)"

lemma apply_pragmas_conn_ok:
  assumes "apply_pragmas env config c = (Ok (), c')" and "db_ok (cn_db c)" and "\<not> cn_read_only c"
  shows "conn_ok c'"
  using assms
  by (auto simp: apply_pragmas_def bindS_eq_Ok pragma_def conn_ok_def split: option.splits if_splits)

lemma connection_open_conn_ok:
  assumes "connection_open env config store s = Ok c" and "\<not> cc_read_only config"
    and "\<forall>d \<in> ran store. db_ok d"
  shows "conn_ok c"
proof -
  have "db_ok empty_db" by (simp add: empty_db_def db_ok_def)
  moreover have "db_ok d" if "store p = Some d" for p d using assms(3) that by (auto simp: ran_def)
  ultimately show ?thesis
    using assms(1,2)
    by (auto simp: connection_open_def Let_def split: if_splits option.splits prod.splits outcome.splits
        intro: apply_pragmas_conn_ok)
qed

lemma migrate_conn_ok:
  assumes "batches_keep (de_sql env)" and "conn_ok c" and "migrate env ms c = (r, c')"
  shows "conn_ok c'"
  using migrate_cases [OF assms(3)] assms(1,2) run_migrations_ok
  by (auto simp: conn_ok_def same_conn_def)

lemma migrate_opened_conn_ok:
  assumes "batches_keep (de_sql env)" and "conn_ok c" and "migrate_opened env ms c = Ok db"
  shows "conn_ok (dbh_conn db)"
  using assms migrate_conn_ok
  by (auto simp: migrate_opened_def split: if_splits prod.splits outcome.splits)

text \<open>
  Every handle that a program can hold: opened with some migrations, then used through
  \<open>with_conn\<close> by any sequence of the crate's operations, whatever their outcomes.
\<close>

inductive db_history :: "'s db_env \<Rightarrow> (string \<Rightarrow> database option) \<Rightarrow> 's Database \<Rightarrow> bool" for env store where
  opened: "database_open env path ms store s = Ok db \<Longrightarrow> db_history env store db"
| create_account: "db_history env store db \<Longrightarrow> db_history env store (snd (with_conn (create_account env a) db))"
| get_account_by_id: "db_history env store db \<Longrightarrow> db_history env store (snd (with_conn (get_account_by_id env i) db))"
| list_accounts: "db_history env store db \<Longrightarrow> db_history env store (snd (with_conn (list_accounts env b) db))"
| update_account: "db_history env store db \<Longrightarrow> db_history env store (snd (with_conn (update_account env a) db))"
| delete_account: "db_history env store db \<Longrightarrow> db_history env store (snd (with_conn (delete_account env i) db))"
| create_file: "db_history env store db \<Longrightarrow> db_history env store (snd (with_conn (create_file env f) db))"
| query_file: "db_history env store db \<Longrightarrow> db_history env store (snd (with_conn (query_file env stmt cond) db))"
| list_files: "db_history env store db \<Longrightarrow> db_history env store (snd (with_conn (list_files env i st) db))"
| update_file: "db_history env store db \<Longrightarrow> db_history env store (snd (with_conn (update_file env f) db))"
| delete_file: "db_history env store db \<Longrightarrow> db_history env store (snd (with_conn (delete_file env n) db))"
| delete_files_by_account: "db_history env store db \<Longrightarrow>
    db_history env store (snd (with_conn (delete_files_by_account env i) db))"
| insert_inode: "db_history env store db \<Longrightarrow> db_history env store (snd (with_conn (insert_inode env w k) db))"
| remove_inode: "db_history env store db \<Longrightarrow> db_history env store (snd (with_conn (remove_inode env k) db))"
| upsert_cursor: "db_history env store db \<Longrightarrow> db_history env store (snd (with_conn (upsert_cursor env k cur) db))"
| delete_cursor: "db_history env store db \<Longrightarrow> db_history env store (snd (with_conn (delete_cursor env k) db))"

lemma with_conn_conn_ok:
  assumes "preserves conn_ok f" and "conn_ok (dbh_conn db)"
  shows "conn_ok (dbh_conn (snd (with_conn f db)))"
proof -
  obtain r c where f: "f (dbh_conn db) = (r, c)" by fastforce
  have "conn_ok c" using preservesD [OF assms f] .
  with f assms(2) show ?thesis by (cases r) (simp_all add: with_conn_def)
qed

lemma queries_preserve [preserve_intros]:
  "preserves P (get_account_by_id env i)" "preserves P (list_accounts env b)"
  "preserves P (query_file env stmt cond)" "preserves P (list_files env i st)"
  by (simp_all add: preserves_def)

lemma db_history_conn_ok:
  assumes "batches_keep (de_sql env)" and "\<forall>d \<in> ran store. db_ok d" and "db_history env store db"
  shows "conn_ok (dbh_conn db)"
  using assms(3)
proof (induction rule: db_history.induct)
  case (opened path ms s db)
  then obtain c where c: "connection_open env (file_with_wal path) store s = Ok c" "migrate_opened env ms c = Ok db"
    by (auto simp: database_open_def bindO_Ok_iff)
  have "\<not> cc_read_only (file_with_wal path)" by (simp add: file_with_wal_def)
  from connection_open_conn_ok [OF c(1) this assms(2)] show ?case
    by (rule migrate_opened_conn_ok [OF assms(1) _ c(2)])
qed (assumption | rule with_conn_conn_ok | intro preserve_intros)+

section \<open>What single operations do\<close>

lemma create_account_result:
  assumes "no_faults (de_sql env)" and "conn_ok c"
  shows "create_account env a c =
    (if account_fits (account_params (de_chrono env) a) (db_accounts (cn_db c))
     then (Ok (acc_id a),
       c\<lparr> cn_db := (cn_db c)\<lparr> db_accounts := db_accounts (cn_db c) @ [account_params (de_chrono env) a] \<rparr> \<rparr>)
     else (Err (DbConflict ''Account with this provider and email already exists''), c))"
  using assms
  by (simp add: create_account_def st_defs sql_execute_def no_faults_def insert_account_row_def conn_ok_def
      conflict_or_def)

lemma create_file_result:
  fixes f :: File
  assumes "no_faults (de_sql env)" and "conn_ok c"
  defines "row \<equiv> (file_params (de_chrono env) f)\<lparr> fr_id := db_files_seq (cn_db c) + 1 \<rparr>"
  shows "create_file env f c =
    (if 2 ^ 63 \<le> db_files_seq (cn_db c) + 1 then (Err (DbSqlite (SqlOther ''database or disk is full'')), c)
     else if file_fits row (db_files (cn_db c)) \<and> account_exists (account_id_str (f_account_id f)) (cn_db c)
     then (Ok (db_files_seq (cn_db c) + 1),
       c\<lparr> cn_db := (cn_db c)\<lparr> db_files := db_files (cn_db c) @ [row],
            db_files_seq := db_files_seq (cn_db c) + 1 \<rparr> \<rparr>)
     else (Err (DbConflict ''File with this account and provider_file_id already exists''), c))"
  using assms(1,2)
  by (simp add: create_file_def map_errS_def sql_execute_def no_faults_def insert_file_row_def conn_ok_def
      conflict_or_def Let_def row_def)

lemma file_key_free:
  assumes "db_ok d" and "f \<notin> fr_id ` set (db_files d)"
  shows "filter (\<lambda>r. fr_id r = f) (db_files d) = []"
  using assms by (auto simp: filter_empty_conv)

lemma stored_file_id: "(stored_file f)\<lparr> f_id := i \<rparr> = stored_file (f\<lparr> f_id := i \<rparr>)"
  by (simp add: stored_file_def)

lemma update_file_result:
  fixes f :: File
  assumes "no_faults (de_sql env)" and "conn_ok c"
  defines "new \<equiv> file_params (de_chrono env) (f\<lparr> f_updated_at := fst (utc_now (de_sys env) (cn_sys c)) \<rparr>)"
    and "c1 \<equiv> c\<lparr> cn_sys := snd (utc_now (de_sys env) (cn_sys c)) \<rparr>"
  shows "update_file env f c =
    (case update_file_row new True (cn_db c) of
       Inl e \<Rightarrow> (Err (DbSqlite e), c1)
     | Inr (n, d) \<Rightarrow> (Ok (0 < n), c1\<lparr> cn_db := d \<rparr>))"
  using assms(1,2)
  by (auto simp: update_file_def bindS_def map_errS_def now_st_app sql_execute_def no_faults_def conn_ok_def
      new_def c1_def split: sum.splits prod.splits)

section \<open>Properties of the storage layer\<close>

definition sample_env :: "nat db_env" where
  "sample_env = \<lparr> de_sys = \<lparr> new_v4 = (\<lambda>n. (show_nat n, n + 1)), utc_now = (\<lambda>n. (int (n mod 1000) * 1500000000, n + 1)) \<rparr>,
     de_chrono = chrono_utc, de_sql = plain_sqlite \<rparr>"

definition sample_account :: Account where
  "sample_account = \<lparr> acc_id = AccountId ''acc'', acc_provider = GoogleDrive, acc_email = ''a@b.c'',
     acc_access_token = ''t'', acc_refresh_token = None, acc_token_expires_at = Some 1500000000,
     acc_is_active = True, acc_created_at = 2500000000, acc_updated_at = 2500000000 \<rparr>"

definition sample_file :: File where
  "sample_file = \<lparr> f_id = 0, f_account_id = AccountId ''acc'', f_provider_file_id = FileId ''f1'',
     f_path = cloud_path_new ''/docs/a'', f_name = ''a'', f_size = Some (- 1), f_content_hash = None,
     f_is_folder = False, f_state = Pending, f_modified_at = 1500000000, f_synced_at = Some 1700000000,
     f_created_at = 2500000000, f_updated_at = 2500000000 \<rparr>"

definition sample_db :: database where
  "sample_db = empty_db\<lparr> db_accounts := [account_params chrono_utc sample_account],
     db_files := [(file_params chrono_utc sample_file)\<lparr> fr_id := 1 \<rparr>], db_files_seq := 1,
     db_cursors := [\<lparr> cr_account_id = ''acc'', cr_cursor = ''7'', cr_updated_at = 0 \<rparr>] \<rparr>"

definition sample_conn :: "database \<Rightarrow> nat conn" where
  "sample_conn d = \<lparr> cn_db = d, cn_foreign_keys = True, cn_read_only = False, cn_cache_size = - 64000,
     cn_wal = True, cn_sys = 0 \<rparr>"

lemma sample_env_works [simp]: "sqlite_works sample_env" "batches_keep (de_sql sample_env)"
  "de_chrono sample_env = chrono_utc"
  by (simp_all add: sqlite_works_def sample_env_def batches_keep_def plain_sqlite_def db_ok_def account_exists_def
      flip: plain_sqlite_def)
    (simp_all add: plain_sqlite_def no_faults_def scans_rows_def)

lemma sample_conn_ok [simp]: "conn_ok (sample_conn sample_db)" "conn_ok (sample_conn empty_db)"
  by (simp_all add: conn_ok_def sample_conn_def sample_db_def empty_db_def db_ok_def account_exists_def
      account_params_def sample_account_def sample_file_def provider_check_def
      state_check_def)

lemma sample_stamps [simp]: "account_stamps_ok chrono_utc sample_account" "file_stamps_ok chrono_utc sample_file"
  by (simp_all add: account_stamps_ok_def file_stamps_ok_def sample_account_def sample_file_def stamp_ok_utc)

text \<open>
  C13: In every database handle a program can reach by opening a database and calling any
  sequence of the crate's operations, whatever fails on the way, the declared constraints
  hold: keys and \<open>UNIQUE\<close> columns are unique, \<open>CHECK\<close>s are satisfied, and every file and every
  cursor belongs to an existing account. The texts of the migrations are assumed to keep them.
\<close>

theorem database_constraints_hold:
  assumes "batches_keep (de_sql env)" and "\<forall>d \<in> ran store. db_ok d" and "db_history env store db"
  shows "db_ok (cn_db (dbh_conn db)) \<and> cn_foreign_keys (dbh_conn db)"
  using db_history_conn_ok [OF assms] by (simp add: conn_ok_def)

theorem database_constraints_hold_witness:
  "\<exists>db. db_history sample_env Map.empty db \<and> db_ok (cn_db (dbh_conn db)) \<and> cn_foreign_keys (dbh_conn db)"
proof -
  obtain db where "database_open sample_env ''x.db'' [] Map.empty 0 = Ok db"
    by (simp add: database_open_def connection_open_def file_with_wal_def Let_def apply_pragmas_def bindS_def
        pragma_def migrate_opened_def sample_env_def plain_sqlite_def)
  then have "db_history sample_env Map.empty db" by (rule db_history.opened)
  with database_constraints_hold [of sample_env Map.empty db] show ?thesis by auto
qed

text \<open>
  An account that was created is found again by its identifier, with every field as it
  was except that times are cut to whole seconds; the accounts that were there stay.
\<close>

lemma account_round_trip:
  assumes "sqlite_works env" and "conn_ok c" and "account_stamps_ok (de_chrono env) a"
    and "create_account env a c = (Ok i, c')"
  shows "i = acc_id a \<and> get_account_by_id env i c' = (Ok (Some (stored_account a)), c') \<and>
    (\<exists>row. db_accounts (cn_db c') = db_accounts (cn_db c) @ [row])"
proof -
  let ?row = "account_params (de_chrono env) a"
  have c': "i = acc_id a" "c' = c\<lparr> cn_db := (cn_db c)\<lparr> db_accounts := db_accounts (cn_db c) @ [?row] \<rparr> \<rparr>"
    using assms(4) create_account_result [of env c a] assms(1,2)
    by (auto simp: sqlite_works_def split: if_splits)
  have ok: "conn_ok c'" using preservesD [OF create_account_preserves assms(2,4)] .
  have "get_account_by_id env i c' = (map_err DbSqlite (map_ok Some (account_from_row (de_chrono env) ?row)), c')"
    using assms(1) c' by (intro get_account_by_id_found ok) (auto simp: sqlite_works_def account_params_def)
  then show ?thesis using c' account_from_row_params [OF assms(3)] by simp
qed

text \<open>
  Creating an account fails exactly when its identifier or its pair of provider and email
  is taken, with \<open>Conflict\<close> and an unchanged database.
\<close>

lemma create_account_conflict_iff:
  assumes "sqlite_works env" and "conn_ok c"
  shows "if \<exists>r \<in> set (db_accounts (cn_db c)). ar_id r = account_id_str (acc_id a) \<or>
           ar_provider r = provider_column (acc_provider a) \<and> ar_email r = acc_email a
    then create_account env a c =
      (Err (DbConflict ''Account with this provider and email already exists''), c)
    else fst (create_account env a c) = Ok (acc_id a)"
proof -
  have "account_fits (account_params (de_chrono env) a) (db_accounts (cn_db c)) \<longleftrightarrow>
      \<not> (\<exists>r \<in> set (db_accounts (cn_db c)). ar_id r = account_id_str (acc_id a) \<or>
            ar_provider r = provider_column (acc_provider a) \<and> ar_email r = acc_email a)"
    by (auto simp: account_fits_def account_params_def image_iff)
  with create_account_result [of env c a] assms show ?thesis by (simp add: sqlite_works_def)
qed

text \<open>
  C24: A file that was created gets an identifier larger than any given out before, and is
  found under it and under its account and provider identifier, with every field as it was
  (sizes over the whole \<open>u64\<close> range included) except that times are cut to whole seconds and
  the path is normalised; the other files stay.
\<close>

theorem file_round_trip:
  assumes "sqlite_works env" and "conn_ok c" and "file_stamps_ok (de_chrono env) f"
    and "create_file env f c = (Ok i, c')"
  shows "(\<forall>r \<in> set (db_files (cn_db c)). fr_id r < i) \<and>
    get_file_by_id env i c' = (Ok (Some (stored_file (f\<lparr> f_id := i \<rparr>))), c') \<and>
    get_file_by_provider_id env (f_account_id f) (f_provider_file_id f) c' =
      (Ok (Some (stored_file (f\<lparr> f_id := i \<rparr>))), c') \<and>
    (\<exists>row. db_files (cn_db c') = db_files (cn_db c) @ [row])"
proof -
  have nf: "no_faults (de_sql env)" and sc: "scans_rows (de_sql env)" using assms(1) by (auto simp: sqlite_works_def)
  define row where "row = (file_params (de_chrono env) f)\<lparr> fr_id := i \<rparr>"
  have i: "i = db_files_seq (cn_db c) + 1" "db_files (cn_db c') = db_files (cn_db c) @ [row]"
    using assms(4) create_file_result [OF nf assms(2), of f] by (auto simp: row_def split: if_splits)
  have ok: "conn_ok c'" using preservesD [OF create_file_preserves assms(2,4)] .
  then have dist: "distinct (map fr_id (db_files (cn_db c')))"
    "distinct (map (\<lambda>r. (fr_account_id r, fr_provider_file_id r)) (db_files (cn_db c')))"
    by (simp_all add: conn_ok_def db_ok_def)
  have mem: "row \<in> set (db_files (cn_db c'))" using i by simp
  have "file_from_row (de_chrono env) row = Ok (stored_file (f\<lparr> f_id := i \<rparr>))"
    using file_from_row_params [OF assms(3)] by (simp add: row_def file_from_row_id stored_file_id)
  moreover have "filter (\<lambda>r. fr_id r = i) (db_files (cn_db c')) = [row]"
    using filter_unique_key [OF dist(1) mem] by (simp add: row_def)
  moreover have "filter (\<lambda>r. (fr_account_id r, fr_provider_file_id r) =
      (account_id_str (f_account_id f), file_id_str (f_provider_file_id f))) (db_files (cn_db c')) = [row]"
    using filter_unique_key [OF dist(2) mem] by (simp add: row_def)
  moreover have "\<forall>r \<in> set (db_files (cn_db c)). fr_id r < i"
    using assms(2) i(1) by (fastforce simp: conn_ok_def db_ok_def)
  ultimately show ?thesis
    using get_file_by_id_result [OF nf sc ok] get_file_by_provider_id_result [OF nf sc ok] i(2) by simp
qed

theorem file_round_trip_witness:
  "\<exists>c'. create_file sample_env (sample_file\<lparr> f_provider_file_id := FileId ''f2'' \<rparr>) (sample_conn sample_db) = (Ok 2, c') \<and>
     get_file_by_id sample_env 2 c' =
       (Ok (Some (stored_file (sample_file\<lparr> f_provider_file_id := FileId ''f2'', f_id := 2 \<rparr>))), c')"
proof -
  let ?f = "sample_file\<lparr> f_provider_file_id := FileId ''f2'' \<rparr>"
  have "no_faults (de_sql sample_env)" using sample_env_works(1) by (simp add: sqlite_works_def)
  from create_file_result [OF this sample_conn_ok(1), of ?f]
  obtain c' where c': "create_file sample_env ?f (sample_conn sample_db) = (Ok 2, c')"
    by (simp add: sample_conn_def sample_db_def file_fits_def account_exists_def account_params_def
        sample_file_def sample_account_def empty_db_def state_check_def file_params_def)
  have "file_stamps_ok (de_chrono sample_env) ?f"
    using sample_stamps(2) by (simp add: file_stamps_ok_def)
  from file_round_trip [OF sample_env_works(1) sample_conn_ok(1) this c'] c' show ?thesis by auto
qed

text \<open>
  Updating a file that exists replaces exactly that file: it is then read back with the
  new fields, its creation time is kept, its update time is the clock's, and no other row
  changes. Updating a file that does not exist changes nothing and says so.
\<close>

lemma file_update_round_trip:
  assumes "sqlite_works env" and "conn_ok c" and "update_file env f c = (Ok b, c')"
  shows "b = (f_id f \<in> fr_id ` set (db_files (cn_db c))) \<and>
    filter (\<lambda>r. fr_id r \<noteq> f_id f) (db_files (cn_db c')) = filter (\<lambda>r. fr_id r \<noteq> f_id f) (db_files (cn_db c)) \<and>
    db_accounts (cn_db c') = db_accounts (cn_db c) \<and>
    (\<forall>old. old \<in> set (db_files (cn_db c)) \<and> fr_id old = f_id f \<longrightarrow>
       get_file_by_id env (f_id f) c' = (map_err DbSqlite (map_ok Some (file_from_row (de_chrono env)
         ((file_params (de_chrono env) (f\<lparr> f_updated_at := fst (utc_now (de_sys env) (cn_sys c)) \<rparr>))
            \<lparr> fr_created_at := fr_created_at old \<rparr>))), c'))"
proof -
  have nf: "no_faults (de_sql env)" and sc: "scans_rows (de_sql env)" using assms(1) by (auto simp: sqlite_works_def)
  define new where "new = file_params (de_chrono env) (f\<lparr> f_updated_at := fst (utc_now (de_sys env) (cn_sys c)) \<rparr>)"
  define hit where "hit = (\<lambda>r :: file_row. fr_id r = f_id f)"
  obtain n d where d: "update_file_row new True (cn_db c) = Inr (n, d)" "b = (0 < n)"
    "cn_db c' = d"
    using assms(3) update_file_result [OF nf assms(2), of f]
    by (auto simp: new_def split: sum.splits prod.splits)
  have nd: "n = length (filter hit (db_files (cn_db c)))"
    "d = (cn_db c)\<lparr> db_files := update_rows hit (set_file_row new) (db_files (cn_db c)) \<rparr>"
    using d(1) by (auto simp: update_file_row_def Let_def hit_def new_def split: if_splits)
  have b: "b = (f_id f \<in> fr_id ` set (db_files (cn_db c)))"
    using d(2) nd(1) by (auto simp: hit_def filter_empty_conv image_iff) metis+
  have others: "filter (\<lambda>r. \<not> hit r) (update_rows hit (set_file_row new) rows) = filter (\<lambda>r. \<not> hit r) rows" for rows
    by (induction rows) (auto simp: update_rows_def hit_def)
  have ok: "conn_ok c'" using preservesD [OF update_file_preserves assms(2,3)] .
  then have dist: "distinct (map fr_id (db_files (cn_db c')))" by (simp add: conn_ok_def db_ok_def)
  have "get_file_by_id env (f_id f) c' =
      (map_err DbSqlite (map_ok Some (file_from_row (de_chrono env) (new\<lparr> fr_created_at := fr_created_at old \<rparr>))), c')"
    if "old \<in> set (db_files (cn_db c))" "fr_id old = f_id f" for old
  proof -
    have "set_file_row new old \<in> set (db_files (cn_db c'))"
      using that d(3) nd(2) by (auto simp: set_update_rows hit_def)
    from filter_unique_key [OF dist this] have "filter hit (db_files (cn_db c')) = [set_file_row new old]"
      using that by (simp add: hit_def)
    moreover have "set_file_row new old = new\<lparr> fr_created_at := fr_created_at old \<rparr>"
      using that by (simp add: set_file_row_def new_def)
    ultimately show ?thesis using get_file_by_id_result [OF nf sc ok, of "f_id f"] by (simp add: hit_def)
  qed
  with b others d(3) nd(2) show ?thesis by (auto simp: hit_def simp flip: new_def)
qed

text \<open>
  Deleting an account deletes its files and its cursor with it and leaves every other
  row of every table as it was.
\<close>

lemma delete_account_cascades:
  assumes "sqlite_works env" and "conn_ok c"
  shows "delete_account env i c =
    (Ok (account_exists (account_id_str i) (cn_db c)),
     c\<lparr> cn_db := (cn_db c)\<lparr>
       db_accounts := filter (\<lambda>r. ar_id r \<noteq> account_id_str i) (db_accounts (cn_db c)),
       db_files := filter (\<lambda>r. fr_account_id r \<noteq> account_id_str i) (db_files (cn_db c)),
       db_cursors := filter (\<lambda>r. cr_account_id r \<noteq> account_id_str i) (db_cursors (cn_db c)) \<rparr> \<rparr>)"
proof -
  have "(filter (\<lambda>r. ar_id r = account_id_str i) (db_accounts (cn_db c)) \<noteq> []) =
      account_exists (account_id_str i) (cn_db c)"
    by (auto simp: account_exists_def filter_empty_conv image_iff) metis
  then show ?thesis
    using assms
    by (simp add: delete_account_def st_defs sql_execute_def delete_account_row_def sqlite_works_def no_faults_def
        conn_ok_def)
qed

text \<open>
  Listing an account's files yields exactly the stored files of that account that are in
  the requested state, each once, sorted by path.
\<close>

lemma list_files_complete:
  assumes "sqlite_works env" and "conn_ok c" and "list_files env i st c = (Ok fs, c')"
  shows "c' = c \<and> (\<exists>rows. sorted_wrt (\<le>) (map fr_path rows) \<and>
    mset rows = {# r \<in># mset (db_files (cn_db c)). fr_account_id r = account_id_str i \<and>
      (case st of None \<Rightarrow> True | Some s \<Rightarrow> fr_state r = state_column s) #} \<and>
    list_all2 (\<lambda>r f. file_from_row (de_chrono env) r = Ok f) rows fs)"
proof -
  define rows where "rows = sort_key fr_path (filter (\<lambda>r. fr_account_id r = account_id_str i \<and>
      (case st of None \<Rightarrow> True | Some s \<Rightarrow> fr_state r = state_column s))
        (sq_scan_files (de_sql env) ''SELECT files'' (db_files (cn_db c))))"
  have "collect_ok (file_from_row (de_chrono env)) rows = Ok fs" and c': "c' = c"
    using assms(1,3)
    by (auto simp: list_files_def map_errS_def sql_query_map_def sqlite_works_def no_faults_def rows_def)
  then have "list_all2 (\<lambda>r f. file_from_row (de_chrono env) r = Ok f) rows fs"
    by (simp add: collect_ok_Ok_iff)
  moreover have "mset rows = {# r \<in># mset (db_files (cn_db c)). fr_account_id r = account_id_str i \<and>
      (case st of None \<Rightarrow> True | Some s \<Rightarrow> fr_state r = state_column s) #}"
    using assms(1) by (simp add: rows_def sqlite_works_def scans_rows_def)
  moreover have "sorted_wrt (\<le>) (map fr_path rows)" by (simp add: rows_def)
  ultimately show ?thesis using c' by blast
qed

text \<open>
  C25: A migration run is all or nothing: afterwards the database is either exactly what it
  was, or the result of running all the pending migrations in the given order; a success
  reports the version of the last one, and an error before the commit leaves no trace.
\<close>

theorem migrate_all_or_nothing:
  assumes "migrate env migrations c = (r, c')"
  shows "(cn_db c' = cn_db c \<and> (\<forall>v. r = Ok v \<longrightarrow> pending_on (cn_db c) migrations = [] \<and>
       v = db_user_version (cn_db c))) \<or>
    (run_migrations (de_sql env) (pending_on (cn_db c) migrations) (cn_db c) = Inr (cn_db c') \<and>
     (\<forall>v. r = Ok v \<longrightarrow> v = mg_version (last (pending_on (cn_db c) migrations)) \<and> v = db_user_version (cn_db c')))"
proof -
  let ?p = "pending_on (cn_db c) migrations"
  from migrate_cases [OF assms] consider
      (same) "cn_db c' = cn_db c" "\<forall>v. r = Ok v \<longrightarrow> ?p = [] \<and> v = db_user_version (cn_db c)"
    | (ran) "run_migrations (de_sql env) ?p (cn_db c) = Inr (cn_db c')" "?p \<noteq> []"
        "\<forall>v. r = Ok v \<longrightarrow> v = mg_version (last ?p)" by blast
  then show ?thesis
  proof cases
    case same
    then show ?thesis by simp
  next
    case ran
    have "db_user_version (cn_db c') = mg_version (last ?p)"
      using run_migrations_version [OF ran(1)] ran(2) by simp
    with ran show ?thesis by simp
  qed
qed

definition sample_migrations :: Migrator where
  "sample_migrations = [\<lparr> mg_version = 1, mg_description = ''accounts'', mg_sql = ''a'' \<rparr>,
     \<lparr> mg_version = 2, mg_description = ''files'', mg_sql = ''f'' \<rparr>]"

lemma sample_migrate:
  "migrate sample_env sample_migrations (sample_conn empty_db) =
     (Ok 2, sample_conn (empty_db\<lparr> db_user_version := 2, db_schema := [''a'', ''f''] \<rparr>))"
  by (simp add: migrate_def bindS_def current_version_def pragma_def pending_migrations_def sample_env_def
      plain_sqlite_def sample_migrations_def sample_conn_def empty_db_def transaction_def apply_migration_def
      execute_batch_def set_user_version_def)

theorem migrate_all_or_nothing_witness:
  "run_migrations plain_sqlite sample_migrations empty_db = Inr (empty_db\<lparr> db_user_version := 2, db_schema := [''a'', ''f''] \<rparr>)"
  using migrate_all_or_nothing [OF sample_migrate]
  by (auto simp: sample_env_def sample_conn_def empty_db_def pending_on_def sample_migrations_def)

text \<open>
  With versions in ascending order, a second run of the same migrations finds nothing to
  do: it changes nothing and reports the same version.
\<close>

lemma migrate_idempotent:
  assumes "sqlite_works env" and "sorted_wrt (\<le>) (map mg_version migrations)"
    and "migrate env migrations c = (Ok v, c')"
  shows "migrate env migrations c' = (Ok v, c')"
proof -
  let ?p = "pending_on (cn_db c) migrations"
  have v: "v = db_user_version (cn_db c') \<and> (?p = [] \<and> cn_db c' = cn_db c \<or> ?p \<noteq> [] \<and> v = mg_version (last ?p))"
  proof -
    from migrate_cases [OF assms(3)] consider
        (same) "cn_db c' = cn_db c" "?p = []" "v = db_user_version (cn_db c)"
      | (ran) "run_migrations (de_sql env) ?p (cn_db c) = Inr (cn_db c')" "?p \<noteq> []" "v = mg_version (last ?p)"
      by blast
    then show ?thesis
    proof cases
      case ran
      then show ?thesis using run_migrations_version [OF ran(1)] by simp
    qed simp
  qed
  have le: "mg_version m \<le> mg_version (last ?p)" if m: "m \<in> set ?p" for m
  proof -
    have "sorted_wrt (\<le>) (map mg_version ?p)"
      using assms(2) by (auto simp: pending_on_def sorted_wrt_map intro: sorted_wrt_filter)
    moreover have "sorted_wrt (\<le>) (map mg_version xs) \<Longrightarrow> m \<in> set xs \<Longrightarrow> mg_version m \<le> mg_version (last xs)"
      for xs :: "Migration list" by (induction xs) auto
    ultimately show ?thesis using m by blast
  qed
  have "pending_on (cn_db c') migrations = []"
  proof (cases "?p = []")
    case True
    with v show ?thesis by auto
  next
    case False
    then have vl: "v = mg_version (last ?p)" using v by simp
    have "last ?p \<in> set ?p" using False by simp
    then have old: "db_user_version (cn_db c) < v" using vl by (simp add: pending_on_def)
    have "mg_version m \<le> v" if "m \<in> set migrations" for m
      using le [of m] old that vl by (cases "m \<in> set ?p") (auto simp: pending_on_def)
    then show ?thesis using v by (auto simp: pending_on_def filter_empty_conv not_less)
  qed
  then show ?thesis
    using assms(1) v
    by (simp add: migrate_def bindS_def current_version_def pragma_def pending_migrations_def pending_on_def
        sqlite_works_def no_faults_def)
qed

text \<open>
  A file of an account that does not exist is refused by the foreign key, and the code
  reports this as \<open>Conflict\<close> with the text of a duplicate; the database is unchanged.
\<close>

lemma create_file_unknown_account:
  assumes "sqlite_works env" and "conn_ok c" and "db_files_seq (cn_db c) + 1 < 2 ^ 63"
    and "\<not> account_exists (account_id_str (f_account_id f)) (cn_db c)"
  shows "create_file env f c =
    (Err (DbConflict ''File with this account and provider_file_id already exists''), c)"
  using create_file_result [of env c f] assms by (simp add: sqlite_works_def)







end
