(* ===== verification/Db_Types.thy ===== *)
theory Db_Types
  imports Db_Open
begin

text \<open>
  What the columns promise to the code that reads them: every row a reachable database holds
  decodes to a value of the code's types, unless a stored time is beyond what \<open>chrono\<close>
  represents.
\<close>

section \<open>Decoding a row\<close>













section \<open>Queries on typed rows\<close>



section \<open>Properties of typed tables\<close>



end
