(* ===== verification/Vfs_Inode.thy ===== *)
theory Vfs_Inode
  imports Db_Open
begin

text \<open>
  \<open>InodeManager\<close> (\<open>inode.rs\<close>): stable inode numbers for cloud files, kept in the inode table,
  with a counter in memory that is restored from the table on start. The contract a client
  of such an allocator relies on is the locale \<open>inode_alloc\<close>.
\<close>

section \<open>The manager\<close>

definition FUSE_ROOT_INODE :: u64 where
  "FUSE_ROOT_INODE = 1"

definition ROOT_FILE_ID :: string where
  "ROOT_FILE_ID = ''root''"

text \<open>
  Addition on \<open>u64\<close>: \<open>chk\<close> tells whether the build checks overflow, as the development profile
  does; otherwise the sum wraps.
\<close>

definition add_u64 :: "bool \<Rightarrow> u64 \<Rightarrow> u64 \<Rightarrow> (u64, 'e) outcome" where
  "add_u64 chk a b = (if chk \<and> 2 ^ 64 \<le> unat a + unat b then Panicked else Ok (a + b))"

text \<open>\<open>with_conn\<close> with a closure that also changes state of its own.\<close>

definition with_conn_and :: "('s conn \<times> 'k, 'a, DbError) st \<Rightarrow> ('s Database \<times> 'k, 'a, DbError) st" where
  "with_conn_and f = (\<lambda>(db, k).
     if dbh_poisoned db then (Panicked, (db, k))
     else case f (dbh_conn db, k) of
       (Panicked, (c, k')) \<Rightarrow> (Panicked, (\<lparr> dbh_conn = c, dbh_poisoned = True \<rparr>, k'))
     | (r, (c, k')) \<Rightarrow> (r, (db\<lparr> dbh_conn := c \<rparr>, k')))"

text \<open>A manager is the shared database and the counter \<open>next_inode\<close>.\<close>

definition inode_manager_new :: "'s db_env \<Rightarrow> bool \<Rightarrow> ('s Database, u64, DbError) st" where
  "inode_manager_new env chk =
     bindS (with_conn (get_max_inode env)) (\<lambda>max_inode.
     bindS (liftS (if max_inode = 0 then add_u64 chk FUSE_ROOT_INODE 1 else add_u64 chk max_inode 1)) (\<lambda>next_inode.
     bindS (with_conn (\<lambda>c. case get_or_insert_inode env ROOT_FILE_ID (returnS FUSE_ROOT_INODE) (c, ()) of
         (r, (c', _)) \<Rightarrow> (r, c'))) (\<lambda>_.
     returnS next_inode)))"

definition next_counter :: "bool \<Rightarrow> (u64, u64, DbError) st" where
  "next_counter chk counter = (case add_u64 chk counter 1 of
     Ok n \<Rightarrow> (Ok counter, n) | Err e \<Rightarrow> (Err e, counter) | Panicked \<Rightarrow> (Panicked, counter))"

definition get_or_allocate :: "'s db_env \<Rightarrow> bool \<Rightarrow> FileId \<Rightarrow> ('s Database \<times> u64, u64, DbError) st" where
  "get_or_allocate env chk file_id =
     with_conn_and (get_or_insert_inode env (file_id_str file_id) (next_counter chk))"

definition get_file_id :: "'s db_env \<Rightarrow> u64 \<Rightarrow> ('s Database, FileId option, DbError) st" where
  "get_file_id env inode = with_conn (\<lambda>c. case get_file_id_by_inode env inode c of
     (r, c') \<Rightarrow> (map_ok (map_option FileId) r, c'))"

definition get_inode :: "'s db_env \<Rightarrow> FileId \<Rightarrow> ('s Database, u64 option, DbError) st" where
  "get_inode env file_id = with_conn (get_inode_by_file_id env (file_id_str file_id))"

definition inode_remove :: "'s db_env \<Rightarrow> FileId \<Rightarrow> ('s Database, unit, DbError) st" where
  "inode_remove env file_id = with_conn (bindS (remove_inode env (file_id_str file_id)) (\<lambda>_. returnS ()))"

section \<open>The contract of an inode allocator\<close>

text \<open>
  \<open>num\<close> is the numbering, \<open>room\<close> the number of allocations that certainly succeed. A file keeps
  the number it has, a new number is unused, and nothing else changes.
\<close>

fun alloc_all :: "('f \<Rightarrow> ('st, 'n, 'e) st) \<Rightarrow> 'f list \<Rightarrow> ('st, 'n list, 'e) st" where
  "alloc_all alloc [] st = (Ok [], st)"
| "alloc_all alloc (f # fs) st =
     bindS (alloc f) (\<lambda>n. bindS (alloc_all alloc fs) (\<lambda>ns. returnS (n # ns))) st"

locale inode_alloc =
  fixes alloc :: "'f \<Rightarrow> ('st, 'n, 'e) st"
    and num :: "'st \<Rightarrow> 'f \<Rightarrow> 'n option"
    and invar :: "'st \<Rightarrow> bool"
    and room :: "'st \<Rightarrow> nat"
  assumes alloc_law: "invar st \<Longrightarrow> 0 < room st \<Longrightarrow>
      \<exists>n st'. alloc f st = (Ok n, st') \<and> invar st' \<and> room st \<le> Suc (room st') \<and>
        num st' = (num st)(f \<mapsto> n) \<and> (num st f = Some n \<or> num st f = None \<and> n \<notin> ran (num st))"
    and num_inj: "invar st \<Longrightarrow> num st f = Some n \<Longrightarrow> num st g = Some n \<Longrightarrow> f = g"
begin

lemma alloc_all_law:
  "invar st \<Longrightarrow> length fs \<le> room st \<Longrightarrow>
   \<exists>ns st'. alloc_all alloc fs st = (Ok ns, st') \<and> invar st' \<and> room st \<le> length fs + room st' \<and>
     num st \<subseteq>\<^sub>m num st' \<and> map (num st') fs = map Some ns"
proof (induction fs arbitrary: st)
  case Nil
  then show ?case by simp
next
  case (Cons f fs)
  then obtain n st1 where 1: "alloc f st = (Ok n, st1)" "invar st1" "room st \<le> Suc (room st1)"
    "num st1 = (num st)(f \<mapsto> n)" "num st f = Some n \<or> num st f = None"
    using alloc_law [of st f] by auto
  from Cons.IH [OF 1(2)] 1(3) Cons.prems(2) obtain ns st2 where 2:
    "alloc_all alloc fs st1 = (Ok ns, st2)" "invar st2" "room st1 \<le> length fs + room st2"
    "num st1 \<subseteq>\<^sub>m num st2" "map (num st2) fs = map Some ns"
    by auto
  have "num st \<subseteq>\<^sub>m num st1" using 1(4,5) by (auto simp: map_le_def)
  then have "num st \<subseteq>\<^sub>m num st2" using 2(4) map_le_trans by blast
  moreover have "num st2 f = Some n" using 1(4) 2(4) by (auto simp: map_le_def)
  ultimately show ?case using 1(1,3) 2 by (intro exI [of _ "n # ns"] exI [of _ st2]) auto
qed

lemma alloc_all_distinct:
  assumes "invar st" "length fs \<le> room st" "alloc_all alloc fs st = (Ok ns, st')"
    and "i < length fs" "j < length fs"
  shows "ns ! i = ns ! j \<longleftrightarrow> fs ! i = fs ! j"
proof -
  from alloc_all_law [OF assms(1,2)] assms(3) have m: "invar st'" "map (num st') fs = map Some ns" by auto
  then have "length ns = length fs" by (metis length_map)
  then have k: "num st' (fs ! k) = Some (ns ! k)" if "k < length fs" for k
    using m(2) that by (metis nth_map)
  show ?thesis using k [OF assms(4)] k [OF assms(5)] num_inj [OF m(1)] by auto
qed

end

section \<open>The manager keeps the contract\<close>

definition mgr_num :: "'s db_env \<times> 's Database \<times> u64 \<Rightarrow> FileId \<Rightarrow> u64 option" where
  "mgr_num st f = (case st of (env, db, k) \<Rightarrow> inode_of (cn_db (dbh_conn db)) (file_id_str f))"

text \<open>
  Inodes stay below \<open>2^63\<close>, where the table's signed order agrees with the unsigned one.
\<close>

definition mgr_inv :: "'s db_env \<times> 's Database \<times> u64 \<Rightarrow> bool" where
  "mgr_inv st \<longleftrightarrow> (case st of (env, db, k) \<Rightarrow>
     sqlite_works env \<and> \<not> dbh_poisoned db \<and> conn_ok (dbh_conn db) \<and> inodes_cast (cn_db (dbh_conn db)) \<and>
     inode_of (cn_db (dbh_conn db)) ROOT_FILE_ID = Some FUSE_ROOT_INODE \<and>
     (\<forall>r \<in> set (db_inodes (cn_db (dbh_conn db))). 0 < ir_inode r \<and> ir_inode r < int (unat k)) \<and>
     unat k \<le> 2 ^ 63)"

definition mgr_room :: "'s db_env \<times> 's Database \<times> u64 \<Rightarrow> nat" where
  "mgr_room st = (case st of (env, db, k) \<Rightarrow> 2 ^ 63 - unat k)"

definition mgr_alloc :: "bool \<Rightarrow> FileId \<Rightarrow> ('s db_env \<times> 's Database \<times> u64, u64, DbError) st" where
  "mgr_alloc chk f st = (case st of (env, dbk) \<Rightarrow>
     (case get_or_allocate env chk f dbk of (r, dbk') \<Rightarrow> (r, (env, dbk'))))"

lemma unat_Suc_below: "unat (k :: u64) < 2 ^ 63 \<Longrightarrow> unat (k + 1) = Suc (unat k)"
  by (subst unat_plus_simple [THEN iffD1]) (auto simp: word_le_nat_alt unat_word_ariths)

lemma next_counter_result:
  assumes "unat k < 2 ^ 63"
  shows "next_counter chk k = (Ok k, k + 1)"
  using assms by (simp add: next_counter_def add_u64_def)

lemma mgr_alloc_known:
  assumes "mgr_inv (env, db, k)" and "mgr_num (env, db, k) f = Some n"
  shows "mgr_alloc chk f (env, db, k) = (Ok n, (env, db, k))"
  using assms
  by (simp add: mgr_alloc_def get_or_allocate_def with_conn_and_def get_or_insert_inode_result mgr_inv_def
      sqlite_works_def mgr_num_def)

lemma mgr_alloc_fresh:
  assumes inv: "mgr_inv (env, db, k)" and new: "mgr_num (env, db, k) f = None" and k: "unat k < 2 ^ 63"
  shows "\<exists>db'. mgr_alloc chk f (env, db, k) = (Ok k, (env, db', k + 1)) \<and> mgr_inv (env, db', k + 1) \<and>
    mgr_num (env, db', k + 1) = (mgr_num (env, db, k))(f \<mapsto> k) \<and> k \<notin> ran (mgr_num (env, db, k))"
proof -
  let ?c = "dbh_conn db" and ?d = "cn_db (dbh_conn db)"
  have works: "no_faults (de_sql env)" and ok: "conn_ok ?c" and cast: "inodes_cast ?d"
    and below: "\<forall>r \<in> set (db_inodes ?d). 0 < ir_inode r \<and> ir_inode r < int (unat k)"
    using inv by (auto simp: mgr_inv_def sqlite_works_def)
  have ki: "as_i64 k = int (unat k)" using k by (rule as_i64_eq_uint)
  have dk: "db_ok ?d" using ok by (simp add: conn_ok_def)
  have nofile: "file_of ?d k = None"
    using below ki by (auto simp: file_of_def find_None_iff)
  have nof: "inode_of ?d (file_id_str f) = None" using new by (simp add: mgr_num_def)
  obtain r c' where ins: "insert_inode env k (file_id_str f) ?c = (r, c')" by fastforce
  from insert_inode_result [OF works ok cast, where n = k and f = "file_id_str f"] nofile nof ins
  have r: "r = Ok ()" and map: "inode_of (cn_db c') = (inode_of ?d)(file_id_str f \<mapsto> k)" and cast': "inodes_cast (cn_db c')"
    by (auto split: outcome.splits)
  have ok': "conn_ok c'" using preservesD [OF insert_inode_preserves ok ins] .
  define db' where "db' = db\<lparr> dbh_conn := c' \<rparr>"
  have al: "mgr_alloc chk f (env, db, k) = (Ok k, (env, db', k + 1))"
    using inv nof ins r next_counter_result [OF k, of chk]
    by (simp add: mgr_alloc_def get_or_allocate_def with_conn_and_def get_or_insert_inode_result [OF works]
        mgr_inv_def db'_def)
  have "as_u64 (ir_inode x) = k \<Longrightarrow> x \<in> set (db_inodes ?d) \<Longrightarrow> False" for x
    using below ki cast by (auto simp: inodes_cast_def)
  then have fresh: "k \<notin> ran (mgr_num (env, db, k))"
    using inode_of_iff [OF dk] by (auto simp: ran_def mgr_num_def)
  have root: "file_id_str f \<noteq> ROOT_FILE_ID" using inv nof by (auto simp: mgr_inv_def)
  have bound: "0 < ir_inode x \<and> ir_inode x < int (unat (k + 1))" if "x \<in> set (db_inodes (cn_db c'))" for x
  proof -
    have "as_u64 (ir_inode x) \<in> ran (inode_of (cn_db c'))"
      using inode_of_iff [of "cn_db c'"] ok' that by (auto simp: ran_def conn_ok_def)
    then obtain g where g: "inode_of (cn_db c') g = Some (as_u64 (ir_inode x))" by (auto simp: ran_def)
    have x: "ir_inode x = as_i64 (as_u64 (ir_inode x))" using cast' that by (simp add: inodes_cast_def)
    obtain y where "y \<in> set (db_inodes ?d)"
      using inv inode_of_iff [OF dk, of ROOT_FILE_ID FUSE_ROOT_INODE] by (auto simp: mgr_inv_def)
    then have "0 < ir_inode y" "ir_inode y < int (unat k)" using below by auto
    then have kpos: "0 < unat k" by linarith
    show ?thesis
    proof (cases "g = file_id_str f")
      case True
      then have "as_u64 (ir_inode x) = k" using g map by simp
      then have "ir_inode x = int (unat k)" using x ki by simp
      then show ?thesis unfolding unat_Suc_below [OF k] using kpos by linarith
    next
      case False
      then have "inode_of ?d g = Some (as_u64 (ir_inode x))" using g map by simp
      then obtain y where "y \<in> set (db_inodes ?d)" "as_u64 (ir_inode y) = as_u64 (ir_inode x)"
        using inode_of_iff [OF dk] by auto
      then have "ir_inode y = ir_inode x" using cast x by (metis inodes_cast_def)
      then show ?thesis using below \<open>y \<in> _\<close> unat_Suc_below [OF k] by fastforce
    qed
  qed
  have inv': "mgr_inv (env, db', k + 1)"
    using inv ok' cast' root map bound unat_Suc_below [OF k] k
    by (auto simp: mgr_inv_def db'_def simp del: of_nat_unat)
  have "mgr_num (env, db', k + 1) = (mgr_num (env, db, k))(f \<mapsto> k)"
    using map by (auto simp: mgr_num_def db'_def fun_eq_iff)
  with al inv' fresh show ?thesis by blast
qed

interpretation mgr: inode_alloc "mgr_alloc chk" mgr_num mgr_inv mgr_room for chk
proof
  fix st :: "'s db_env \<times> 's Database \<times> u64" and f
  assume inv: "mgr_inv st" and room: "0 < mgr_room st"
  obtain env db k where st: "st = (env, db, k)" by (cases st)
  show "\<exists>n st'. mgr_alloc chk f st = (Ok n, st') \<and> mgr_inv st' \<and> mgr_room st \<le> Suc (mgr_room st') \<and>
      mgr_num st' = (mgr_num st)(f \<mapsto> n) \<and> (mgr_num st f = Some n \<or> mgr_num st f = None \<and> n \<notin> ran (mgr_num st))"
  proof (cases "mgr_num st f")
    case (Some n)
    then show ?thesis using mgr_alloc_known [of env db k f n chk] inv st by (auto simp: fun_upd_idem)
  next
    case None
    then show ?thesis
      using mgr_alloc_fresh [of env db k f chk] inv room st unat_Suc_below [of k]
      by (fastforce simp: mgr_room_def)
  qed
next
  fix st :: "'s db_env \<times> 's Database \<times> u64" and f g n
  assume a: "mgr_inv st" "mgr_num st f = Some n" "mgr_num st g = Some n"
  obtain env db k where st: "st = (env, db, k)" by (cases st)
  have "db_ok (cn_db (dbh_conn db))" "inodes_cast (cn_db (dbh_conn db))"
    using a(1) by (auto simp: st mgr_inv_def conn_ok_def)
  from inode_file_inverse [OF this] have "Some (file_id_str f) = Some (file_id_str g)"
    using a(2,3) by (simp add: st mgr_num_def)
  then show "f = g" by simp
qed

section \<open>Starting\<close>

lemma with_conn_Ok: "\<not> dbh_poisoned db \<Longrightarrow> f (dbh_conn db) = (Ok x, c) \<Longrightarrow>
    with_conn f db = (Ok x, db\<lparr> dbh_conn := c \<rparr>)"
  by (simp add: with_conn_def)

lemma get_file_id_result:
  assumes "sqlite_works env" and "\<not> dbh_poisoned db"
  shows "get_file_id env n db = (Ok (map_option FileId (file_of (cn_db (dbh_conn db)) n)), db)"
  using assms get_file_id_by_inode_eq [of env n "dbh_conn db"]
  by (simp add: get_file_id_def with_conn_def sqlite_works_def)

lemma get_inode_result:
  assumes "sqlite_works env" and "\<not> dbh_poisoned db"
  shows "get_inode env f db = (Ok (inode_of (cn_db (dbh_conn db)) (file_id_str f)), db)"
  using assms get_inode_by_file_id_eq [of env "file_id_str f" "dbh_conn db"]
  by (simp add: get_inode_def with_conn_def sqlite_works_def)

text \<open>On a table that already has inodes, starting only restores the counter.\<close>

lemma inode_manager_restart:
  assumes inv: "mgr_inv (env, db, k)"
  shows "\<exists>k'. inode_manager_new env chk db = (Ok k', db) \<and> mgr_inv (env, db, k') \<and> unat k' \<le> unat k"
proof -
  let ?c = "dbh_conn db" and ?d = "cn_db (dbh_conn db)"
  have works: "no_faults (de_sql env)" and np: "\<not> dbh_poisoned db" and dk: "db_ok ?d" and cast: "inodes_cast ?d"
    and below: "\<forall>r \<in> set (db_inodes ?d). 0 < ir_inode r \<and> ir_inode r < int (unat k)" and k: "unat k \<le> 2 ^ 63"
    and root: "inode_of ?d ROOT_FILE_ID = Some FUSE_ROOT_INODE"
    using inv by (auto simp: mgr_inv_def sqlite_works_def conn_ok_def)
  obtain y where y: "y \<in> set (db_inodes ?d)" using root inode_of_iff [OF dk] by blast
  define m where "m = Max (ir_inode ` set (db_inodes ?d))"
  have m: "m \<in> ir_inode ` set (db_inodes ?d)" using y by (auto simp: m_def intro!: Max_in)
  then have mb: "0 < m" "m < int (unat k)" "as_i64 (as_u64 m) = m" using below cast by (auto simp: inodes_cast_def)
  define n where "n = as_u64 m"
  have "int (unat k) \<le> int (2 ^ 63)" using k by (simp only: of_nat_le_iff)
  then have "m < 2 ^ 63" using mb(2) by simp
  have un: "int (unat n) = m"
    using mb(1) \<open>m < 2 ^ 63\<close> by (simp add: n_def as_u64_def unat_eq_nat_uint uint_word_of_int take_bit_eq_mod)
  have n0: "n \<noteq> 0" using un mb(1) by auto
  have "int (unat n) < int (2 ^ 63)" using un \<open>m < 2 ^ 63\<close> by simp
  then have nk: "unat n < 2 ^ 63" by (simp only: of_nat_less_iff)
  have add: "add_u64 chk n 1 = (Ok (n + 1) :: (u64, DbError) outcome)" using nk by (simp add: add_u64_def)
  have goi: "get_or_insert_inode env ROOT_FILE_ID (returnS FUSE_ROOT_INODE) (?c, ()) = (Ok FUSE_ROOT_INODE, (?c, ()))"
    using get_or_insert_inode_result [OF works, of ROOT_FILE_ID "returnS FUSE_ROOT_INODE" ?c "()"] root by simp
  have max: "get_max_inode env ?c = (Ok n, ?c)"
    using get_max_inode_result [OF works, of ?c] y by (auto simp: n_def m_def)
  have new: "inode_manager_new env chk db = (Ok (n + 1), db)"
    using np max add goi n0 by (simp add: inode_manager_new_def bindS_def with_conn_def)
  have "0 < ir_inode r \<and> ir_inode r < int (unat (n + 1))" if "r \<in> set (db_inodes ?d)" for r
  proof -
    have "ir_inode r \<le> m" using that by (simp add: m_def)
    then show ?thesis using below that un unat_Suc_below [OF nk] by auto
  qed
  moreover have "unat (n + 1) \<le> unat k" using unat_Suc_below [OF nk] un mb(2) by linarith
  ultimately show ?thesis using new inv k by (intro exI [of _ "n + 1"]) (auto simp: mgr_inv_def)
qed

text \<open>On an empty table, starting creates the root's entry.\<close>

lemma inode_manager_first:
  assumes "sqlite_works env" and "\<not> dbh_poisoned db" and ok: "conn_ok (dbh_conn db)"
    and empty: "db_inodes (cn_db (dbh_conn db)) = []"
  shows "\<exists>db'. inode_manager_new env chk db = (Ok 2, db') \<and> mgr_inv (env, db', 2)"
proof -
  let ?c = "dbh_conn db" and ?d = "cn_db (dbh_conn db)"
  have works: "no_faults (de_sql env)" using assms(1) by (simp add: sqlite_works_def)
  have cast: "inodes_cast ?d" using empty by (simp add: inodes_cast_def)
  have none: "inode_of ?d = Map.empty" "file_of ?d = Map.empty"
    using empty by (auto simp: inode_of_def file_of_def fun_eq_iff)
  obtain r c' where ins: "insert_inode env FUSE_ROOT_INODE ROOT_FILE_ID ?c = (r, c')" by fastforce
  from insert_inode_result [OF works ok cast, where n = FUSE_ROOT_INODE and f = ROOT_FILE_ID] none ins
  have r: "r = Ok ()" and map: "inode_of (cn_db c') = [ROOT_FILE_ID \<mapsto> FUSE_ROOT_INODE]" and cast': "inodes_cast (cn_db c')"
    by (auto split: outcome.splits)
  have ok': "conn_ok c'" using preservesD [OF insert_inode_preserves ok ins] .
  have goi: "get_or_insert_inode env ROOT_FILE_ID (returnS FUSE_ROOT_INODE) (?c, ()) = (Ok FUSE_ROOT_INODE, (c', ()))"
    using get_or_insert_inode_result [OF works, of ROOT_FILE_ID "returnS FUSE_ROOT_INODE" ?c "()"] none ins r by simp
  have max: "get_max_inode env ?c = (Ok 0, ?c)"
    using get_max_inode_result [OF works, of ?c] empty by simp
  have new: "inode_manager_new env chk db = (Ok 2, db\<lparr> dbh_conn := c' \<rparr>)"
    using assms(2) max goi
    by (simp add: inode_manager_new_def bindS_def with_conn_def add_u64_def FUSE_ROOT_INODE_def)
  have "0 < ir_inode x \<and> ir_inode x < int (unat (2 :: u64))" if "x \<in> set (db_inodes (cn_db c'))" for x
  proof -
    have "inode_of (cn_db c') (ir_file_id x) = Some (as_u64 (ir_inode x))"
      using inode_of_iff [of "cn_db c'"] ok' that by (auto simp: conn_ok_def)
    then have "as_u64 (ir_inode x) = FUSE_ROOT_INODE" using map by (auto split: if_splits)
    then have "ir_inode x = as_i64 FUSE_ROOT_INODE" using cast' that by (metis inodes_cast_def)
    then show ?thesis by (simp add: FUSE_ROOT_INODE_def as_i64_eq_uint)
  qed
  then have "mgr_inv (env, db\<lparr> dbh_conn := c' \<rparr>, 2)"
    using assms(1,2) ok' cast' map by (auto simp: mgr_inv_def)
  with new show ?thesis by blast
qed

section \<open>Properties\<close>

lemma mgr_alloc_unfold:
  "mgr_alloc chk f (env, dbk) = (r, (env', dbk')) \<longleftrightarrow> get_or_allocate env chk f dbk = (r, dbk') \<and> env' = env"
  by (auto simp: mgr_alloc_def split: prod.splits)

definition sample_handle :: "nat Database" where
  "sample_handle = \<lparr> dbh_conn = sample_conn empty_db, dbh_poisoned = False \<rparr>"

lemma sample_manager:
  obtains db where "inode_manager_new sample_env chk sample_handle = (Ok 2, db)" "mgr_inv (sample_env, db, 2)"
  using inode_manager_first [of sample_env sample_handle chk] sample_conn_ok(2)
  by (auto simp: sample_handle_def sample_conn_def empty_db_def)

text \<open>
  C22: As long as fewer than \<open>2^63\<close> inodes were given out, asking for a file's inode succeeds.
  The number is the one the file already has, or an unused one different from the root's; it
  is then found in both directions, asking again returns it and changes nothing, and the
  inode of every other file is untouched.
\<close>

theorem inode_stable_and_fresh:
  assumes inv: "mgr_inv (env, db, k)" and room: "unat k < 2 ^ 63"
  shows "\<exists>n db' k'. get_or_allocate env chk f (db, k) = (Ok n, (db', k')) \<and> mgr_inv (env, db', k') \<and>
    (mgr_num (env, db, k) f = Some n \<or>
       mgr_num (env, db, k) f = None \<and> n \<notin> ran (mgr_num (env, db, k)) \<and> n \<noteq> FUSE_ROOT_INODE) \<and>
    get_inode env f db' = (Ok (Some n), db') \<and> get_file_id env n db' = (Ok (Some f), db') \<and>
    get_or_allocate env chk f (db', k') = (Ok n, (db', k')) \<and>
    (\<forall>g. g \<noteq> f \<longrightarrow> mgr_num (env, db', k') g = mgr_num (env, db, k) g)"
proof -
  have "0 < mgr_room (env, db, k)" using room by (simp add: mgr_room_def)
  from mgr.alloc_law [OF inv this, of chk f] obtain n st' where al: "mgr_alloc chk f (env, db, k) = (Ok n, st')"
    "mgr_inv st'" "mgr_num st' = (mgr_num (env, db, k))(f \<mapsto> n)"
    "mgr_num (env, db, k) f = Some n \<or> mgr_num (env, db, k) f = None \<and> n \<notin> ran (mgr_num (env, db, k))"
    by blast
  obtain env' db' k' where st': "st' = (env', db', k')" by (cases st')
  with al(1) have g: "get_or_allocate env chk f (db, k) = (Ok n, (db', k'))" "env' = env"
    by (simp_all add: mgr_alloc_unfold)
  note inv' = al(2) [unfolded st' g(2)]
  have num': "inode_of (cn_db (dbh_conn db')) (file_id_str f) = Some n"
    using al(3) by (simp add: st' mgr_num_def fun_eq_iff split: if_splits)
  have dk: "db_ok (cn_db (dbh_conn db'))" "inodes_cast (cn_db (dbh_conn db'))" "\<not> dbh_poisoned db'" "sqlite_works env"
    using inv' by (auto simp: mgr_inv_def conn_ok_def)
  have fl: "file_of (cn_db (dbh_conn db')) n = Some (file_id_str f)"
    using inode_file_inverse [OF dk(1,2)] num' by simp
  have "FUSE_ROOT_INODE \<in> ran (mgr_num (env, db, k))"
    using inv by (auto simp: mgr_inv_def mgr_num_def ran_def intro: exI [of _ "FileId ROOT_FILE_ID"])
  moreover have "get_or_allocate env chk f (db', k') = (Ok n, (db', k'))"
    using mgr_alloc_known [OF inv', of f n chk] num' by (simp add: mgr_num_def mgr_alloc_unfold)
  ultimately show ?thesis
    using g(1) inv' al(3,4) num' fl get_inode_result [OF dk(4,3), of f] get_file_id_result [OF dk(4,3), of n]
    by (intro exI [of _ n] exI [of _ db'] exI [of _ k']) (auto simp: st' g(2))
qed

theorem inode_stable_and_fresh_witness:
  "\<exists>db n db' k'. mgr_inv (sample_env, db, 2) \<and>
     get_or_allocate sample_env True (FileId ''a'') (db, 2) = (Ok n, (db', k')) \<and>
     get_file_id sample_env n db' = (Ok (Some (FileId ''a'')), db')"
proof -
  obtain db where db: "mgr_inv (sample_env, db, 2)" by (rule sample_manager)
  from inode_stable_and_fresh [OF db, of True "FileId ''a''"] show ?thesis using db by auto
qed

text \<open>
  C29: Restarting on the same database changes no inode: a new manager leaves the table as it
  is, restores a counter above every number in use, and keeps the guarantees; on a database
  without inodes the first start sets them up.
\<close>

theorem inodes_survive_restart:
  assumes "mgr_inv (env, db, k) \<or>
    sqlite_works env \<and> \<not> dbh_poisoned db \<and> conn_ok (dbh_conn db) \<and> db_inodes (cn_db (dbh_conn db)) = []"
  shows "\<exists>k' db'. inode_manager_new env chk db = (Ok k', db') \<and> mgr_inv (env, db', k') \<and>
    (mgr_inv (env, db, k) \<longrightarrow> db' = db \<and> unat k' \<le> unat k)"
proof (cases "mgr_inv (env, db, k)")
  case True
  then show ?thesis using inode_manager_restart [of env db k chk] by blast
next
  case False
  then show ?thesis using assms inode_manager_first [of env db chk] by blast
qed

theorem inodes_survive_restart_witness:
  "\<exists>k' db'. inode_manager_new sample_env False sample_handle = (Ok k', db') \<and> mgr_inv (sample_env, db', k')"
  using inodes_survive_restart [of sample_env sample_handle 0 False] sample_conn_ok(2)
  by (auto simp: sample_handle_def sample_conn_def empty_db_def)

end
