(* ===== verification/Vfs_Metadata.thy ===== *)
theory Vfs_Metadata
  imports Db_Open Sync_Engine
begin

text \<open>
  The metadata side of the virtual filesystem: \<open>MetadataCache\<close> (\<open>cache.rs\<close>), which answers
  from the files table, and \<open>MetadataSyncer\<close> (\<open>metadata_sync.rs\<close>), which keeps that table in step
  with the provider's change feed.
\<close>

section \<open>The metadata cache\<close>

text \<open>\<open>CsCloudOnly\<close> is \<open>CacheState::CloudOnly\<close>.\<close>

datatype CacheState = CsCloudOnly | Downloading | Cached | Modified

record CachedFile =
  cf_file_id :: FileId
  cf_name :: string
  cf_path :: string
  cf_size :: u64
  cf_is_directory :: bool
  cf_modified_time :: datetime
  cf_state :: CacheState

definition file_state_to_cache_state :: "FileState \<Rightarrow> CacheState" where
  "file_state_to_cache_state st = (case st of
     Synced \<Rightarrow> Cached | Syncing \<Rightarrow> Downloading | OfflineModified \<Rightarrow> Modified | _ \<Rightarrow> CsCloudOnly)"

definition db_file_to_cached_file :: "File \<Rightarrow> CachedFile" where
  "db_file_to_cached_file f = \<lparr> cf_file_id = f_provider_file_id f, cf_name = f_name f,
     cf_path = cloud_path_as_str (f_path f), cf_size = (case f_size f of Some n \<Rightarrow> n | None \<Rightarrow> 0),
     cf_is_directory = f_is_folder f, cf_modified_time = f_modified_at f,
     cf_state = file_state_to_cache_state (f_state f) \<rparr>"

definition cache_get :: "'s db_env \<Rightarrow> AccountId \<Rightarrow> FileId \<Rightarrow> ('s Database, CachedFile option, DbError) st" where
  "cache_get env account_id file_id = with_conn
     (bindS (get_file_by_provider_id env account_id file_id)
       (\<lambda>f. returnS (map_option db_file_to_cached_file f)))"

definition child_prefix :: "string \<Rightarrow> string" where
  "child_prefix parent = (if parent = ''/'' then ''/'' else trim_end_matches slash parent @ ''/'')"

definition is_direct_child :: "string \<Rightarrow> File \<Rightarrow> bool" where
  "is_direct_child parent f =
     (let path = cloud_path_as_str (f_path f); prefix = child_prefix parent
      in starts_with prefix path \<and> slash \<notin> set (drop (length prefix) path))"

definition get_children :: "'s db_env \<Rightarrow> AccountId \<Rightarrow> string \<Rightarrow> ('s Database, CachedFile list, DbError) st" where
  "get_children env account_id parent_path = with_conn
     (bindS (list_files env account_id None)
       (\<lambda>all_files. returnS (map db_file_to_cached_file (filter (is_direct_child parent_path) all_files))))"

section \<open>The metadata synchroniser\<close>

text \<open>\<open>anyhow\<close> errors: what failed, with the context the code adds.\<close>

datatype VfsError = VfsDb DbError | VfsProvider string CoreError | VfsIo string

definition cloud_item_to_db_file :: "'s db_env \<Rightarrow> AccountId \<Rightarrow> CloudItem \<Rightarrow> ('s conn, File, DbError) st" where
  "cloud_item_to_db_file env account_id item c =
     (case file_new (de_sys env) account_id (ci_id item) (ci_path item) (ci_name item) (ci_size item)
             (ci_content_hash item) (ci_is_folder item) (ci_modified item) (cn_sys c) of
        (file, s) \<Rightarrow> (Ok (file\<lparr> f_state := FileState.CloudOnly \<rparr>), c\<lparr> cn_sys := s \<rparr>))"

definition with_item :: "CloudItem \<Rightarrow> File \<Rightarrow> File" where
  "with_item item db_file = db_file\<lparr> f_name := ci_name item, f_path := ci_path item, f_size := ci_size item,
     f_content_hash := ci_content_hash item, f_is_folder := ci_is_folder item, f_modified_at := ci_modified item \<rparr>"

definition upsert_item_conn :: "'s db_env \<Rightarrow> AccountId \<Rightarrow> CloudItem \<Rightarrow> ('s conn, unit, DbError) st" where
  "upsert_item_conn env account_id item =
     bindS (get_file_by_provider_id env account_id (ci_id item)) (\<lambda>existing.
     case existing of
       Some db_file \<Rightarrow> bindS (update_file env (with_item item db_file)) (\<lambda>_. returnS ())
     | None \<Rightarrow>
         bindS (cloud_item_to_db_file env account_id item) (\<lambda>db_file.
         bindS (create_file env db_file) (\<lambda>_. returnS ())))"

definition upsert_cloud_item :: "'s db_env \<Rightarrow> AccountId \<Rightarrow> CloudItem \<Rightarrow> ('s Database, unit, DbError) st" where
  "upsert_cloud_item env account_id item = with_conn (upsert_item_conn env account_id item)"

definition delete_change_conn :: "'s db_env \<Rightarrow> AccountId \<Rightarrow> FileId \<Rightarrow> ('s conn, unit, DbError) st" where
  "delete_change_conn env account_id file_id =
     bindS (get_file_by_provider_id env account_id file_id) (\<lambda>existing.
     case existing of
       Some f \<Rightarrow> bindS (delete_file env (f_id f)) (\<lambda>_. returnS ())
     | None \<Rightarrow> returnS ())"

definition apply_change :: "'s db_env \<Rightarrow> AccountId \<Rightarrow> Change \<Rightarrow> ('s Database, unit, DbError) st" where
  "apply_change env account_id change =
     (if ch_deleted change then with_conn (delete_change_conn env account_id (ch_file_id change))
      else case ch_item change of
        Some item \<Rightarrow> upsert_cloud_item env account_id item
      | None \<Rightarrow> returnS ())"

text \<open>A syncer runs on the shared database and the world its provider acts on.\<close>

definition on_db :: "('s Database, 'a, DbError) st \<Rightarrow> ('s Database \<times> 'w world, 'a, VfsError) st" where
  "on_db m = on_fst (map_errS VfsDb m)"

definition on_provider :: "string \<Rightarrow> ('w world, 'a, CoreError) st \<Rightarrow> ('s Database \<times> 'w world, 'a, VfsError) st" where
  "on_provider context m = on_snd (map_errS (VfsProvider context) m)"

definition meta_initial_sync ::
  "'s db_env \<Rightarrow> 'w CloudProvider \<Rightarrow> AccountId \<Rightarrow> ('s Database \<times> 'w world, nat, VfsError) st" where
  "meta_initial_sync env prov account_id =
     bindS (on_provider ''Failed to list root folder'' (cp_list_folder prov cloud_path_root)) (\<lambda>items.
     bindS (for_eachS (\<lambda>item. on_db (upsert_cloud_item env account_id item)) items) (\<lambda>_.
     bindS (on_provider ''Failed to get initial change cursor'' (cp_get_changes prov None)) (\<lambda>change_list.
     bindS (on_db (with_conn (upsert_cursor env (account_id_str account_id) (cl_cursor change_list)))) (\<lambda>_.
     returnS (length items)))))"

partial_function (option) incremental_loop ::
  "'s db_env \<Rightarrow> 'w CloudProvider \<Rightarrow> AccountId \<Rightarrow> string \<Rightarrow> nat \<Rightarrow> 's Database \<times> 'w world \<Rightarrow>
   ((nat, VfsError) outcome \<times> ('s Database \<times> 'w world)) option" where
  "incremental_loop env prov account_id cursor total_changes st =
     (case bindS (on_provider ''Failed to get changes'' (cp_get_changes prov (Some cursor))) (\<lambda>change_list.
           bindS (for_eachS (\<lambda>change. on_db (apply_change env account_id change)) (cl_changes change_list)) (\<lambda>_.
           bindS (on_db (with_conn (upsert_cursor env (account_id_str account_id) (cl_cursor change_list)))) (\<lambda>_.
           returnS change_list))) st of
        (Err e, st') \<Rightarrow> Some (Err e, st')
      | (Panicked, st') \<Rightarrow> Some (Panicked, st')
      | (Ok change_list, st') \<Rightarrow>
          (if \<not> cl_has_more change_list then Some (Ok (total_changes + length (cl_changes change_list)), st')
           else incremental_loop env prov account_id (cl_cursor change_list)
                  (total_changes + length (cl_changes change_list)) st'))"

definition incremental_sync ::
  "'s db_env \<Rightarrow> 'w CloudProvider \<Rightarrow> AccountId \<Rightarrow> 's Database \<times> 'w world \<Rightarrow>
   ((nat, VfsError) outcome \<times> ('s Database \<times> 'w world)) option" where
  "incremental_sync env prov account_id st =
     (case on_db (with_conn (get_cursor env (account_id_str account_id))) st of
        (Ok (Some cursor), st') \<Rightarrow> incremental_loop env prov account_id cursor 0 st'
      | (Ok None, st') \<Rightarrow> Some (meta_initial_sync env prov account_id st')
      | (Err e, st') \<Rightarrow> Some (Err e, st')
      | (Panicked, st') \<Rightarrow> Some (Panicked, st'))"

text \<open>
  The background thread: an initial round, then one incremental round per interval until it
  is told to stop; errors are logged and the thread goes on. \<open>n\<close> is the number of intervals
  that pass before the stop flag is seen; a panic ends the thread.
\<close>

fun background_rounds ::
  "'s db_env \<Rightarrow> 'w CloudProvider \<Rightarrow> AccountId \<Rightarrow> nat \<Rightarrow> 's Database \<times> 'w world \<Rightarrow>
   ('s Database \<times> 'w world) option" where
  "background_rounds env prov account_id 0 st = Some st"
| "background_rounds env prov account_id (Suc n) st =
     (case incremental_sync env prov account_id st of
        None \<Rightarrow> None
      | Some (Panicked, st') \<Rightarrow> Some st'
      | Some (_, st') \<Rightarrow> background_rounds env prov account_id n st')"

definition background_sync ::
  "'s db_env \<Rightarrow> 'w CloudProvider \<Rightarrow> AccountId \<Rightarrow> nat \<Rightarrow> 's Database \<times> 'w world \<Rightarrow>
   ('s Database \<times> 'w world) option" where
  "background_sync env prov account_id n st =
     (case meta_initial_sync env prov account_id st of
        (Panicked, st') \<Rightarrow> Some st'
      | (_, st') \<Rightarrow> background_rounds env prov account_id n st')"

section \<open>What the files table says about the cloud\<close>

record file_meta =
  mt_name :: string
  mt_path :: string
  mt_size :: "int option"
  mt_hash :: "string option"
  mt_folder :: int
  mt_modified :: int
  mt_state :: string

definition row_meta :: "file_row \<Rightarrow> file_meta" where
  "row_meta r = \<lparr> mt_name = fr_name r, mt_path = fr_path r, mt_size = fr_size r, mt_hash = fr_content_hash r,
     mt_folder = fr_is_folder r, mt_modified = fr_modified_at r, mt_state = fr_state r \<rparr>"

definition cloud_view :: "AccountId \<Rightarrow> database \<Rightarrow> FileId \<Rightarrow> file_meta option" where
  "cloud_view acc d i = map_option row_meta
     (find (\<lambda>r. (fr_account_id r, fr_provider_file_id r) = (account_id_str acc, file_id_str i)) (db_files d))"

text \<open>The specification of the synchroniser: a map from file identifiers to metadata.\<close>

definition item_meta :: "chrono \<Rightarrow> string \<Rightarrow> CloudItem \<Rightarrow> file_meta" where
  "item_meta ch st item = \<lparr> mt_name = ci_name item, mt_path = cloud_path_as_str (ci_path item),
     mt_size = map_option as_i64 (ci_size item), mt_hash = ci_content_hash item,
     mt_folder = (if ci_is_folder item then 1 else 0), mt_modified = timestamp ch (ci_modified item), mt_state = st \<rparr>"

definition spec_upsert :: "chrono \<Rightarrow> CloudItem \<Rightarrow> (FileId \<Rightarrow> file_meta option) \<Rightarrow> FileId \<Rightarrow> file_meta option" where
  "spec_upsert ch item m = m(ci_id item \<mapsto>
     item_meta ch (case m (ci_id item) of None \<Rightarrow> ''cloud_only'' | Some old \<Rightarrow> mt_state old) item)"

definition spec_change :: "chrono \<Rightarrow> Change \<Rightarrow> (FileId \<Rightarrow> file_meta option) \<Rightarrow> FileId \<Rightarrow> file_meta option" where
  "spec_change ch change m =
     (if ch_deleted change then m(ch_file_id change := None)
      else case ch_item change of Some item \<Rightarrow> spec_upsert ch item m | None \<Rightarrow> m)"

section \<open>The table follows the specification\<close>

definition clock_ok :: "'s db_env \<Rightarrow> bool" where
  "clock_ok env \<longleftrightarrow> (\<forall>s. stamp_ok (de_chrono env) (fst (utc_now (de_sys env) s)))"

definition row_readable :: "chrono \<Rightarrow> file_row \<Rightarrow> bool" where
  "row_readable ch r \<longleftrightarrow> from_timestamp ch (fr_modified_at r) \<noteq> None \<and>
     from_timestamp ch (fr_created_at r) \<noteq> None \<and> from_timestamp ch (fr_updated_at r) \<noteq> None"

text \<open>A working database with the account in it, whose rows can be read.\<close>

definition meta_inv :: "'s db_env \<Rightarrow> AccountId \<Rightarrow> 's conn \<Rightarrow> bool" where
  "meta_inv env acc c \<longleftrightarrow> sqlite_works env \<and> clock_ok env \<and> conn_ok c \<and>
     account_exists (account_id_str acc) (cn_db c) \<and>
     (\<forall>r \<in> set (db_files (cn_db c)). row_readable (de_chrono env) r)"

lemma stamp_ok_readable: "stamp_ok ch t \<Longrightarrow> from_timestamp ch (timestamp ch t) \<noteq> None"
  by (simp add: stamp_ok_def)

lemma file_from_row_readable:
  assumes "row_readable ch r" and "state_check (fr_state r)"
  shows "\<exists>f. file_from_row ch r = Ok f \<and> f_id f = fr_id r \<and> account_id_str (f_account_id f) = fr_account_id r \<and>
    file_id_str (f_provider_file_id f) = fr_provider_file_id r \<and> state_column (f_state f) = fr_state r"
proof -
  obtain s where s: "state_of_column (fr_state r) = Ok s" "state_column s = fr_state r"
    using assms(2) by (auto simp: state_check_def state_of_column_def)
  obtain a b c where "from_timestamp ch (fr_modified_at r) = Some a"
    "from_timestamp ch (fr_created_at r) = Some b" "from_timestamp ch (fr_updated_at r) = Some c"
    using assms(1) by (auto simp: row_readable_def)
  with s show ?thesis by (simp add: file_from_row_def)
qed

lemma cloud_view_iff:
  assumes "db_ok d"
  shows "cloud_view acc d i = Some m \<longleftrightarrow>
    (\<exists>r \<in> set (db_files d). fr_account_id r = account_id_str acc \<and> fr_provider_file_id r = file_id_str i \<and> row_meta r = m)"
proof -
  have "distinct (map (\<lambda>r. (fr_account_id r, fr_provider_file_id r)) (db_files d))"
    using assms by (simp add: db_ok_def)
  from find_unique [OF this, of "(account_id_str acc, file_id_str i)"] show ?thesis
    by (auto simp: cloud_view_def)
qed

lemma distinct_key_eq: "distinct (map kf rows) \<Longrightarrow> x \<in> set rows \<Longrightarrow> y \<in> set rows \<Longrightarrow> kf x = kf y \<Longrightarrow> x = y"
  by (simp add: distinct_map inj_on_def)

lemma file_row_id_eq:
  "db_ok d \<Longrightarrow> x \<in> set (db_files d) \<Longrightarrow> y \<in> set (db_files d) \<Longrightarrow> fr_id x = fr_id y \<Longrightarrow> x = y"
  unfolding db_ok_def using distinct_key_eq [of fr_id "db_files d" x y] by blast

lemma file_row_key_eq:
  "db_ok d \<Longrightarrow> x \<in> set (db_files d) \<Longrightarrow> y \<in> set (db_files d) \<Longrightarrow> fr_account_id x = fr_account_id y \<Longrightarrow>
   fr_provider_file_id x = fr_provider_file_id y \<Longrightarrow> x = y"
  unfolding db_ok_def
  using distinct_key_eq [of "\<lambda>r. (fr_account_id r, fr_provider_file_id r)" "db_files d" x y] by simp

lemma view_eqI:
  fixes f g :: "'a \<Rightarrow> 'b option"
  shows "(\<And>i m. f i = Some m \<longleftrightarrow> g i = Some m) \<Longrightarrow> f = g"
  by (metis ext option.exhaust)

lemma get_existing:
  assumes "meta_inv env acc c"
  shows "(cloud_view acc (cn_db c) i = None \<and> get_file_by_provider_id env acc i c = (Ok None, c)) \<or>
    (\<exists>r f. r \<in> set (db_files (cn_db c)) \<and> fr_account_id r = account_id_str acc \<and> fr_provider_file_id r = file_id_str i \<and>
       cloud_view acc (cn_db c) i = Some (row_meta r) \<and> get_file_by_provider_id env acc i c = (Ok (Some f), c) \<and>
       f_id f = fr_id r \<and> f_account_id f = acc \<and> f_provider_file_id f = i \<and> state_column (f_state f) = fr_state r)"
proof -
  let ?d = "cn_db c" and ?k = "(account_id_str acc, file_id_str i)"
  have env: "no_faults (de_sql env)" "scans_rows (de_sql env)" "conn_ok c"
    using assms by (auto simp: meta_inv_def sqlite_works_def)
  have dist: "distinct (map (\<lambda>r. (fr_account_id r, fr_provider_file_id r)) (db_files ?d))"
    using env(3) by (simp add: conn_ok_def db_ok_def)
  note get = get_file_by_provider_id_result [OF env, of acc i]
  show ?thesis
  proof (cases "filter (\<lambda>r. (fr_account_id r, fr_provider_file_id r) = ?k) (db_files ?d)")
    case Nil
    then show ?thesis using get by (simp add: cloud_view_def filter_find)
  next
    case (Cons r rest)
    then have r: "r \<in> set (db_files ?d)" "fr_account_id r = account_id_str acc" "fr_provider_file_id r = file_id_str i"
      by (auto dest!: filter_eq_ConsD)
    moreover have "state_check (fr_state r)" "row_readable (de_chrono env) r"
      using r(1) assms env(3) by (auto simp: meta_inv_def conn_ok_def db_ok_def)
    ultimately obtain f where f: "file_from_row (de_chrono env) r = Ok f" "f_id f = fr_id r"
      "account_id_str (f_account_id f) = fr_account_id r" "file_id_str (f_provider_file_id f) = fr_provider_file_id r"
      "state_column (f_state f) = fr_state r"
      using file_from_row_readable [of "de_chrono env" r] by blast
    have "cloud_view acc ?d i = Some (row_meta r)" using Cons by (simp add: cloud_view_def filter_find)
    moreover have "get_file_by_provider_id env acc i c = (Ok (Some f), c)" using get Cons f(1) by simp
    moreover have "f_account_id f = acc" "f_provider_file_id f = i" using f(3,4) r by simp_all
    ultimately show ?thesis using r f by blast
  qed
qed

lemma upsert_new:
  assumes inv: "meta_inv env acc c" and new: "cloud_view acc (cn_db c) (ci_id item) = None"
    and get: "get_file_by_provider_id env acc (ci_id item) c = (Ok None, c)"
    and stamp: "stamp_ok (de_chrono env) (ci_modified item)" and room: "db_files_seq (cn_db c) + 1 < 2 ^ 63"
  shows "\<exists>c'. upsert_item_conn env acc item c = (Ok (), c') \<and> meta_inv env acc c' \<and>
    cloud_view acc (cn_db c') = spec_upsert (de_chrono env) item (cloud_view acc (cn_db c)) \<and>
    db_files_seq (cn_db c') = db_files_seq (cn_db c) + 1 \<and> db_cursors (cn_db c') = db_cursors (cn_db c)"
proof -
  let ?d = "cn_db c" and ?ch = "de_chrono env"
  obtain now s where now: "utc_now (de_sys env) (cn_sys c) = (now, s)" by fastforce
  define f where "f = \<lparr> f_id = 0, f_account_id = acc, f_provider_file_id = ci_id item, f_path = ci_path item,
     f_name = ci_name item, f_size = ci_size item, f_content_hash = ci_content_hash item,
     f_is_folder = ci_is_folder item, f_state = FileState.CloudOnly, f_modified_at = ci_modified item,
     f_synced_at = None, f_created_at = now, f_updated_at = now \<rparr>"
  define c1 where "c1 = c\<lparr> cn_sys := s \<rparr>"
  define row where "row = (file_params ?ch f)\<lparr> fr_id := db_files_seq ?d + 1 \<rparr>"
  define c' where "c' = c1\<lparr> cn_db := ?d\<lparr> db_files := db_files ?d @ [row], db_files_seq := db_files_seq ?d + 1 \<rparr> \<rparr>"
  have mk: "cloud_item_to_db_file env acc item c = (Ok f, c1)"
    by (simp add: cloud_item_to_db_file_def file_new_def now f_def c1_def)
  have c1: "conn_ok c1" "cn_db c1 = ?d" using inv by (auto simp: c1_def meta_inv_def conn_ok_def)
  have dk: "db_ok ?d" using inv by (simp add: meta_inv_def conn_ok_def)
  have "file_fits row (db_files ?d)"
  proof -
    have "(account_id_str acc, file_id_str (ci_id item)) \<notin> (\<lambda>r. (fr_account_id r, fr_provider_file_id r)) ` set (db_files ?d)"
      using new by (auto simp: cloud_view_def find_None_iff)
    moreover have "db_files_seq ?d + 1 \<notin> fr_id ` set (db_files ?d)" using dk by (fastforce simp: db_ok_def)
    ultimately show ?thesis by (simp add: file_fits_def row_def f_def state_check_def)
  qed
  then have create: "create_file env f c1 = (Ok (db_files_seq ?d + 1), c')"
    using create_file_result [of env c1 f] inv c1 room
    by (simp add: meta_inv_def sqlite_works_def row_def c'_def f_def)
  have ok': "conn_ok c'" using preservesD [OF create_file_preserves c1(1) create] .
  have "row_readable ?ch row"
    using inv stamp now
    by (auto simp: row_readable_def row_def f_def file_params_def meta_inv_def clock_ok_def stamp_ok_def
        dest!: spec [of _ "cn_sys c"])
  then have inv': "meta_inv env acc c'"
    using inv ok' by (auto simp: meta_inv_def c'_def)
  have "cloud_view acc (cn_db c') = spec_upsert ?ch item (cloud_view acc ?d)"
  proof (rule view_eqI)
    fix i m
    have "cloud_view acc (cn_db c') i = Some m \<longleftrightarrow> cloud_view acc ?d i = Some m \<or>
        ci_id item = i \<and> row_meta row = m"
      using cloud_view_iff [of "cn_db c'"] cloud_view_iff [OF dk] ok'
      by (auto simp: conn_ok_def c'_def row_def f_def)
    moreover have "row_meta row = item_meta ?ch ''cloud_only'' item"
      by (simp add: row_meta_def row_def f_def file_params_def item_meta_def)
    ultimately show "cloud_view acc (cn_db c') i = Some m \<longleftrightarrow> spec_upsert ?ch item (cloud_view acc ?d) i = Some m"
      using new by (auto simp: spec_upsert_def)
  qed
  moreover have "upsert_item_conn env acc item c = (Ok (), c')"
    using get mk create by (simp add: upsert_item_conn_def)
  ultimately show ?thesis using inv' by (auto simp: c'_def)
qed

text \<open>The metadata of a row written from a \<open>File\<close>.\<close>

definition file_meta_of :: "chrono \<Rightarrow> File \<Rightarrow> file_meta" where
  "file_meta_of ch f = \<lparr> mt_name = f_name f, mt_path = cloud_path_as_str (f_path f), mt_size = map_option as_i64 (f_size f),
     mt_hash = f_content_hash f, mt_folder = (if f_is_folder f then 1 else 0), mt_modified = timestamp ch (f_modified_at f),
     mt_state = state_column (f_state f) \<rparr>"

lemma update_known_refines:
  assumes inv: "meta_inv env acc c"
    and r: "r \<in> set (db_files (cn_db c))" "fr_account_id r = account_id_str acc" "fr_provider_file_id r = file_id_str i"
    and g: "f_id g = fr_id r" "f_account_id g = acc" "f_provider_file_id g = i"
    and stamp: "from_timestamp (de_chrono env) (timestamp (de_chrono env) (f_modified_at g)) \<noteq> None"
  shows "\<exists>b c'. update_file env g c = (Ok b, c') \<and> meta_inv env acc c' \<and>
    cloud_view acc (cn_db c') = (cloud_view acc (cn_db c))(i \<mapsto> file_meta_of (de_chrono env) g) \<and>
    db_files_seq (cn_db c') = db_files_seq (cn_db c) \<and> db_cursors (cn_db c') = db_cursors (cn_db c)"
proof -
  let ?d = "cn_db c" and ?ch = "de_chrono env"
  define now where "now = fst (utc_now (de_sys env) (cn_sys c))"
  define new where "new = file_params ?ch (g\<lparr> f_updated_at := now \<rparr>)"
  define hit where "hit = (\<lambda>x :: file_row. fr_id x = fr_id r)"
  define rows where "rows = update_rows hit (set_file_row new) (db_files ?d)"
  have nf: "no_faults (de_sql env)" and ok: "conn_ok c" using inv by (auto simp: meta_inv_def sqlite_works_def)
  have dk: "db_ok ?d" using ok by (simp add: conn_ok_def)
  have new: "fr_id new = fr_id r" "fr_account_id new = account_id_str acc"
    "fr_provider_file_id new = file_id_str i" "fr_state new = state_column (f_state g)"
    using g by (simp_all add: new_def)
  have only: "x = r" if "x \<in> set (db_files ?d)" "hit x" for x
    using that r(1) file_row_id_eq [OF dk] by (simp add: hit_def)
  have same: "x = r" if "x \<in> set (db_files ?d)" "fr_account_id x = account_id_str acc"
      "fr_provider_file_id x = file_id_str i" for x
    using that r file_row_key_eq [OF dk] by simp
  have "file_fits new (filter (\<lambda>x. \<not> hit x) (db_files ?d))"
  proof -
    have "state_check (fr_state new)" using new(4) by (cases "f_state g") (simp_all add: state_check_def)
    then show ?thesis using new by (auto simp: file_fits_def hit_def dest: same)
  qed
  then have row: "update_file_row new True ?d = Inr (length (filter hit (db_files ?d)), ?d\<lparr> db_files := rows \<rparr>)"
    using inv new by (auto simp: update_file_row_def Let_def rows_def hit_def meta_inv_def)
  define c' where "c' = c\<lparr> cn_sys := snd (utc_now (de_sys env) (cn_sys c)), cn_db := ?d\<lparr> db_files := rows \<rparr> \<rparr>"
  have upd: "\<exists>b. update_file env g c = (Ok b, c')"
    using update_file_result [OF nf ok, of g] row by (simp add: new_def now_def c'_def)
  then have ok': "conn_ok c'" using preservesD [OF update_file_preserves ok] by blast
  have set_rows: "set rows = {x \<in> set (db_files ?d). x \<noteq> r} \<union> {set_file_row new r}"
  proof -
    have "{x \<in> set (db_files ?d). \<not> hit x} = {x \<in> set (db_files ?d). x \<noteq> r}"
      "{x \<in> set (db_files ?d). hit x} = {r}"
      using r(1) by (auto simp: hit_def dest: only [unfolded hit_def])
    then show ?thesis by (simp add: rows_def set_update_rows)
  qed
  have "row_readable ?ch (set_file_row new r)"
    using inv stamp r(1)
    by (auto simp: row_readable_def set_file_row_def new_def file_params_def meta_inv_def clock_ok_def
        now_def dest!: stamp_ok_readable)
  then have inv': "meta_inv env acc c'"
    using inv ok' set_rows by (auto simp: meta_inv_def c'_def)
  have "cloud_view acc (cn_db c') = (cloud_view acc ?d)(i \<mapsto> file_meta_of ?ch g)"
  proof (rule view_eqI)
    fix j m
    have "row_meta (set_file_row new r) = file_meta_of ?ch g"
      by (simp add: row_meta_def set_file_row_def new_def file_params_def file_meta_of_def)
    moreover have "set (db_files (cn_db c')) = {x \<in> set (db_files ?d). x \<noteq> r} \<union> {set_file_row new r}"
      using set_rows by (simp add: c'_def)
    then have "cloud_view acc (cn_db c') j = Some m \<longleftrightarrow> i = j \<and> row_meta (set_file_row new r) = m \<or>
        (\<exists>x \<in> set (db_files ?d). x \<noteq> r \<and> fr_account_id x = account_id_str acc \<and>
           fr_provider_file_id x = file_id_str j \<and> row_meta x = m)"
      using cloud_view_iff [of "cn_db c'" acc j m] ok' new by (auto simp: conn_ok_def)
    moreover have "(\<exists>x \<in> set (db_files ?d). x \<noteq> r \<and> fr_account_id x = account_id_str acc \<and>
           fr_provider_file_id x = file_id_str j \<and> row_meta x = m) \<longleftrightarrow> j \<noteq> i \<and> cloud_view acc ?d j = Some m"
    proof (cases "j = i")
      case True
      then show ?thesis by (auto dest: same)
    next
      case False
      then have "fr_provider_file_id r \<noteq> file_id_str j" using r(3) by simp
      then show ?thesis using False cloud_view_iff [OF dk, of acc j m] by auto
    qed
    ultimately show "cloud_view acc (cn_db c') j = Some m \<longleftrightarrow>
        ((cloud_view acc ?d)(i \<mapsto> file_meta_of ?ch g)) j = Some m"
      by auto
  qed
  with upd inv' show ?thesis by (auto simp: c'_def)
qed

lemma upsert_old:
  assumes inv: "meta_inv env acc c"
    and r: "r \<in> set (db_files (cn_db c))" "fr_account_id r = account_id_str acc" "fr_provider_file_id r = file_id_str (ci_id item)"
    and get: "get_file_by_provider_id env acc (ci_id item) c = (Ok (Some f), c)"
    and f: "f_id f = fr_id r" "f_account_id f = acc" "f_provider_file_id f = ci_id item" "state_column (f_state f) = fr_state r"
    and stamp: "stamp_ok (de_chrono env) (ci_modified item)"
  shows "\<exists>c'. upsert_item_conn env acc item c = (Ok (), c') \<and> meta_inv env acc c' \<and>
    cloud_view acc (cn_db c') = spec_upsert (de_chrono env) item (cloud_view acc (cn_db c)) \<and>
    db_files_seq (cn_db c') = db_files_seq (cn_db c) \<and> db_cursors (cn_db c') = db_cursors (cn_db c)"
proof -
  let ?ch = "de_chrono env"
  have g: "f_id (with_item item f) = fr_id r" "f_account_id (with_item item f) = acc"
    "f_provider_file_id (with_item item f) = ci_id item" "f_modified_at (with_item item f) = ci_modified item"
    using f by (simp_all add: with_item_def)
  have "db_ok (cn_db c)" using inv by (simp add: meta_inv_def conn_ok_def)
  then have "cloud_view acc (cn_db c) (ci_id item) = Some (row_meta r)" using cloud_view_iff r by blast
  then have "(cloud_view acc (cn_db c))(ci_id item \<mapsto> file_meta_of ?ch (with_item item f)) =
      spec_upsert ?ch item (cloud_view acc (cn_db c))"
    using f(4) by (simp add: spec_upsert_def file_meta_of_def with_item_def item_meta_def row_meta_def)
  then show ?thesis
    using update_known_refines [OF inv r g(1,2,3)] stamp_ok_readable [OF stamp] g(4) get
    by (auto simp: upsert_item_conn_def)
qed

lemma upsert_item_refines:
  assumes "meta_inv env acc c" "stamp_ok (de_chrono env) (ci_modified item)" "db_files_seq (cn_db c) + 1 < 2 ^ 63"
  shows "\<exists>c'. upsert_item_conn env acc item c = (Ok (), c') \<and> meta_inv env acc c' \<and>
    cloud_view acc (cn_db c') = spec_upsert (de_chrono env) item (cloud_view acc (cn_db c)) \<and>
    db_files_seq (cn_db c') \<le> db_files_seq (cn_db c) + 1 \<and> db_cursors (cn_db c') = db_cursors (cn_db c)"
  using get_existing [OF assms(1), of "ci_id item"]
proof
  assume "cloud_view acc (cn_db c) (ci_id item) = None \<and> get_file_by_provider_id env acc (ci_id item) c = (Ok None, c)"
  then show ?thesis using upsert_new [OF assms(1) _ _ assms(2,3)] by force
next
  assume "\<exists>r f. r \<in> set (db_files (cn_db c)) \<and> fr_account_id r = account_id_str acc \<and>
       fr_provider_file_id r = file_id_str (ci_id item) \<and> cloud_view acc (cn_db c) (ci_id item) = Some (row_meta r) \<and>
       get_file_by_provider_id env acc (ci_id item) c = (Ok (Some f), c) \<and>
       f_id f = fr_id r \<and> f_account_id f = acc \<and> f_provider_file_id f = ci_id item \<and> state_column (f_state f) = fr_state r"
  then obtain r f where "r \<in> set (db_files (cn_db c))" "fr_account_id r = account_id_str acc"
       "fr_provider_file_id r = file_id_str (ci_id item)"
       "get_file_by_provider_id env acc (ci_id item) c = (Ok (Some f), c)"
       "f_id f = fr_id r" "f_account_id f = acc" "f_provider_file_id f = ci_id item" "state_column (f_state f) = fr_state r"
    by blast
  from upsert_old [OF assms(1) this assms(2)] show ?thesis by force
qed

lemma delete_change_refines:
  assumes inv: "meta_inv env acc c"
  shows "\<exists>c'. delete_change_conn env acc i c = (Ok (), c') \<and> meta_inv env acc c' \<and>
    cloud_view acc (cn_db c') = (cloud_view acc (cn_db c))(i := None) \<and>
    db_files_seq (cn_db c') = db_files_seq (cn_db c) \<and> db_cursors (cn_db c') = db_cursors (cn_db c)"
  using get_existing [OF inv, of i]
proof
  assume "cloud_view acc (cn_db c) i = None \<and> get_file_by_provider_id env acc i c = (Ok None, c)"
  then show ?thesis using inv by (auto simp: delete_change_conn_def fun_upd_idem)
next
  let ?d = "cn_db c"
  assume "\<exists>r f. r \<in> set (db_files ?d) \<and> fr_account_id r = account_id_str acc \<and> fr_provider_file_id r = file_id_str i \<and>
       cloud_view acc ?d i = Some (row_meta r) \<and> get_file_by_provider_id env acc i c = (Ok (Some f), c) \<and>
       f_id f = fr_id r \<and> f_account_id f = acc \<and> f_provider_file_id f = i \<and> state_column (f_state f) = fr_state r"
  then obtain r f where r: "r \<in> set (db_files ?d)" "fr_account_id r = account_id_str acc" "fr_provider_file_id r = file_id_str i"
    "get_file_by_provider_id env acc i c = (Ok (Some f), c)" "f_id f = fr_id r"
    by blast
  have nf: "no_faults (de_sql env)" and ok: "conn_ok c" using inv by (auto simp: meta_inv_def sqlite_works_def)
  have dk: "db_ok ?d" using ok by (simp add: conn_ok_def)
  define c' where "c' = c\<lparr> cn_db := ?d\<lparr> db_files := filter (\<lambda>x. fr_id x \<noteq> fr_id r) (db_files ?d) \<rparr> \<rparr>"
  have del: "\<exists>b. delete_file env (f_id f) c = (Ok b, c')"
    using nf ok r(5)
    by (simp add: delete_file_def bindS_def map_errS_def sql_execute_def no_faults_def delete_file_rows_def conn_ok_def c'_def)
  then have ok': "conn_ok c'" using preservesD [OF delete_file_preserves ok] by blast
  have only: "x = r" if "x \<in> set (db_files ?d)" "fr_id x = fr_id r" for x
    using that r(1) file_row_id_eq [OF dk] by blast
  have same: "x = r" if "x \<in> set (db_files ?d)" "fr_account_id x = account_id_str acc" "fr_provider_file_id x = file_id_str i" for x
    using that r file_row_key_eq [OF dk] by simp
  have "cloud_view acc (cn_db c') = (cloud_view acc ?d)(i := None)"
  proof (rule view_eqI)
    fix j m
    have "set (db_files (cn_db c')) = {x \<in> set (db_files ?d). x \<noteq> r}" by (auto simp: c'_def dest: only)
    then have "cloud_view acc (cn_db c') j = Some m \<longleftrightarrow> (\<exists>x \<in> set (db_files ?d). x \<noteq> r \<and>
        fr_account_id x = account_id_str acc \<and> fr_provider_file_id x = file_id_str j \<and> row_meta x = m)"
      using cloud_view_iff [of "cn_db c'" acc j m] ok' by (auto simp: conn_ok_def)
    also have "\<dots> \<longleftrightarrow> ((cloud_view acc ?d)(i := None)) j = Some m"
    proof (cases "j = i")
      case True
      then show ?thesis by (auto dest: same)
    next
      case False
      then have "fr_provider_file_id r \<noteq> file_id_str j" using r(3) by simp
      then show ?thesis using False cloud_view_iff [OF dk, of acc j m] by auto
    qed
    finally show "cloud_view acc (cn_db c') j = Some m \<longleftrightarrow> ((cloud_view acc ?d)(i := None)) j = Some m" .
  qed
  moreover have "meta_inv env acc c'" using inv ok' by (auto simp: meta_inv_def c'_def)
  moreover have "delete_change_conn env acc i c = (Ok (), c')"
    using r(4) del by (auto simp: delete_change_conn_def)
  ultimately show ?thesis by (auto simp: c'_def)
qed

section \<open>Whole rounds\<close>

definition handle_inv :: "'s db_env \<Rightarrow> AccountId \<Rightarrow> 's Database \<Rightarrow> bool" where
  "handle_inv env acc db \<longleftrightarrow> \<not> dbh_poisoned db \<and> meta_inv env acc (dbh_conn db)"

abbreviation handle_view :: "AccountId \<Rightarrow> 's Database \<Rightarrow> FileId \<Rightarrow> file_meta option" where
  "handle_view acc db \<equiv> cloud_view acc (cn_db (dbh_conn db))"

abbreviation handle_seq :: "'s Database \<Rightarrow> int" where
  "handle_seq db \<equiv> db_files_seq (cn_db (dbh_conn db))"

definition stored_cursor :: "AccountId \<Rightarrow> 's Database \<Rightarrow> string option" where
  "stored_cursor acc db = map_option cr_cursor
     (find (\<lambda>r. cr_account_id r = account_id_str acc) (db_cursors (cn_db (dbh_conn db))))"

definition change_stamps_ok :: "chrono \<Rightarrow> Change \<Rightarrow> bool" where
  "change_stamps_ok ch change \<longleftrightarrow>
     (case ch_item change of None \<Rightarrow> True | Some item \<Rightarrow> stamp_ok ch (ci_modified item))"

lemma with_conn_refines:
  assumes "handle_inv env acc db" and "\<exists>c'. f (dbh_conn db) = (Ok x, c') \<and> meta_inv env acc c' \<and> Q (cn_db c')"
  shows "\<exists>db'. with_conn f db = (Ok x, db') \<and> handle_inv env acc db' \<and> Q (cn_db (dbh_conn db'))"
  using assms by (fastforce simp: with_conn_def handle_inv_def)

lemma upsert_cloud_item_refines:
  assumes "handle_inv env acc db" "stamp_ok (de_chrono env) (ci_modified item)" "handle_seq db + 1 < 2 ^ 63"
  shows "\<exists>db'. upsert_cloud_item env acc item db = (Ok (), db') \<and> handle_inv env acc db' \<and>
    handle_view acc db' = spec_upsert (de_chrono env) item (handle_view acc db) \<and>
    handle_seq db' \<le> handle_seq db + 1 \<and> db_cursors (cn_db (dbh_conn db')) = db_cursors (cn_db (dbh_conn db))"
  unfolding upsert_cloud_item_def
  using upsert_item_refines [OF _ assms(2,3)] assms(1)
  by (intro with_conn_refines [where Q = "\<lambda>d. cloud_view acc d = spec_upsert (de_chrono env) item (handle_view acc db) \<and>
      db_files_seq d \<le> handle_seq db + 1 \<and> db_cursors d = db_cursors (cn_db (dbh_conn db))"])
    (simp_all add: handle_inv_def)

lemma apply_change_refines:
  assumes "handle_inv env acc db" "change_stamps_ok (de_chrono env) change" "handle_seq db + 1 < 2 ^ 63"
  shows "\<exists>db'. apply_change env acc change db = (Ok (), db') \<and> handle_inv env acc db' \<and>
    handle_view acc db' = spec_change (de_chrono env) change (handle_view acc db) \<and>
    handle_seq db' \<le> handle_seq db + 1 \<and> db_cursors (cn_db (dbh_conn db')) = db_cursors (cn_db (dbh_conn db))"
proof (cases "ch_deleted change")
  case True
  have "\<exists>db'. with_conn (delete_change_conn env acc (ch_file_id change)) db = (Ok (), db') \<and> handle_inv env acc db' \<and>
      (\<lambda>d. cloud_view acc d = (handle_view acc db)(ch_file_id change := None) \<and> db_files_seq d = handle_seq db \<and>
        db_cursors d = db_cursors (cn_db (dbh_conn db))) (cn_db (dbh_conn db'))"
    using delete_change_refines [of env acc "dbh_conn db" "ch_file_id change"] assms(1)
    by (intro with_conn_refines) (simp_all add: handle_inv_def del: fun_upd_apply)
  then show ?thesis using True by (auto simp: apply_change_def spec_change_def)
next
  case False
  show ?thesis
  proof (cases "ch_item change")
    case None
    then show ?thesis using False assms(1) by (simp add: apply_change_def spec_change_def)
  next
    case (Some item)
    then show ?thesis
      using False upsert_cloud_item_refines [OF assms(1) _ assms(3), of item] assms(2)
      by (simp add: apply_change_def spec_change_def change_stamps_ok_def)
  qed
qed

text \<open>A loop of updates, each of which follows its specification and uses one identifier at most.\<close>

lemma for_each_refines:
  fixes step :: "'x \<Rightarrow> ('s Database, unit, DbError) st"
  assumes step: "\<And>db x. handle_inv env acc db \<Longrightarrow> P x \<Longrightarrow> handle_seq db + 1 < 2 ^ 63 \<Longrightarrow>
      \<exists>db'. step x db = (Ok (), db') \<and> handle_inv env acc db' \<and> handle_view acc db' = spec x (handle_view acc db) \<and>
        handle_seq db' \<le> handle_seq db + 1"
    and "handle_inv env acc db" "\<forall>x \<in> set xs. P x" "handle_seq db + int (length xs) < 2 ^ 63"
  shows "\<exists>db'. for_eachS (\<lambda>x. on_db (step x)) xs (db, w) = (Ok (), (db', w)) \<and> handle_inv env acc db' \<and>
    handle_view acc db' = fold spec xs (handle_view acc db) \<and> handle_seq db' \<le> handle_seq db + int (length xs)"
  using assms(2-)
proof (induction xs arbitrary: db)
  case (Cons x xs)
  then obtain db1 where 1: "step x db = (Ok (), db1)" "handle_inv env acc db1"
    "handle_view acc db1 = spec x (handle_view acc db)" "handle_seq db1 \<le> handle_seq db + 1"
    using step [of db x] by auto
  from Cons.IH [OF 1(2)] 1(4) Cons.prems obtain db2 where
    "for_eachS (\<lambda>x. on_db (step x)) xs (db1, w) = (Ok (), (db2, w))" "handle_inv env acc db2"
    "handle_view acc db2 = fold spec xs (handle_view acc db1)" "handle_seq db2 \<le> handle_seq db1 + int (length xs)"
    by auto
  with 1 show ?case
    by (intro exI [of _ db2]) (simp add: bindS_def on_db_def on_fst_def map_errS_def)
qed simp

lemma upsert_cursor_refines:
  assumes "handle_inv env acc db"
  shows "\<exists>db'. with_conn (upsert_cursor env (account_id_str acc) cur) db = (Ok (), db') \<and> handle_inv env acc db' \<and>
    handle_view acc db' = handle_view acc db \<and> handle_seq db' = handle_seq db \<and> stored_cursor acc db' = Some cur"
proof -
  let ?c = "dbh_conn db" and ?d = "cn_db (dbh_conn db)"
  have inv: "meta_inv env acc ?c" and np: "\<not> dbh_poisoned db" using assms by (auto simp: handle_inv_def)
  define row where "row = \<lparr> cr_account_id = account_id_str acc, cr_cursor = cur,
     cr_updated_at = timestamp (de_chrono env) (fst (utc_now (de_sys env) (cn_sys ?c))) \<rparr>"
  define rows where "rows = (if \<exists>r \<in> set (db_cursors ?d). cr_account_id r = account_id_str acc
     then update_rows (\<lambda>r. cr_account_id r = account_id_str acc) (\<lambda>_. row) (db_cursors ?d) else db_cursors ?d @ [row])"
  have "upsert_cursor_row row True ?d = Inr ((), ?d\<lparr> db_cursors := rows \<rparr>)"
    using inv by (auto simp: upsert_cursor_row_def Let_def rows_def row_def meta_inv_def)
  then have up: "\<exists>c'. upsert_cursor env (account_id_str acc) cur ?c = (Ok (), c') \<and> cn_db c' = ?d\<lparr> db_cursors := rows \<rparr>"
    using inv
    by (simp add: upsert_cursor_def bindS_def now_st_app map_errS_def sql_execute_def meta_inv_def sqlite_works_def
        no_faults_def conn_ok_def row_def)
  then obtain c' where c': "upsert_cursor env (account_id_str acc) cur ?c = (Ok (), c')" "cn_db c' = ?d\<lparr> db_cursors := rows \<rparr>"
    by blast
  have "find (\<lambda>r. cr_account_id r = account_id_str acc) (update_rows (\<lambda>r. cr_account_id r = account_id_str acc) (\<lambda>_. row) xs)
      = (if \<exists>r \<in> set xs. cr_account_id r = account_id_str acc then Some row else None)" for xs
    by (induction xs) (auto simp: update_rows_def row_def)
  moreover have "find P (xs @ [row]) = Some row" if "\<forall>x \<in> set xs. \<not> P x" "P row" for P xs
    using that by (induction xs) auto
  ultimately have "find (\<lambda>r. cr_account_id r = account_id_str acc) rows = Some row"
    by (auto simp: rows_def row_def)
  moreover have "meta_inv env acc c'"
    using preservesD [OF upsert_cursor_preserves _ c'(1)] inv c'(2) by (simp add: meta_inv_def)
  ultimately show ?thesis
    using c' np by (intro exI [of _ "db\<lparr> dbh_conn := c' \<rparr>"])
      (simp add: with_conn_def handle_inv_def stored_cursor_def cloud_view_def row_def fun_eq_iff)
qed

lemma get_cursor_result:
  assumes "handle_inv env acc db"
  shows "with_conn (get_cursor env (account_id_str acc)) db = (Ok (stored_cursor acc db), db)"
  using assms
  by (auto simp: with_conn_def handle_inv_def meta_inv_def sqlite_works_def no_faults_def get_cursor_def
      optional_row_def sql_query_row_def stored_cursor_def filter_find split: list.splits)

lemma incremental_loop_follows:
  fixes prov :: "'w CloudProvider"
  assumes "change_feed prov cursor w pages r w'" and "r = Ok final" and "cursor = Some cur"
    and "handle_inv env acc db" and "\<forall>ch \<in> set (concat (map cl_changes pages)). change_stamps_ok (de_chrono env) ch"
    and "handle_seq db + int (length (concat (map cl_changes pages))) < 2 ^ 63"
  shows "\<exists>db'. incremental_loop env prov acc cur n (db, w) =
      Some (Ok (n + length (concat (map cl_changes pages))), (db', w')) \<and> handle_inv env acc db' \<and>
    handle_view acc db' = fold (spec_change (de_chrono env)) (concat (map cl_changes pages)) (handle_view acc db) \<and>
    stored_cursor acc db' = Some final"
proof -
  have page: "\<exists>db2. for_eachS (\<lambda>change. on_db (apply_change env acc change)) (cl_changes cl) (db, w) = (Ok (), (db2, w)) \<and>
      handle_inv env acc db2 \<and> handle_view acc db2 = fold (spec_change (de_chrono env)) (cl_changes cl) (handle_view acc db) \<and>
      handle_seq db2 \<le> handle_seq db + int (length (cl_changes cl))"
    if "handle_inv env acc db" "\<forall>ch \<in> set (cl_changes cl). change_stamps_ok (de_chrono env) ch"
      "handle_seq db + int (length (cl_changes cl)) < 2 ^ 63" for db and cl and w :: "'w world"
  proof (rule for_each_refines [where P = "change_stamps_ok (de_chrono env)"])
    fix db and x :: Change
    assume "handle_inv env acc db" "change_stamps_ok (de_chrono env) x" "handle_seq db + 1 < 2 ^ 63"
    from apply_change_refines [OF this] show "\<exists>db'. apply_change env acc x db = (Ok (), db') \<and> handle_inv env acc db' \<and>
        handle_view acc db' = spec_change (de_chrono env) x (handle_view acc db) \<and> handle_seq db' \<le> handle_seq db + 1"
      by blast
  qed (use that in auto)
  show ?thesis
    using assms
  proof (induction arbitrary: cur n db rule: change_feed.induct)
    case (last_page cursor w cl w')
    obtain db2 where 2: "for_eachS (\<lambda>change. on_db (apply_change env acc change)) (cl_changes cl) (db, w') = (Ok (), (db2, w'))"
      "handle_inv env acc db2" "handle_view acc db2 = fold (spec_change (de_chrono env)) (cl_changes cl) (handle_view acc db)"
      using page [of db cl w'] last_page.prems by auto
    obtain db3 where "with_conn (upsert_cursor env (account_id_str acc) (cl_cursor cl)) db2 = (Ok (), db3)"
      "handle_inv env acc db3" "handle_view acc db3 = handle_view acc db2" "stored_cursor acc db3 = Some (cl_cursor cl)"
      using upsert_cursor_refines [OF 2(2)] by blast
    with 2 last_page show ?case
      by (intro exI [of _ db3])
        (simp add: incremental_loop.simps bindS_def on_provider_def on_snd_def map_errS_def on_db_def on_fst_def)
  next
    case (next_page cursor w cl w' pages r w'')
    obtain db2 where 2: "for_eachS (\<lambda>change. on_db (apply_change env acc change)) (cl_changes cl) (db, w') = (Ok (), (db2, w'))"
      "handle_inv env acc db2" "handle_view acc db2 = fold (spec_change (de_chrono env)) (cl_changes cl) (handle_view acc db)"
      "handle_seq db2 \<le> handle_seq db + int (length (cl_changes cl))"
      using page [of db cl w'] next_page.prems by auto
    obtain db3 where 3: "with_conn (upsert_cursor env (account_id_str acc) (cl_cursor cl)) db2 = (Ok (), db3)"
      "handle_inv env acc db3" "handle_view acc db3 = handle_view acc db2" "handle_seq db3 = handle_seq db2"
      using upsert_cursor_refines [OF 2(2)] by blast
    obtain db4 where "incremental_loop env prov acc (cl_cursor cl) (n + length (cl_changes cl)) (db3, w') =
        Some (Ok (n + length (cl_changes cl) + length (concat (map cl_changes pages))), (db4, w''))"
      "handle_inv env acc db4" "stored_cursor acc db4 = Some final"
      "handle_view acc db4 = fold (spec_change (de_chrono env)) (concat (map cl_changes pages)) (handle_view acc db3)"
      using next_page.IH [OF next_page.prems(1) refl 3(2), of "n + length (cl_changes cl)"] next_page.prems 2(4) 3(4)
      by (auto simp: add.assoc)
    with 2 3 next_page.hyps next_page.prems show ?case
      by (intro exI [of _ db4])
        (simp add: incremental_loop.simps [of _ _ _ cur] bindS_def on_provider_def on_snd_def map_errS_def on_db_def
          on_fst_def add.assoc)
  qed simp_all
qed

section \<open>Direct children\<close>

text \<open>On paths without doubled slashes the prefix test of \<open>get_children\<close> finds the children.\<close>

lemma child_prefix_canonical:
  assumes "canonical_path p"
  shows "child_prefix (cloud_path_as_str p) = (if p = cloud_path_root then [] else cloud_path_as_str p) @ ''/''"
proof (cases "p = cloud_path_root")
  case False
  then have "cloud_path_as_str p \<noteq> ''/''" by (cases p) (simp add: cloud_path_root_def)
  with assms False show ?thesis by (simp add: child_prefix_def canonical_path_def cloud_path_is_root_def)
qed (simp add: child_prefix_def cloud_path_root_def)

lemma is_direct_child_iff_join:
  assumes p: "canonical_path p" and f: "canonical_path (f_path f)" "f_path f \<noteq> cloud_path_root"
  shows "is_direct_child (cloud_path_as_str p) f \<longleftrightarrow>
    (\<exists>c. c \<noteq> [] \<and> slash \<notin> set c \<and> f_path f = cloud_path_join p c)"
proof -
  let ?b = "if p = cloud_path_root then [] else cloud_path_as_str p" and ?s = "cloud_path_as_str (f_path f)"
  have ne: "?s \<noteq> ''/''" using f(2) by (cases "f_path f") (simp add: cloud_path_root_def)
  then have last: "last ?s \<noteq> slash" using f(1) by (simp add: canonical_path_def cloud_path_is_root_def)
  have "is_direct_child (cloud_path_as_str p) f \<longleftrightarrow> (\<exists>c. ?s = ?b @ slash # c \<and> slash \<notin> set c)"
    by (auto simp: is_direct_child_def child_prefix_canonical [OF p] starts_with_iff Let_def)
  also have "\<dots> \<longleftrightarrow> (\<exists>c. c \<noteq> [] \<and> ?s = ?b @ slash # c \<and> slash \<notin> set c)"
    using last by (metis last_snoc)
  also have "\<dots> \<longleftrightarrow> (\<exists>c. c \<noteq> [] \<and> slash \<notin> set c \<and> f_path f = cloud_path_join p c)"
    using join_component(1) [OF p] by (metis cloud_path_as_str_inj)
  finally show ?thesis .
qed

lemma is_direct_child_parent:
  assumes p: "canonical_path p" and f: "canonical_path (f_path f)" "f_path f \<noteq> cloud_path_root"
    and single: "\<not> starts_with ''//'' (cloud_path_as_str (f_path f))"
  shows "is_direct_child (cloud_path_as_str p) f \<longleftrightarrow> cloud_path_parent (f_path f) = Some p"
proof
  assume "is_direct_child (cloud_path_as_str p) f"
  then show "cloud_path_parent (f_path f) = Some p"
    using is_direct_child_iff_join [OF p f] parent_join_component(1) [OF p] by auto
next
  let ?s = "cloud_path_as_str (f_path f)"
  assume par: "cloud_path_parent (f_path f) = Some p"
  have ne: "?s \<noteq> ''/''" using f(2) by (cases "f_path f") (simp add: cloud_path_root_def)
  have trim: "trim_end_matches slash ?s = ?s" using f(1) ne by (simp add: canonical_path_def cloud_path_is_root_def)
  have "slash \<in> set ?s" using f(1) by (cases ?s) (auto simp: canonical_path_def normal_path_def starts_with_def)
  then obtain i where i: "rfind slash ?s = Some i" using rfind_None_iff by fastforce
  from rfind_SomeD [OF i] have at: "i < length ?s" "?s ! i = slash" "slash \<notin> set (drop (Suc i) ?s)" by auto
  then have split: "?s = take i ?s @ slash # drop (Suc i) ?s" by (metis id_take_nth_drop)
  have "p = (if i = 0 then cloud_path_root else CloudPath (take i ?s))"
    using par ne trim i by (simp add: cloud_path_parent_def split: if_splits)
  moreover have "CloudPath (take i ?s) \<noteq> cloud_path_root" if "i \<noteq> 0"
  proof
    assume "CloudPath (take i ?s) = cloud_path_root"
    then have "?s = ''/'' @ slash # drop (Suc i) ?s" using split by (simp add: cloud_path_root_def)
    then show False using single by (metis append_Cons append_Nil starts_with_append)
  qed
  ultimately have "take i ?s = (if p = cloud_path_root then [] else cloud_path_as_str p)"
    by (cases "i = 0") auto
  then have "?s = child_prefix (cloud_path_as_str p) @ drop (Suc i) ?s"
    using split by (simp add: child_prefix_canonical [OF p])
  then show "is_direct_child (cloud_path_as_str p) f"
    using at(3) unfolding is_direct_child_def Let_def
    by (metis append_eq_conv_conj starts_with_append)
qed

lemma list_all2_left: "list_all2 P xs ys \<Longrightarrow> x \<in> set xs \<Longrightarrow> \<exists>y \<in> set ys. P x y"
  by (induction rule: list_all2_induct) auto

lemma list_all2_right: "list_all2 P xs ys \<Longrightarrow> y \<in> set ys \<Longrightarrow> \<exists>x \<in> set xs. P x y"
  by (induction rule: list_all2_induct) auto

lemma list_files_readable:
  assumes "handle_inv env acc db"
  shows "\<exists>rows fs. with_conn (list_files env acc None) db = (Ok fs, db) \<and>
    set rows = {r \<in> set (db_files (cn_db (dbh_conn db))). fr_account_id r = account_id_str acc} \<and>
    list_all2 (\<lambda>r f. file_from_row (de_chrono env) r = Ok f) rows fs"
proof -
  let ?c = "dbh_conn db"
  have inv: "meta_inv env acc ?c" and np: "\<not> dbh_poisoned db" using assms by (auto simp: handle_inv_def)
  define rows where "rows = sort_key fr_path (filter (\<lambda>r. fr_account_id r = account_id_str acc)
      (sq_scan_files (de_sql env) ''SELECT files'' (db_files (cn_db ?c))))"
  have "mset (sq_scan_files (de_sql env) ''SELECT files'' (db_files (cn_db ?c))) = mset (db_files (cn_db ?c))"
    using inv by (simp add: meta_inv_def sqlite_works_def scans_rows_def)
  then have set_rows: "set rows = {r \<in> set (db_files (cn_db ?c)). fr_account_id r = account_id_str acc}"
    unfolding rows_def by (auto dest: mset_eq_setD)
  have "\<exists>f. file_from_row (de_chrono env) r = Ok f" if "r \<in> set rows" for r
    using that inv file_from_row_readable [of "de_chrono env" r]
    by (auto simp: set_rows meta_inv_def conn_ok_def db_ok_def)
  then obtain g where "\<And>r. r \<in> set rows \<Longrightarrow> file_from_row (de_chrono env) r = Ok (g r)" by metis
  then have fs: "collect_ok (file_from_row (de_chrono env)) rows = Ok (map g rows)" by (rule collect_ok_map)
  have "list_files env acc None ?c = (Ok (map g rows), ?c)"
    using inv fs by (simp add: list_files_def map_errS_def sql_query_map_def meta_inv_def sqlite_works_def
        no_faults_def rows_def)
  then have "with_conn (list_files env acc None) db = (Ok (map g rows), db)"
    using np by (simp add: with_conn_def)
  with set_rows fs show ?thesis by (auto simp: collect_ok_Ok_iff)
qed

section \<open>Properties of the metadata side\<close>

lemma incremental_round_follows:
  assumes "handle_inv env acc db" and "stored_cursor acc db = Some cur"
    and "change_feed prov (Some cur) w pages (Ok final) w'"
    and "\<forall>ch \<in> set (concat (map cl_changes pages)). change_stamps_ok (de_chrono env) ch"
    and "handle_seq db + int (length (concat (map cl_changes pages))) < 2 ^ 63"
  shows "\<exists>db'. incremental_sync env prov acc (db, w) = Some (Ok (length (concat (map cl_changes pages))), (db', w')) \<and>
    handle_inv env acc db' \<and>
    handle_view acc db' = fold (spec_change (de_chrono env)) (concat (map cl_changes pages)) (handle_view acc db) \<and>
    stored_cursor acc db' = Some final"
  using incremental_loop_follows [OF assms(3) refl refl assms(1,4,5), of 0] get_cursor_result [OF assms(1)] assms(2)
  by (simp add: incremental_sync_def on_db_def on_fst_def map_errS_def)

text \<open>
  C2: One incremental round, when the provider serves its feed from the stored cursor to the
  end, returns the number of changes, leaves in the files table exactly what applying the
  changes one after the other to a map from file identifiers to metadata gives (new files
  are cloud-only, known files keep their state), and stores the feed's last cursor.
\<close>

theorem incremental_sync_follows_feed:
  assumes "handle_inv env acc db" and "stored_cursor acc db = Some cur"
    and "change_feed prov (Some cur) w pages (Ok final) w'"
    and "\<forall>ch \<in> set (concat (map cl_changes pages)). change_stamps_ok (de_chrono env) ch"
    and "handle_seq db + int (length (concat (map cl_changes pages))) < 2 ^ 63"
  shows "\<exists>db'. incremental_sync env prov acc (db, w) = Some (Ok (length (concat (map cl_changes pages))), (db', w')) \<and>
    handle_inv env acc db' \<and>
    handle_view acc db' = fold (spec_change (de_chrono env)) (concat (map cl_changes pages)) (handle_view acc db) \<and>
    stored_cursor acc db' = Some final"
  by (rule incremental_round_follows [OF assms])

text \<open>A database with an account, one file and the stored cursor \<open>7\<close>.\<close>

definition sample_meta :: "nat Database" where
  "sample_meta = \<lparr> dbh_conn = sample_conn sample_db, dbh_poisoned = False \<rparr>"

definition sample_world :: "unit world" where
  "sample_world = \<lparr> w_disk = Map.empty, w_outer = () \<rparr>"

lemma sample_meta_inv [simp]: "handle_inv sample_env (AccountId ''acc'') sample_meta"
proof -
  have "int (n mod 1000) * 1500000000 < 1500000000000" for n :: nat
    using mod_less_divisor [of 1000 n] by linarith
  then have "clock_ok sample_env"
    unfolding clock_ok_def sample_env_def by (fastforce intro!: stamp_ok_utc)
  moreover have "row_readable chrono_utc ((file_params chrono_utc sample_file)\<lparr> fr_id := 1 \<rparr>)"
    by (simp add: row_readable_def file_params_def sample_file_def chrono_utc_def)
  ultimately show ?thesis
    by (simp add: handle_inv_def sample_meta_def meta_inv_def sample_conn_ok(1) account_exists_def)
      (simp add: sample_conn_def sample_db_def account_params_def sample_account_def)
qed

lemma sample_meta_cursor [simp]: "stored_cursor (AccountId ''acc'') sample_meta = Some ''7''"
  by (simp add: stored_cursor_def sample_meta_def sample_conn_def sample_db_def)

lemma sample_meta_feed:
  "change_feed sample_provider (Some ''7'') w [sample_page False, sample_page True] (Ok ''3'') w"
proof (rule change_feed.next_page)
  have "change_feed sample_provider (Some ''2'') w [sample_page True] (Ok (cl_cursor (sample_page True))) w"
    by (rule change_feed.last_page) (simp_all add: sample_provider_def sample_page_def)
  then show "change_feed sample_provider (Some (cl_cursor (sample_page False))) w [sample_page True] (Ok ''3'') w"
    by (simp add: sample_page_def)
qed (simp_all add: sample_provider_def sample_page_def)

theorem incremental_sync_follows_feed_witness:
  "\<exists>db'. incremental_sync sample_env sample_provider (AccountId ''acc'') (sample_meta, sample_world) = Some (Ok 3, (db', sample_world)) \<and>
     stored_cursor (AccountId ''acc'') db' = Some ''3''"
proof -
  have "\<forall>ch \<in> set (concat (map cl_changes [sample_page False, sample_page True])). change_stamps_ok chrono_utc ch"
    "length (concat (map cl_changes [sample_page False, sample_page True])) = 3"
    by (simp_all add: sample_page_def sample_change_def sample_item_def change_stamps_ok_def stamp_ok_utc)
  moreover have "handle_seq sample_meta = 1" by (simp add: sample_meta_def sample_conn_def sample_db_def)
  ultimately show ?thesis
    using incremental_sync_follows_feed [OF sample_meta_inv sample_meta_cursor sample_meta_feed [of sample_world]] by fastforce
qed

text \<open>
  The initial round stores every listed item (later listings of an identifier overwrite
  earlier ones, nothing else is touched, files that vanished from the listing stay), and
  stores the cursor of a feed asked without a cursor.
\<close>

lemma meta_initial_sync_stores_listing:
  assumes "handle_inv env acc db" and "cp_list_folder prov cloud_path_root w = (Ok items, w1)"
    and "cp_get_changes prov None w1 = (Ok cl, w2)"
    and "\<forall>item \<in> set items. stamp_ok (de_chrono env) (ci_modified item)"
    and "handle_seq db + int (length items) < 2 ^ 63"
  shows "\<exists>db'. meta_initial_sync env prov acc (db, w) = (Ok (length items), (db', w2)) \<and> handle_inv env acc db' \<and>
    handle_view acc db' = fold (spec_upsert (de_chrono env)) items (handle_view acc db) \<and>
    stored_cursor acc db' = Some (cl_cursor cl)"
proof -
  have "\<exists>db'. upsert_cloud_item env acc x db = (Ok (), db') \<and> handle_inv env acc db' \<and>
      handle_view acc db' = spec_upsert (de_chrono env) x (handle_view acc db) \<and> handle_seq db' \<le> handle_seq db + 1"
    if "handle_inv env acc db" "stamp_ok (de_chrono env) (ci_modified x)" "handle_seq db + 1 < 2 ^ 63" for db x
    using upsert_cloud_item_refines [OF that] by blast
  from for_each_refines [of env acc "\<lambda>x. stamp_ok (de_chrono env) (ci_modified x)" "upsert_cloud_item env acc"
      "spec_upsert (de_chrono env)", OF this assms(1,4,5), of w1]
  obtain db2 where 2: "for_eachS (\<lambda>x. on_db (upsert_cloud_item env acc x)) items (db, w1) = (Ok (), (db2, w1))"
    "handle_inv env acc db2" "handle_view acc db2 = fold (spec_upsert (de_chrono env)) items (handle_view acc db)"
    by blast
  obtain db3 where "with_conn (upsert_cursor env (account_id_str acc) (cl_cursor cl)) db2 = (Ok (), db3)"
    "handle_inv env acc db3" "handle_view acc db3 = handle_view acc db2" "stored_cursor acc db3 = Some (cl_cursor cl)"
    using upsert_cursor_refines [OF 2(2)] by blast
  with 2 assms(2,3) show ?thesis
    by (intro exI [of _ db3])
      (simp add: meta_initial_sync_def bindS_def on_provider_def on_snd_def map_errS_def on_db_def on_fst_def)
qed

text \<open>
  C30: \<open>get_children\<close> lists exactly the files whose parent is the given folder, when the stored
  paths name entries without trailing or doubled leading slashes.
\<close>

theorem get_children_exact:
  assumes "handle_inv env acc db" and "canonical_path p"
    and "\<forall>i m. handle_view acc db i = Some m \<longrightarrow> canonical_path (cloud_path_new (mt_path m)) \<and>
      cloud_path_new (mt_path m) \<noteq> cloud_path_root \<and> \<not> starts_with ''//'' (cloud_path_as_str (cloud_path_new (mt_path m)))"
  shows "\<exists>children. get_children env acc (cloud_path_as_str p) db = (Ok children, db) \<and>
    (\<forall>i. i \<in> cf_file_id ` set children \<longleftrightarrow>
      (\<exists>m. handle_view acc db i = Some m \<and> cloud_path_parent (cloud_path_new (mt_path m)) = Some p))"
proof -
  have dk: "db_ok (cn_db (dbh_conn db))" using assms(1) by (simp add: handle_inv_def meta_inv_def conn_ok_def)
  obtain rows fs where l: "with_conn (list_files env acc None) db = (Ok fs, db)"
    "set rows = {r \<in> set (db_files (cn_db (dbh_conn db))). fr_account_id r = account_id_str acc}"
    "list_all2 (\<lambda>r f. file_from_row (de_chrono env) r = Ok f) rows fs"
    using list_files_readable [OF assms(1)] by blast
  have row: "f_provider_file_id f = FileId (fr_provider_file_id r) \<and> f_path f = cloud_path_new (fr_path r)"
    if "file_from_row (de_chrono env) r = Ok f" for r f
    using that by (auto simp: file_from_row_def bindO_Ok_iff)
  have view: "handle_view acc db (FileId (fr_provider_file_id r)) = Some (row_meta r)" if "r \<in> set rows" for r
    using that cloud_view_iff [OF dk] l(2) by fastforce
  have child: "is_direct_child (cloud_path_as_str p) f \<longleftrightarrow> cloud_path_parent (cloud_path_new (fr_path r)) = Some p"
    if "file_from_row (de_chrono env) r = Ok f" "r \<in> set rows" for r f
    using is_direct_child_parent [OF assms(2), of f] row [OF that(1)] view [OF that(2)] assms(3)
    by (fastforce simp: row_meta_def)
  have "get_children env acc (cloud_path_as_str p) db =
      (Ok (map db_file_to_cached_file (filter (is_direct_child (cloud_path_as_str p)) fs)), db)"
    using l(1) assms(1) by (auto simp: get_children_def with_conn_def handle_inv_def bindS_def
        split: prod.splits outcome.splits if_splits)
  moreover have "i \<in> cf_file_id ` set (map db_file_to_cached_file (filter (is_direct_child (cloud_path_as_str p)) fs)) \<longleftrightarrow>
      (\<exists>m. handle_view acc db i = Some m \<and> cloud_path_parent (cloud_path_new (mt_path m)) = Some p)" (is "?L \<longleftrightarrow> ?R") for i
  proof
    assume ?L
    then obtain f where f: "f \<in> set fs" "is_direct_child (cloud_path_as_str p) f" "f_provider_file_id f = i"
      by (auto simp: db_file_to_cached_file_def)
    obtain r where "r \<in> set rows" "file_from_row (de_chrono env) r = Ok f"
      using list_all2_right [OF l(3) f(1)] by blast
    with f row [of r f] child [of r f] view [of r] show ?R
      by (intro exI [of _ "row_meta r"]) (simp add: row_meta_def)
  next
    assume ?R
    then obtain r where r: "r \<in> set rows" "fr_provider_file_id r = file_id_str i"
      "cloud_path_parent (cloud_path_new (fr_path r)) = Some p"
      using cloud_view_iff [OF dk] l(2) by (fastforce simp: row_meta_def)
    obtain f where "f \<in> set fs" "file_from_row (de_chrono env) r = Ok f"
      using list_all2_left [OF l(3) r(1)] by blast
    moreover from this r row [of r f] child [of r f]
    have "is_direct_child (cloud_path_as_str p) f" "cf_file_id (db_file_to_cached_file f) = i"
      by (simp_all add: db_file_to_cached_file_def)
    ultimately have "db_file_to_cached_file f \<in>
        set (map db_file_to_cached_file (filter (is_direct_child (cloud_path_as_str p)) fs))" by simp
    with \<open>cf_file_id (db_file_to_cached_file f) = i\<close> show ?L by (rule rev_image_eqI [OF _ sym, rotated])
  qed
  ultimately show ?thesis by blast
qed

theorem get_children_exact_witness:
  "\<exists>children. get_children sample_env (AccountId ''acc'') ''/docs'' sample_meta = (Ok children, sample_meta) \<and>
     FileId ''f1'' \<in> cf_file_id ` set children"
proof -
  have view: "handle_view (AccountId ''acc'') sample_meta i =
      (if i = FileId ''f1'' then Some (row_meta (file_params chrono_utc sample_file)) else None)" for i
    by (cases i) (simp add: cloud_view_def sample_meta_def sample_conn_def sample_db_def row_meta_def sample_file_def)
  have path: "mt_path (row_meta (file_params chrono_utc sample_file)) = ''/docs/a''"
    by (simp add: row_meta_def file_params_def sample_file_def cloud_path_new_def starts_with_def replace_char_def)
  have "canonical_path (CloudPath ''/docs'')" "canonical_path (cloud_path_new ''/docs/a'')"
    "cloud_path_parent (cloud_path_new ''/docs/a'') = Some (CloudPath ''/docs'')"
    "cloud_path_new ''/docs/a'' = CloudPath ''/docs/a''"
    by (simp_all add: canonical_path_def normal_path_def starts_with_def cloud_path_new_def replace_char_def
        cloud_path_parent_def trim_end_matches_def)
  note p = this
  let ?m = "row_meta (file_params chrono_utc sample_file)"
  have "canonical_path (cloud_path_new (mt_path m)) \<and> cloud_path_new (mt_path m) \<noteq> cloud_path_root \<and>
      \<not> starts_with ''//'' (cloud_path_as_str (cloud_path_new (mt_path m)))"
    if "handle_view (AccountId ''acc'') sample_meta i = Some m" for i m
  proof -
    have "m = ?m" using that by (simp add: view split: if_splits)
    then show ?thesis using p(2) by (simp add: path p(4) starts_with_def cloud_path_root_def)
  qed
  then obtain children where
    "get_children sample_env (AccountId ''acc'') ''/docs'' sample_meta = (Ok children, sample_meta)"
    "\<forall>i. i \<in> cf_file_id ` set children \<longleftrightarrow> (\<exists>m. handle_view (AccountId ''acc'') sample_meta i = Some m \<and>
       cloud_path_parent (cloud_path_new (mt_path m)) = Some (CloudPath ''/docs''))"
    using get_children_exact [OF sample_meta_inv p(1)] by fastforce
  then show ?thesis using p(3) by (metis path view)
qed

end
