(* ===== verification/Content_Cache.thy ===== *)
theory Content_Cache
  imports Vfs_Metadata
begin

text \<open>
  \<open>ContentCache\<close> (\<open>content_cache.rs\<close>): downloads on demand into a flat cache directory, with a
  status per file. \<open>ensure_downloaded\<close> is given as the sequential function and, for threads
  that run it at the same time, as the atomic steps between which other threads may run.
\<close>

section \<open>State\<close>

text \<open>The error codes of \<open>libc\<close> the filesystem replies with.\<close>

datatype errno = EIO | ENOENT | ENOTSUP | EINVAL | EISDIR | ENOSYS | EBADF

datatype DownloadStatus = InProgress | Complete | DlFailed string

record DownloadLock =
  dl_status :: DownloadStatus
  dl_poisoned :: bool

record 'w ContentCache =
  cc_cache_root :: PathBuf
  cc_provider :: "'w CloudProvider"
  cc_account_id :: AccountId

text \<open>
  An entry of \<open>download_locks\<close> is never removed or replaced, so a file's identifier stands for
  its lock. No code that can panic runs while the map itself is locked, so only a status
  mutex can be poisoned.
\<close>

record ('s, 'w) cc_state =
  cc_db :: "'s Database"
  cc_world :: "'w world"
  cc_locks :: "string \<rightharpoonup> DownloadLock"

definition content_cache_new ::
  "'w io \<Rightarrow> string option \<Rightarrow> PathBuf \<Rightarrow> 'w CloudProvider \<Rightarrow> AccountId \<Rightarrow> ('w world, 'w ContentCache, VfsError) st" where
  "content_cache_new io runtime_error cache_root provider account_id =
     bindS (map_errS VfsIo (create_dir_all io cache_root)) (\<lambda>_.
     bindS (case runtime_error of Some e \<Rightarrow> failS (VfsIo e) | None \<Rightarrow> returnS ()) (\<lambda>_.
     returnS \<lparr> cc_cache_root = cache_root, cc_provider = provider, cc_account_id = account_id \<rparr>))"

definition cached_path :: "'w ContentCache \<Rightarrow> FileId \<Rightarrow> PathBuf" where
  "cached_path cc file_id = path_join (cc_cache_root cc) (file_id_str file_id)"

definition new_lock :: DownloadLock where
  "new_lock = \<lparr> dl_status = InProgress, dl_poisoned = False \<rparr>"

definition lock_of :: "FileId \<Rightarrow> ('s, 'w) cc_state \<Rightarrow> DownloadLock" where
  "lock_of file_id st = (case cc_locks st (file_id_str file_id) of Some l \<Rightarrow> l | None \<Rightarrow> new_lock)"

definition acquire_lock :: "FileId \<Rightarrow> ('s, 'w) cc_state \<Rightarrow> ('s, 'w) cc_state" where
  "acquire_lock file_id st = st\<lparr> cc_locks := (cc_locks st)(file_id_str file_id \<mapsto> lock_of file_id st) \<rparr>"

definition set_status :: "FileId \<Rightarrow> DownloadStatus \<Rightarrow> ('s, 'w) cc_state \<Rightarrow> ('s, 'w) cc_state" where
  "set_status file_id s st =
     st\<lparr> cc_locks := (cc_locks st)(file_id_str file_id \<mapsto> (lock_of file_id st)\<lparr> dl_status := s \<rparr>) \<rparr>"

definition poison :: "FileId \<Rightarrow> ('s, 'w) cc_state \<Rightarrow> ('s, 'w) cc_state" where
  "poison file_id st =
     st\<lparr> cc_locks := (cc_locks st)(file_id_str file_id \<mapsto> (lock_of file_id st)\<lparr> dl_poisoned := True \<rparr>) \<rparr>"

section \<open>Recording the state of a file\<close>

text \<open>A failed update is only logged; a panic goes on.\<close>

definition logged_update :: "('s conn, unit, DbError) st \<Rightarrow> (('s, 'w) cc_state, unit, errno) st" where
  "logged_update m st = (case with_conn m (cc_db st) of
     (Panicked, db) \<Rightarrow> (Panicked, st\<lparr> cc_db := db \<rparr>)
   | (_, db) \<Rightarrow> (Ok (), st\<lparr> cc_db := db \<rparr>))"

text \<open>What the two updates do under the mutex of the handle.\<close>

definition record_state_conn :: "'s db_env \<Rightarrow> AccountId \<Rightarrow> FileId \<Rightarrow> FileState \<Rightarrow> ('s conn, unit, DbError) st" where
  "record_state_conn env acc file_id state =
     bindS (get_file_by_provider_id env acc file_id) (\<lambda>found.
      case found of
        Some db_file \<Rightarrow> bindS (update_file env (db_file\<lparr> f_state := state \<rparr>)) (\<lambda>_. returnS ())
      | None \<Rightarrow> returnS ())"

definition record_synced_conn :: "'s db_env \<Rightarrow> AccountId \<Rightarrow> FileId \<Rightarrow> ('s conn, unit, DbError) st" where
  "record_synced_conn env acc file_id =
     bindS (get_file_by_provider_id env acc file_id) (\<lambda>found.
      case found of
        Some db_file \<Rightarrow> bindS (now_st env) (\<lambda>now.
          bindS (update_file env (db_file\<lparr> f_synced_at := Some now \<rparr>)) (\<lambda>_. returnS ()))
      | None \<Rightarrow> returnS ())"

definition update_file_state ::
  "'s db_env \<Rightarrow> 'w ContentCache \<Rightarrow> FileId \<Rightarrow> FileState \<Rightarrow> (('s, 'w) cc_state, unit, errno) st" where
  "update_file_state env cc file_id state = logged_update (record_state_conn env (cc_account_id cc) file_id state)"

definition update_synced_at ::
  "'s db_env \<Rightarrow> 'w ContentCache \<Rightarrow> FileId \<Rightarrow> (('s, 'w) cc_state, unit, errno) st" where
  "update_synced_at env cc file_id = logged_update (record_synced_conn env (cc_account_id cc) file_id)"

section \<open>Downloading on demand\<close>

text \<open>With the status locked: either the call is over, or this thread downloads.\<close>

definition enter_download ::
  "'w io \<Rightarrow> 'w ContentCache \<Rightarrow> FileId \<Rightarrow> ('s, 'w) cc_state \<Rightarrow>
   (PathBuf, errno) outcome option \<times> ('s, 'w) cc_state" where
  "enter_download io cc file_id st =
     (if dl_poisoned (lock_of file_id st) then (Some (Err EIO), st)
      else if path_exists io (cached_path cc file_id) (cc_world st) then (Some (Ok (cached_path cc file_id)), st)
      else case dl_status (lock_of file_id st) of
        Complete \<Rightarrow> (Some (Ok (cached_path cc file_id)), st)
      | _ \<Rightarrow> (None, set_status file_id InProgress st))"

text \<open>A panic while a status is locked poisons it.\<close>

definition holding :: "FileId \<Rightarrow> (('s, 'w) cc_state, 'a, 'e) st \<Rightarrow> (('s, 'w) cc_state, 'a, 'e) st" where
  "holding file_id m st = (case m st of (Panicked, st') \<Rightarrow> (Panicked, poison file_id st') | x \<Rightarrow> x)"

definition finish_download ::
  "'s db_env \<Rightarrow> 'w ContentCache \<Rightarrow> FileId \<Rightarrow> (unit, CoreError) outcome \<Rightarrow> (('s, 'w) cc_state, PathBuf, errno) st" where
  "finish_download env cc file_id result st =
     (if result = Panicked then (Panicked, st)
      else if dl_poisoned (lock_of file_id st) then (Err EIO, st)
      else case result of
        Err (CloudNativeFileError url) \<Rightarrow> (Err ENOTSUP, set_status file_id (DlFailed ''cloud-native file'') st)
      | Err e \<Rightarrow> holding file_id (bindS (update_file_state env cc file_id Error) (\<lambda>_. failS EIO))
          (set_status file_id (DlFailed (core_error_str e)) st)
      | _ \<Rightarrow> holding file_id (bindS (update_file_state env cc file_id Synced) (\<lambda>_.
            bindS (update_synced_at env cc file_id) (\<lambda>_. returnS (cached_path cc file_id))))
          (set_status file_id Complete st))"

definition run_download :: "'w ContentCache \<Rightarrow> FileId \<Rightarrow> ('s, 'w) cc_state \<Rightarrow> (unit, CoreError) outcome \<times> ('s, 'w) cc_state" where
  "run_download cc file_id st =
     (case cp_download (cc_provider cc) file_id (cached_path cc file_id) (cc_world st) of
        (r, w) \<Rightarrow> (r, st\<lparr> cc_world := w \<rparr>))"

definition ensure_downloaded ::
  "'w io \<Rightarrow> 's db_env \<Rightarrow> 'w ContentCache \<Rightarrow> FileId \<Rightarrow> (('s, 'w) cc_state, PathBuf, errno) st" where
  "ensure_downloaded io env cc file_id st =
     (if path_exists io (cached_path cc file_id) (cc_world st) then (Ok (cached_path cc file_id), st)
      else case enter_download io cc file_id (acquire_lock file_id st) of
        (Some r, st1) \<Rightarrow> (r, st1)
      | (None, st1) \<Rightarrow>
          bindS (update_file_state env cc file_id Syncing) (\<lambda>_ st2.
            case run_download cc file_id st2 of (result, st3) \<Rightarrow> finish_download env cc file_id result st3) st1)"

definition read_file_at :: "'w io \<Rightarrow> PathBuf \<Rightarrow> int \<Rightarrow> u32 \<Rightarrow> 'w world \<Rightarrow> (u8 list, errno) outcome" where
  "read_file_at io path offset sz w =
     bindO (map_err (\<lambda>_. EIO) (file_open io path w)) (\<lambda>f.
     map_err (\<lambda>_. EIO) (file_read_at io f (as_u64 offset) (unat sz) w))"

section \<open>Threads\<close>

text \<open>Where a thread stands in \<open>ensure_downloaded\<close>; each step in between is atomic.\<close>

datatype pc = PcCheck | PcAcquire | PcEnter | PcSyncing | PcDownload | PcFinish "(unit, CoreError) outcome"
  | PcSynced | PcStamp | PcError | PcReturned "(PathBuf, errno) outcome"

text \<open>\<open>next_pc p q\<close>: on to \<open>p\<close>, or the thread panics; \<open>q\<close> tells whether it holds its file's status.\<close>

definition next_pc ::
  "pc \<Rightarrow> bool \<Rightarrow> FileId \<Rightarrow> (unit, errno) outcome \<times> ('s, 'w) cc_state \<Rightarrow> pc \<times> ('s, 'w) cc_state" where
  "next_pc p held file_id x = (case x of
     (Panicked, st) \<Rightarrow> (PcReturned Panicked, if held then poison file_id st else st)
   | (_, st) \<Rightarrow> (p, st))"

fun cc_step ::
  "'w io \<Rightarrow> 's db_env \<Rightarrow> 'w ContentCache \<Rightarrow> FileId \<Rightarrow> pc \<times> ('s, 'w) cc_state \<Rightarrow> pc \<times> ('s, 'w) cc_state" where
  "cc_step io env cc f (PcCheck, st) =
     (if path_exists io (cached_path cc f) (cc_world st) then PcReturned (Ok (cached_path cc f)) else PcAcquire, st)"
| "cc_step io env cc f (PcAcquire, st) = (PcEnter, acquire_lock f st)"
| "cc_step io env cc f (PcEnter, st) =
     (case enter_download io cc f st of (Some r, st') \<Rightarrow> (PcReturned r, st') | (None, st') \<Rightarrow> (PcSyncing, st'))"
| "cc_step io env cc f (PcSyncing, st) = next_pc PcDownload False f (update_file_state env cc f Syncing st)"
| "cc_step io env cc f (PcDownload, st) =
     (case run_download cc f st of
        (Panicked, st') \<Rightarrow> (PcReturned Panicked, st') | (r, st') \<Rightarrow> (PcFinish r, st'))"
| "cc_step io env cc f (PcFinish r, st) =
     (if dl_poisoned (lock_of f st) then (PcReturned (Err EIO), st)
      else case r of
        Err (CloudNativeFileError url) \<Rightarrow> (PcReturned (Err ENOTSUP), set_status f (DlFailed ''cloud-native file'') st)
      | Err e \<Rightarrow> (PcError, set_status f (DlFailed (core_error_str e)) st)
      | _ \<Rightarrow> (PcSynced, set_status f Complete st))"
| "cc_step io env cc f (PcSynced, st) = next_pc PcStamp True f (update_file_state env cc f Synced st)"
| "cc_step io env cc f (PcStamp, st) = next_pc (PcReturned (Ok (cached_path cc f))) True f (update_synced_at env cc f st)"
| "cc_step io env cc f (PcError, st) = next_pc (PcReturned (Err EIO)) True f (update_file_state env cc f Error st)"
| "cc_step io env cc f (PcReturned r, st) = (PcReturned r, st)"

text \<open>Run by itself, a thread does what the sequential function does, in at most eight steps.\<close>

lemma logged_update_cases:
  "\<exists>db. logged_update m st = (Ok (), st\<lparr> cc_db := db \<rparr>) \<or> logged_update m st = (Panicked, st\<lparr> cc_db := db \<rparr>)"
  by (auto simp: logged_update_def split: prod.splits outcome.splits)

lemma update_file_state_cases:
  "\<exists>db. update_file_state env cc f s st = (Ok (), st\<lparr> cc_db := db \<rparr>) \<or>
    update_file_state env cc f s st = (Panicked, st\<lparr> cc_db := db \<rparr>)"
  unfolding update_file_state_def by (rule logged_update_cases)

lemma update_synced_at_cases:
  "\<exists>db. update_synced_at env cc f st = (Ok (), st\<lparr> cc_db := db \<rparr>) \<or>
    update_synced_at env cc f st = (Panicked, st\<lparr> cc_db := db \<rparr>)"
  unfolding update_synced_at_def by (rule logged_update_cases)

lemma cc_step_finish:
  assumes "result \<noteq> Panicked" and "finish_download env cc f result st = (r, st')"
  shows "(cc_step io env cc f ^^ 3) (PcFinish result, st) = (PcReturned r, st')"
proof -
  consider (p) "dl_poisoned (lock_of f st)" | (ok) "\<not> dl_poisoned (lock_of f st)" "result = Ok ()"
    | (native) u where "\<not> dl_poisoned (lock_of f st)" "result = Err (CloudNativeFileError u)"
    | (err) e where "\<not> dl_poisoned (lock_of f st)" "result = Err e" "\<forall>u. e \<noteq> CloudNativeFileError u"
    using assms(1) by (cases result) auto
  then show ?thesis
  proof cases
    case p
    then show ?thesis using assms by (simp add: finish_download_def numeral_3_eq_3)
  next
    case native
    then show ?thesis using assms by (simp add: finish_download_def numeral_3_eq_3)
  next
    case err
    let ?s = "set_status f (DlFailed (core_error_str e)) st"
    have fin: "finish_download env cc f result st = holding f (bindS (update_file_state env cc f Error) (\<lambda>_. failS EIO)) ?s"
      and stp: "cc_step io env cc f (PcFinish result, st) = (PcError, ?s)"
      using err by (simp_all add: finish_download_def split: CoreError.split)
    obtain db where "update_file_state env cc f Error ?s = (Ok (), ?s\<lparr> cc_db := db \<rparr>) \<or>
        update_file_state env cc f Error ?s = (Panicked, ?s\<lparr> cc_db := db \<rparr>)"
      using update_file_state_cases by blast
    then show ?thesis
      using assms(2) fin stp by (auto simp: numeral_3_eq_3 next_pc_def holding_def)
  next
    case ok
    let ?s = "set_status f Complete st"
    have fin: "finish_download env cc f result st = holding f (bindS (update_file_state env cc f Synced) (\<lambda>_.
            bindS (update_synced_at env cc f) (\<lambda>_. returnS (cached_path cc f)))) ?s"
      and stp: "cc_step io env cc f (PcFinish result, st) = (PcSynced, ?s)"
      using ok by (simp_all add: finish_download_def)
    obtain db where 1: "update_file_state env cc f Synced ?s = (Ok (), ?s\<lparr> cc_db := db \<rparr>) \<or>
        update_file_state env cc f Synced ?s = (Panicked, ?s\<lparr> cc_db := db \<rparr>)"
      using update_file_state_cases by blast
    obtain db' where 2: "update_synced_at env cc f (?s\<lparr> cc_db := db \<rparr>) = (Ok (), ?s\<lparr> cc_db := db' \<rparr>) \<or>
        update_synced_at env cc f (?s\<lparr> cc_db := db \<rparr>) = (Panicked, ?s\<lparr> cc_db := db' \<rparr>)"
      using update_synced_at_cases [of env cc f "?s\<lparr> cc_db := db \<rparr>"] by auto
    from 1 show ?thesis
    proof
      assume "update_file_state env cc f Synced ?s = (Ok (), ?s\<lparr> cc_db := db \<rparr>)"
      with 2 show ?thesis using assms(2) fin stp by (auto simp: numeral_3_eq_3 next_pc_def holding_def)
    next
      assume "update_file_state env cc f Synced ?s = (Panicked, ?s\<lparr> cc_db := db \<rparr>)"
      then show ?thesis using assms(2) fin stp by (auto simp: numeral_3_eq_3 next_pc_def holding_def)
    qed
  qed
qed

lemma cc_step_returned [simp]: "(cc_step io env cc f ^^ n) (PcReturned r, st) = (PcReturned r, st)"
  by (induction n) simp_all

lemma cc_steps:
  assumes "cc_step io env cc f x = y" and "(cc_step io env cc f ^^ n) y = z"
  shows "(cc_step io env cc f ^^ Suc n) x = z"
  using assms by (simp add: funpow_swap1)

lemma ensure_downloaded_steps:
  assumes "ensure_downloaded io env cc f st = (r, st')"
  shows "(cc_step io env cc f ^^ 8) (PcCheck, st) = (PcReturned r, st')"
proof -
  have n: "(8 :: nat) = Suc (Suc (Suc (Suc (Suc 3))))" by simp
  show ?thesis
  proof (cases "path_exists io (cached_path cc f) (cc_world st)")
    case True
    then show ?thesis using assms unfolding n by (intro cc_steps [OF refl]) (simp add: ensure_downloaded_def)
  next
    case False
    obtain x st1 where e: "enter_download io cc f (acquire_lock f st) = (x, st1)" by fastforce
    show ?thesis
    proof (cases x)
      case (Some v)
      then have "(cc_step io env cc f ^^ 3) (PcCheck, st) = (PcReturned r, st')"
        using False assms e by (simp add: ensure_downloaded_def numeral_3_eq_3)
      then have "(cc_step io env cc f ^^ (5 + 3)) (PcCheck, st) = (PcReturned r, st')"
        by (simp only: funpow_add comp_def cc_step_returned)
      then show ?thesis by simp
    next
      case None
      obtain db where u: "update_file_state env cc f Syncing st1 = (Ok (), st1\<lparr> cc_db := db \<rparr>) \<or>
          update_file_state env cc f Syncing st1 = (Panicked, st1\<lparr> cc_db := db \<rparr>)"
        using update_file_state_cases by blast
      obtain res st3 where d: "run_download cc f (st1\<lparr> cc_db := db \<rparr>) = (res, st3)" by fastforce
      have to_sync: "(cc_step io env cc f ^^ 8) (PcCheck, st) = (cc_step io env cc f ^^ 5) (PcSyncing, st1)"
        using False e None by (simp add: eval_nat_numeral funpow_swap1)
      from u show ?thesis
      proof
        assume p: "update_file_state env cc f Syncing st1 = (Panicked, st1\<lparr> cc_db := db \<rparr>)"
        have "(cc_step io env cc f ^^ 5) (PcSyncing, st1) = (PcReturned Panicked, st1\<lparr> cc_db := db \<rparr>)"
          using p by (simp add: eval_nat_numeral funpow_swap1 next_pc_def)
        then show ?thesis using p False e None assms to_sync by (simp add: ensure_downloaded_def)
      next
        assume p: "update_file_state env cc f Syncing st1 = (Ok (), st1\<lparr> cc_db := db \<rparr>)"
        have fin: "finish_download env cc f res st3 = (r, st')"
          using p d False e None assms by (simp add: ensure_downloaded_def)
        have "(cc_step io env cc f ^^ 5) (PcSyncing, st1) = (cc_step io env cc f ^^ 4) (PcDownload, st1\<lparr> cc_db := db \<rparr>)"
          using p by (simp add: eval_nat_numeral funpow_swap1 next_pc_def)
        also have "\<dots> = (PcReturned r, st')"
        proof (cases "res = Panicked")
          case True
          then show ?thesis using d fin by (simp add: eval_nat_numeral funpow_swap1 finish_download_def)
        next
          case False
          then have "cc_step io env cc f (PcDownload, st1\<lparr> cc_db := db \<rparr>) = (PcFinish res, st3)"
            using d by (cases res) simp_all
          from cc_steps [OF this cc_step_finish [OF False fin]] show ?thesis by (simp add: eval_nat_numeral)
        qed
        finally show ?thesis using to_sync by simp
      qed
    qed
  qed
qed

section \<open>Threads at the same time\<close>

text \<open>
  Threads by number, each with the file it asks for. A thread between locking and unlocking
  its file's status keeps others out; the rest of the program may change the database.
\<close>

type_synonym threads = "nat \<rightharpoonup> FileId \<times> pc"

fun holds_lock :: "pc \<Rightarrow> bool" where
  "holds_lock PcSynced = True"
| "holds_lock PcStamp = True"
| "holds_lock PcError = True"
| "holds_lock _ = False"

fun takes_lock :: "pc \<Rightarrow> bool" where
  "takes_lock PcEnter = True"
| "takes_lock (PcFinish r) = True"
| "takes_lock _ = False"

inductive cc_reach ::
  "'w io \<Rightarrow> 's db_env \<Rightarrow> 'w ContentCache \<Rightarrow> ('s, 'w) cc_state \<Rightarrow> ('s, 'w) cc_state \<Rightarrow> threads \<Rightarrow> bool"
  for io env cc init where
  start: "cc_locks init = Map.empty \<Longrightarrow> cc_reach io env cc init init Map.empty"
| call: "cc_reach io env cc init st ts \<Longrightarrow> ts t = None \<Longrightarrow> cc_reach io env cc init st (ts(t \<mapsto> (f, PcCheck)))"
| thread: "cc_reach io env cc init st ts \<Longrightarrow> ts t = Some (f, p) \<Longrightarrow>
    (takes_lock p \<Longrightarrow> \<not> (\<exists>u q. u \<noteq> t \<and> ts u = Some (f, q) \<and> holds_lock q)) \<Longrightarrow>
    cc_step io env cc f (p, st) = (p', st') \<Longrightarrow> cc_reach io env cc init st' (ts(t \<mapsto> (f, p')))"
| database: "cc_reach io env cc init st ts \<Longrightarrow> cc_reach io env cc init (st\<lparr> cc_db := db \<rparr>) ts"

text \<open>What a provider promises of \<open>download\<close>: the file is there on success, and no file vanishes.\<close>

definition download_delivers :: "'w io \<Rightarrow> 'w CloudProvider \<Rightarrow> bool" where
  "download_delivers io prov \<longleftrightarrow> (\<forall>i p w r w'. cp_download prov i p w = (r, w') \<longrightarrow>
     (r = Ok () \<longrightarrow> path_exists io p w') \<and> (\<forall>q. path_exists io q w \<longrightarrow> path_exists io q w'))"

definition delivered :: "'w io \<Rightarrow> 'w ContentCache \<Rightarrow> FileId \<Rightarrow> ('s, 'w) cc_state \<Rightarrow> bool" where
  "delivered io cc f st \<longleftrightarrow> path_exists io (cached_path cc f) (cc_world st)"

definition pc_ok :: "'w io \<Rightarrow> 'w ContentCache \<Rightarrow> FileId \<Rightarrow> pc \<Rightarrow> ('s, 'w) cc_state \<Rightarrow> bool" where
  "pc_ok io cc f p st \<longleftrightarrow> (case p of
     PcFinish (Ok _) \<Rightarrow> delivered io cc f st
   | PcFinish Panicked \<Rightarrow> False
   | PcSynced \<Rightarrow> delivered io cc f st
   | PcStamp \<Rightarrow> delivered io cc f st
   | PcReturned (Ok path) \<Rightarrow> path = cached_path cc f \<and> delivered io cc f st
   | _ \<Rightarrow> True)"

definition cc_inv :: "'w io \<Rightarrow> 'w ContentCache \<Rightarrow> ('s, 'w) cc_state \<Rightarrow> threads \<Rightarrow> bool" where
  "cc_inv io cc st ts \<longleftrightarrow> (\<forall>f. dl_status (lock_of f st) = Complete \<longrightarrow> delivered io cc f st) \<and>
     (\<forall>t f p. ts t = Some (f, p) \<longrightarrow> pc_ok io cc f p st)"

lemma lock_of_simps [simp]:
  "lock_of g (acquire_lock f st) = lock_of g st"
  "lock_of g (set_status f s st) = (if f = g then (lock_of f st)\<lparr> dl_status := s \<rparr> else lock_of g st)"
  "lock_of g (poison f st) = (if f = g then (lock_of f st)\<lparr> dl_poisoned := True \<rparr> else lock_of g st)"
  "lock_of g (st\<lparr> cc_db := db \<rparr>) = lock_of g st" "lock_of g (st\<lparr> cc_world := w \<rparr>) = lock_of g st"
  by (simp_all add: lock_of_def acquire_lock_def set_status_def poison_def)

lemma delivered_simps [simp]:
  "delivered io cc g (acquire_lock f st) = delivered io cc g st"
  "delivered io cc g (set_status f s st) = delivered io cc g st"
  "delivered io cc g (poison f st) = delivered io cc g st"
  "delivered io cc g (st\<lparr> cc_db := db \<rparr>) = delivered io cc g st"
  by (simp_all add: delivered_def acquire_lock_def set_status_def poison_def)

text \<open>One step keeps the invariant of its own thread and never takes a file away.\<close>

lemma next_pc_cases:
  "\<exists>db. next_pc p h f (update_file_state env cc f s st) \<in> {(p, st\<lparr> cc_db := db \<rparr>),
      (PcReturned Panicked, if h then poison f (st\<lparr> cc_db := db \<rparr>) else st\<lparr> cc_db := db \<rparr>)}"
  "\<exists>db. next_pc p h f (update_synced_at env cc f st) \<in> {(p, st\<lparr> cc_db := db \<rparr>),
      (PcReturned Panicked, if h then poison f (st\<lparr> cc_db := db \<rparr>) else st\<lparr> cc_db := db \<rparr>)}"
proof -
  obtain db where "update_file_state env cc f s st = (Ok (), st\<lparr> cc_db := db \<rparr>) \<or>
      update_file_state env cc f s st = (Panicked, st\<lparr> cc_db := db \<rparr>)" using update_file_state_cases by blast
  then show "\<exists>db. next_pc p h f (update_file_state env cc f s st) \<in> {(p, st\<lparr> cc_db := db \<rparr>),
      (PcReturned Panicked, if h then poison f (st\<lparr> cc_db := db \<rparr>) else st\<lparr> cc_db := db \<rparr>)}"
    by (auto simp: next_pc_def)
  obtain db where "update_synced_at env cc f st = (Ok (), st\<lparr> cc_db := db \<rparr>) \<or>
      update_synced_at env cc f st = (Panicked, st\<lparr> cc_db := db \<rparr>)" using update_synced_at_cases by blast
  then show "\<exists>db. next_pc p h f (update_synced_at env cc f st) \<in> {(p, st\<lparr> cc_db := db \<rparr>),
      (PcReturned Panicked, if h then poison f (st\<lparr> cc_db := db \<rparr>) else st\<lparr> cc_db := db \<rparr>)}"
    by (auto simp: next_pc_def)
qed

lemma cc_step_keeps:
  assumes prov: "download_delivers io (cc_provider cc)"
    and locks: "\<forall>g. dl_status (lock_of g st) = Complete \<longrightarrow> delivered io cc g st" and pc: "pc_ok io cc f p st"
    and step: "cc_step io env cc f (p, st) = (p', st')"
  shows "(\<forall>g. dl_status (lock_of g st') = Complete \<longrightarrow> delivered io cc g st') \<and> pc_ok io cc f p' st' \<and>
    (\<forall>g. delivered io cc g st \<longrightarrow> delivered io cc g st')"
proof (cases p)
  case PcEnter
  then show ?thesis using step locks
    by (auto simp: enter_download_def pc_ok_def delivered_def split: if_splits DownloadStatus.splits)
      (auto simp flip: delivered_def)
next
  case PcDownload
  obtain r w where d: "cp_download (cc_provider cc) f (cached_path cc f) (cc_world st) = (r, w)" by fastforce
  have del: "r = Ok () \<longrightarrow> path_exists io (cached_path cc f) w"
    "\<forall>q. path_exists io q (cc_world st) \<longrightarrow> path_exists io q w"
    using prov d by (auto simp: download_delivers_def)
  show ?thesis using PcDownload step locks del d
    by (cases r) (auto simp: run_download_def pc_ok_def delivered_def)
next
  case (PcFinish r)
  then show ?thesis using step pc locks
    by (cases r) (auto simp: pc_ok_def split: if_splits CoreError.splits)
next
  case PcSyncing
  then show ?thesis using step locks next_pc_cases(1) [of PcDownload False f env cc Syncing st]
    by (auto simp: pc_ok_def split: if_splits)
next
  case PcSynced
  then show ?thesis using step pc locks next_pc_cases(1) [of PcStamp True f env cc Synced st]
    by (auto simp: pc_ok_def split: if_splits)
next
  case PcError
  then show ?thesis using step pc locks next_pc_cases(1) [of "PcReturned (Err EIO)" True f env cc Error st]
    by (auto simp: pc_ok_def split: if_splits)
next
  case PcStamp
  then show ?thesis
    using step pc locks next_pc_cases(2) [of "PcReturned (Ok (cached_path cc f))" True f env cc st]
    by (auto simp: pc_ok_def split: if_splits)
next
  case PcCheck
  then show ?thesis using step pc locks by (auto simp: pc_ok_def delivered_def split: if_splits)
qed (use step pc locks in \<open>auto simp: pc_ok_def\<close>)

lemma pc_ok_mono:
  assumes "pc_ok io cc g q st" and "\<forall>g. delivered io cc g st \<longrightarrow> delivered io cc g st'"
  shows "pc_ok io cc g q st'"
  using assms by (auto simp: pc_ok_def split: pc.splits outcome.splits)

lemma cc_reach_inv:
  assumes "cc_reach io env cc init st ts" and prov: "download_delivers io (cc_provider cc)"
  shows "cc_inv io cc st ts"
  using assms(1)
proof induction
  case start
  then show ?case by (simp add: cc_inv_def lock_of_def new_lock_def)
next
  case (call st ts t f)
  then show ?case by (auto simp: cc_inv_def pc_ok_def)
next
  case (thread st ts t f p p' st')
  have "pc_ok io cc f p st" using thread by (simp add: cc_inv_def)
  from cc_step_keeps [OF prov _ this thread(4)] thread(5)
  have k: "\<forall>g. dl_status (lock_of g st') = Complete \<longrightarrow> delivered io cc g st'" "pc_ok io cc f p' st'"
    "\<forall>g. delivered io cc g st \<longrightarrow> delivered io cc g st'" by (auto simp: cc_inv_def)
  moreover have "pc_ok io cc g q st'" if "ts u = Some (g, q)" for u g q
    using pc_ok_mono [OF _ k(3)] that thread(5) by (simp add: cc_inv_def)
  ultimately show ?case by (simp add: cc_inv_def)
next
  case (database st ts db)
  then show ?case using pc_ok_mono [of io cc _ _ st "st\<lparr> cc_db := db \<rparr>"] by (auto simp: cc_inv_def)
qed

section \<open>What the database says afterwards\<close>

text \<open>\<open>chrono\<close> gives back the Unix seconds an instant was made from.\<close>

definition seconds_exact :: "chrono \<Rightarrow> bool" where
  "seconds_exact ch \<longleftrightarrow> (\<forall>n d. from_timestamp ch n = Some d \<longrightarrow> timestamp ch d = n)"

lemma seconds_exact_utc [simp]: "seconds_exact chrono_utc"
  by (auto simp: seconds_exact_def chrono_utc_def)

definition view_states :: "AccountId \<Rightarrow> 's Database \<Rightarrow> FileId \<Rightarrow> string option" where
  "view_states acc db f = map_option mt_state (handle_view acc db f)"

text \<open>Giving a known file a state.\<close>

definition set_state :: "FileId \<Rightarrow> string \<Rightarrow> (FileId \<Rightarrow> string option) \<Rightarrow> FileId \<Rightarrow> string option" where
  "set_state f s m = (if m f = None then m else m(f \<mapsto> s))"

lemma set_state_simps [simp]:
  "set_state f s (set_state f t m) = set_state f s m"
  "set_state f s m f = (case m f of None \<Rightarrow> None | Some _ \<Rightarrow> Some s)"
  by (auto simp: set_state_def split: option.splits)

text \<open>
  What an update of a file's state leaves alone: which files are folders, and every inode.
\<close>

definition view_kinds :: "AccountId \<Rightarrow> database \<Rightarrow> FileId \<Rightarrow> bool option" where
  "view_kinds acc d f = map_option (\<lambda>m. mt_folder m \<noteq> 0) (cloud_view acc d f)"

definition same_tree :: "AccountId \<Rightarrow> 's Database \<Rightarrow> 's Database \<Rightarrow> bool" where
  "same_tree acc db db' \<longleftrightarrow> db_inodes (cn_db (dbh_conn db')) = db_inodes (cn_db (dbh_conn db)) \<and>
     view_kinds acc (cn_db (dbh_conn db')) = view_kinds acc (cn_db (dbh_conn db))"

lemma same_tree_trans: "same_tree acc a b \<Longrightarrow> same_tree acc b c \<Longrightarrow> same_tree acc a c"
  by (simp add: same_tree_def)

lemma update_file_inodes:
  assumes "meta_inv env acc c" and "update_file env f c = (r, c')"
  shows "db_inodes (cn_db c') = db_inodes (cn_db c)"
proof -
  have "no_faults (de_sql env)" "conn_ok c" using assms(1) by (auto simp: meta_inv_def sqlite_works_def)
  from update_file_result [OF this, of f] assms(2) show ?thesis
    by (auto simp: update_file_row_def Let_def split: sum.splits if_splits)
qed

lemma found_kind:
  assumes "meta_inv env acc c" and "get_file_by_provider_id env acc i c = (Ok (Some f), c')"
  shows "view_kinds acc (cn_db c) i = Some (f_is_folder f)"
proof -
  have a: "no_faults (de_sql env)" "scans_rows (de_sql env)" "conn_ok c"
    using assms(1) by (auto simp: meta_inv_def sqlite_works_def)
  from get_file_by_provider_id_result [OF this, of acc i] assms(2)
  obtain row rest where row: "filter (\<lambda>r. (fr_account_id r, fr_provider_file_id r) = (account_id_str acc, file_id_str i))
      (db_files (cn_db c)) = row # rest" "map_err DbSqlite (map_ok Some (file_from_row (de_chrono env) row)) = Ok (Some f)"
    by (auto simp: eq_commute [of "Ok (Some f)"] split: list.splits)
  then have "f_is_folder f = (fr_is_folder row \<noteq> 0)" by (auto simp: map_ok_Ok_iff file_from_row_def bindO_Ok_iff)
  moreover have "find (\<lambda>r. (fr_account_id r, fr_provider_file_id r) = (account_id_str acc, file_id_str i)) (db_files (cn_db c)) = Some row"
    using row(1) by (simp add: filter_find)
  ultimately show ?thesis by (simp add: view_kinds_def cloud_view_def row_meta_def)
qed

lemma found_modified:
  assumes "meta_inv env acc c" and "get_file_by_provider_id env acc i c = (Ok (Some f), c')"
  shows "\<exists>n. from_timestamp (de_chrono env) n = Some (f_modified_at f)"
proof -
  have "no_faults (de_sql env)" "scans_rows (de_sql env)" "conn_ok c"
    using assms(1) by (auto simp: meta_inv_def sqlite_works_def)
  from get_file_by_provider_id_result [OF this, of acc i] assms(2)
  obtain row where "map_err DbSqlite (map_ok Some (file_from_row (de_chrono env) row)) = Ok (Some f)"
    by (auto simp: eq_commute [of "Ok (Some f)"] split: list.splits)
  then have "file_from_row (de_chrono env) row = Ok f" by (auto simp: map_ok_Ok_iff)
  then show ?thesis by (auto simp: file_from_row_def bindO_Ok_iff)
qed

lemma change_known_file:
  assumes inv: "meta_inv env acc c" and ch: "seconds_exact (de_chrono env)"
    and g: "\<And>x t. f_id (upd t x) = f_id x \<and> f_account_id (upd t x) = f_account_id x \<and>
      f_provider_file_id (upd t x) = f_provider_file_id x \<and> f_modified_at (upd t x) = f_modified_at x \<and>
      f_is_folder (upd t x) = f_is_folder x"
    and pre: "\<And>c. meta_inv env acc c \<Longrightarrow> \<exists>t s. pre c = (Ok t, c\<lparr> cn_sys := s \<rparr>)"
    and st: "\<And>x t. state_column (f_state (upd t x)) = new_state (state_column (f_state x))"
  shows "\<exists>c'. bindS (get_file_by_provider_id env acc i) (\<lambda>found. case found of
        Some x \<Rightarrow> bindS pre (\<lambda>t. bindS (update_file env (upd t x)) (\<lambda>_. returnS ())) | None \<Rightarrow> returnS ()) c = (Ok (), c') \<and>
    meta_inv env acc c' \<and> (\<lambda>j. map_option mt_state (cloud_view acc (cn_db c') j)) =
      (\<lambda>j. map_option mt_state (cloud_view acc (cn_db c) j))(i := map_option (\<lambda>m. new_state (mt_state m)) (cloud_view acc (cn_db c) i)) \<and>
    db_inodes (cn_db c') = db_inodes (cn_db c) \<and> view_kinds acc (cn_db c') = view_kinds acc (cn_db c)"
  using get_existing [OF inv, of i]
proof
  assume "cloud_view acc (cn_db c) i = None \<and> get_file_by_provider_id env acc i c = (Ok None, c)"
  then show ?thesis using inv by (auto simp: fun_eq_iff)
next
  assume "\<exists>r f. r \<in> set (db_files (cn_db c)) \<and> fr_account_id r = account_id_str acc \<and>
       fr_provider_file_id r = file_id_str i \<and> cloud_view acc (cn_db c) i = Some (row_meta r) \<and>
       get_file_by_provider_id env acc i c = (Ok (Some f), c) \<and>
       f_id f = fr_id r \<and> f_account_id f = acc \<and> f_provider_file_id f = i \<and> state_column (f_state f) = fr_state r"
  then obtain r f where r: "r \<in> set (db_files (cn_db c))" "fr_account_id r = account_id_str acc"
       "fr_provider_file_id r = file_id_str i" "cloud_view acc (cn_db c) i = Some (row_meta r)"
       "get_file_by_provider_id env acc i c = (Ok (Some f), c)"
       "f_id f = fr_id r" "f_account_id f = acc" "f_provider_file_id f = i" "state_column (f_state f) = fr_state r"
    by blast
  obtain t s where p: "pre c = (Ok t, c\<lparr> cn_sys := s \<rparr>)" using pre [OF inv] by blast
  let ?c = "c\<lparr> cn_sys := s \<rparr>"
  have inv2: "meta_inv env acc ?c" using inv by (simp add: meta_inv_def conn_ok_def)
  have "from_timestamp (de_chrono env) (timestamp (de_chrono env) (f_modified_at f)) \<noteq> None"
    using found_modified [OF inv r(5)] ch by (auto simp: seconds_exact_def)
  then obtain b c' where u: "update_file env (upd t f) ?c = (Ok b, c')" "meta_inv env acc c'"
    "cloud_view acc (cn_db c') = (cloud_view acc (cn_db c))(i \<mapsto> file_meta_of (de_chrono env) (upd t f))"
    using update_known_refines [OF inv2, of r i "upd t f"] r g [of t f] by auto
  have "db_inodes (cn_db c') = db_inodes (cn_db c)" using update_file_inodes [OF inv2 u(1)] by simp
  moreover have "view_kinds acc (cn_db c') = view_kinds acc (cn_db c)"
    using u(3) found_kind [OF inv r(5)] g [of t f] by (auto simp: view_kinds_def fun_eq_iff file_meta_of_def)
  ultimately show ?thesis
    using u r p st [of t f] by (intro exI [of _ c']) (auto simp: fun_eq_iff file_meta_of_def row_meta_def)
qed

lemma logged_update_Ok:
  "\<not> dbh_poisoned (cc_db st) \<Longrightarrow> m (dbh_conn (cc_db st)) = (Ok (), c') \<Longrightarrow>
   logged_update m st = (Ok (), st\<lparr> cc_db := (cc_db st)\<lparr> dbh_conn := c' \<rparr> \<rparr>)"
  by (simp add: logged_update_def with_conn_def)

lemma update_file_state_refines:
  assumes inv: "handle_inv env (cc_account_id cc) (cc_db st)" and ch: "seconds_exact (de_chrono env)"
  shows "\<exists>db. update_file_state env cc f s st = (Ok (), st\<lparr> cc_db := db \<rparr>) \<and> handle_inv env (cc_account_id cc) db \<and>
    view_states (cc_account_id cc) db = set_state f (state_column s) (view_states (cc_account_id cc) (cc_db st)) \<and>
    same_tree (cc_account_id cc) (cc_db st) db"
proof -
  let ?acc = "cc_account_id cc" and ?c = "dbh_conn (cc_db st)"
  have m: "meta_inv env ?acc ?c" and np: "\<not> dbh_poisoned (cc_db st)" using inv by (auto simp: handle_inv_def)
  have pre: "\<exists>t s. returnS () c = (Ok t, c\<lparr> cn_sys := s \<rparr>)" for c :: "'a conn"
    by (intro exI [of _ "()"] exI [of _ "cn_sys c"]) simp
  obtain c' where c': "bindS (get_file_by_provider_id env ?acc f) (\<lambda>found. case found of
        Some x \<Rightarrow> bindS (update_file env (x\<lparr> f_state := s \<rparr>)) (\<lambda>_. returnS ())
      | None \<Rightarrow> returnS ()) ?c = (Ok (), c')" "meta_inv env ?acc c'"
    "(\<lambda>j. map_option mt_state (cloud_view ?acc (cn_db c') j)) =
      (\<lambda>j. map_option mt_state (cloud_view ?acc (cn_db ?c) j))(f := map_option (\<lambda>m. state_column s) (cloud_view ?acc (cn_db ?c) f))"
    "db_inodes (cn_db c') = db_inodes (cn_db ?c)" "view_kinds ?acc (cn_db c') = view_kinds ?acc (cn_db ?c)"
    using change_known_file [OF m ch, where upd = "\<lambda>t x. x\<lparr> f_state := s \<rparr>" and pre = "returnS ()" and i = f
        and new_state = "\<lambda>_. state_column s"] pre by auto
  let ?db = "(cc_db st)\<lparr> dbh_conn := c' \<rparr>"
  have "update_file_state env cc f s st = (Ok (), st\<lparr> cc_db := ?db \<rparr>)"
    unfolding update_file_state_def record_state_conn_def using c'(1) by (intro logged_update_Ok np) simp
  moreover have "handle_inv env ?acc ?db" using np c'(2) by (simp add: handle_inv_def)
  moreover have "view_states ?acc ?db = set_state f (state_column s) (view_states ?acc (cc_db st))"
    using c'(3) by (auto simp: view_states_def set_state_def fun_eq_iff)
  moreover have "same_tree ?acc (cc_db st) ?db" using c'(4,5) by (simp add: same_tree_def)
  ultimately show ?thesis by blast
qed

lemma update_synced_at_refines:
  assumes inv: "handle_inv env (cc_account_id cc) (cc_db st)" and ch: "seconds_exact (de_chrono env)"
  shows "\<exists>db. update_synced_at env cc f st = (Ok (), st\<lparr> cc_db := db \<rparr>) \<and> handle_inv env (cc_account_id cc) db \<and>
    view_states (cc_account_id cc) db = view_states (cc_account_id cc) (cc_db st) \<and>
    same_tree (cc_account_id cc) (cc_db st) db"
proof -
  let ?acc = "cc_account_id cc" and ?c = "dbh_conn (cc_db st)"
  have m: "meta_inv env ?acc ?c" and np: "\<not> dbh_poisoned (cc_db st)" using inv by (auto simp: handle_inv_def)
  obtain c' where c': "bindS (get_file_by_provider_id env ?acc f) (\<lambda>found. case found of
        Some x \<Rightarrow> bindS (now_st env) (\<lambda>t. bindS (update_file env (x\<lparr> f_synced_at := Some t \<rparr>)) (\<lambda>_. returnS ()))
      | None \<Rightarrow> returnS ()) ?c = (Ok (), c')" "meta_inv env ?acc c'"
    "(\<lambda>j. map_option mt_state (cloud_view ?acc (cn_db c') j)) =
      (\<lambda>j. map_option mt_state (cloud_view ?acc (cn_db ?c) j))(f := map_option mt_state (cloud_view ?acc (cn_db ?c) f))"
    "db_inodes (cn_db c') = db_inodes (cn_db ?c)" "view_kinds ?acc (cn_db c') = view_kinds ?acc (cn_db ?c)"
    using change_known_file [OF m ch, where upd = "\<lambda>t x. x\<lparr> f_synced_at := Some t \<rparr>" and pre = "now_st env" and i = f
        and new_state = "\<lambda>x. x"] by (auto simp: now_st_app)
  let ?db = "(cc_db st)\<lparr> dbh_conn := c' \<rparr>"
  have "update_synced_at env cc f st = (Ok (), st\<lparr> cc_db := ?db \<rparr>)"
    unfolding update_synced_at_def record_synced_conn_def using c'(1) by (intro logged_update_Ok np) simp
  moreover have "handle_inv env ?acc ?db" using np c'(2) by (simp add: handle_inv_def)
  moreover have "view_states ?acc ?db = view_states ?acc (cc_db st)"
    using c'(3) by (auto simp: view_states_def fun_eq_iff)
  moreover have "same_tree ?acc (cc_db st) ?db" using c'(4,5) by (simp add: same_tree_def)
  ultimately show ?thesis by blast
qed

section \<open>Properties of the content cache\<close>

text \<open>A provider that writes a file where it is told to, for evaluating the model on an input.\<close>

definition writing_provider :: "(unit, CoreError) outcome \<Rightarrow> unit CloudProvider" where
  "writing_provider r = sample_provider\<lparr> cp_download := (\<lambda>i p w.
     case walk (w_disk w) [] (path_components p) of
       None \<Rightarrow> (Err (Io ''No such file or directory''), w)
     | Some l \<Rightarrow> (r, w\<lparr> w_disk := (\<lambda>m. if m = l \<and> w_disk w m = None then Some (FileN [1, 2, 3]) else w_disk w m) \<rparr>)) \<rparr>"

lemma walk_mono:
  "(\<And>l. is_dir_at d l \<Longrightarrow> is_dir_at d' l) \<Longrightarrow> walk d cur cs = Some l \<Longrightarrow> walk d' cur cs = Some l"
  by (induction d cur cs rule: walk.induct) (auto split: if_splits)

lemma writing_provider_delivers: "download_delivers plain_io (writing_provider r)"
proof -
  have "(r' = Ok () \<longrightarrow> path_exists plain_io p w') \<and> (\<forall>q. path_exists plain_io q w \<longrightarrow> path_exists plain_io q w')"
    if d: "cp_download (writing_provider r) i p w = (r', w')" for i p w r' w'
  proof (cases "walk (w_disk w) [] (path_components p)")
    case None
    then show ?thesis using d by (auto simp: writing_provider_def)
  next
    case (Some l)
    let ?d = "\<lambda>m. if m = l \<and> w_disk w m = None then Some (FileN [1, 2, 3]) else w_disk w m"
    have w': "w' = w\<lparr> w_disk := ?d \<rparr>" using d Some by (simp add: writing_provider_def)
    have mono: "walk ?d [] cs = Some m" if "walk (w_disk w) [] cs = Some m" for cs m
      by (rule walk_mono [OF _ that]) (auto simp: is_dir_at_def split: if_splits)
    have "path_exists plain_io p w'"
      using mono [OF Some] by (auto simp: path_exists_def node_at_def w' plain_io_def)
    moreover have "path_exists plain_io q w'" if "path_exists plain_io q w" for q
      using that mono by (auto simp: path_exists_def node_at_def w' plain_io_def split: option.splits)
    ultimately show ?thesis by blast
  qed
  then show ?thesis unfolding download_delivers_def by blast
qed

definition sample_cache :: "(unit, CoreError) outcome \<Rightarrow> unit ContentCache" where
  "sample_cache r = \<lparr> cc_cache_root = ''/cache'', cc_provider = writing_provider r, cc_account_id = AccountId ''acc'' \<rparr>"

definition sample_cc :: "(nat, unit) cc_state" where
  "sample_cc = \<lparr> cc_db = sample_meta, cc_world = \<lparr> w_disk = [[''cache''] \<mapsto> DirN], w_outer = () \<rparr>, cc_locks = Map.empty \<rparr>"

lemma sample_cached_path: "cached_path (sample_cache r) (FileId ''f1'') = ''/cache/f1''"
  by (simp add: cached_path_def sample_cache_def path_join_def path_is_absolute_def starts_with_def)

lemma sample_components: "path_components ''/cache/f1'' = [RootDir, NormalC ''cache'', NormalC ''f1'']"
  by (simp add: path_components_def path_is_absolute_def starts_with_def piece_components_def)

lemma sample_absent: "\<not> path_exists plain_io ''/cache/f1'' (cc_world sample_cc)"
  by (simp add: path_exists_def node_at_def sample_components sample_cc_def plain_io_def is_dir_at_def)

lemma sample_download:
  "cp_download (writing_provider r) i ''/cache/f1'' (cc_world sample_cc) =
     (r, \<lparr> w_disk = [[''cache''] \<mapsto> DirN, [''cache'', ''f1''] \<mapsto> FileN [1, 2, 3]], w_outer = () \<rparr>)"
  by (auto simp: writing_provider_def sample_components sample_cc_def is_dir_at_def fun_eq_iff)

text \<open>
  C21: However threads interleave and whatever the rest of the program does to the database, a
  path that \<open>ensure_downloaded\<close> returned is the cache path of the file asked for and exists,
  provided a successful download leaves the file in place and downloads delete nothing.
\<close>

theorem ensure_downloaded_safe:
  assumes "download_delivers io (cc_provider cc)" and "cc_reach io env cc init st ts"
    and "ts t = Some (f, PcReturned (Ok path))"
  shows "path = cached_path cc f \<and> path_exists io path (cc_world st)"
proof -
  have "pc_ok io cc f (PcReturned (Ok path)) st" using cc_reach_inv [OF assms(2,1)] assms(3) by (simp add: cc_inv_def)
  then show ?thesis by (simp add: pc_ok_def delivered_def)
qed

text \<open>The cache with the file in place.\<close>

definition sample_cached :: "(nat, unit) cc_state" where
  "sample_cached = sample_cc\<lparr> cc_world := \<lparr> w_disk = [[''cache''] \<mapsto> DirN, [''cache'', ''f1''] \<mapsto> FileN [1, 2, 3]],
     w_outer = () \<rparr> \<rparr>"

lemma sample_present: "path_exists plain_io ''/cache/f1'' (cc_world sample_cached)"
  by (simp add: path_exists_def node_at_def sample_components sample_cached_def plain_io_def is_dir_at_def)

theorem ensure_downloaded_safe_witness:
  "\<exists>st ts. ts 0 = Some (FileId ''f1'', PcReturned (Ok ''/cache/f1'')) \<and>
     cc_reach plain_io sample_env (sample_cache (Ok ())) sample_cached st ts \<and> path_exists plain_io ''/cache/f1'' (cc_world st)"
proof -
  let ?cc = "sample_cache (Ok ())"
  have "cc_reach plain_io sample_env ?cc sample_cached sample_cached [0 \<mapsto> (FileId ''f1'', PcCheck)]"
    by (rule cc_reach.call [OF cc_reach.start]) (simp_all add: sample_cached_def sample_cc_def)
  then have "cc_reach plain_io sample_env ?cc sample_cached sample_cached
      ([0 \<mapsto> (FileId ''f1'', PcCheck)](0 \<mapsto> (FileId ''f1'', PcReturned (Ok ''/cache/f1''))))"
    by (rule cc_reach.thread [where p = PcCheck]) (simp_all add: sample_cached_path sample_present)
  from ensure_downloaded_safe [OF _ this, of 0 "FileId ''f1''" "''/cache/f1''"] this show ?thesis
    using writing_provider_delivers [of "Ok ()"]
    by (intro exI conjI) (auto simp: sample_cache_def)
qed

lemma first_download:
  assumes inv: "handle_inv env (cc_account_id cc) (cc_db st)" and ch: "seconds_exact (de_chrono env)"
    and absent: "\<not> path_exists io (cached_path cc f) (cc_world st)" and first: "cc_locks st (file_id_str f) = None"
    and dl: "cp_download (cc_provider cc) f (cached_path cc f) (cc_world st) = (r, w)" and "r \<noteq> Panicked"
  shows "\<exists>st'. ensure_downloaded io env cc f st =
      (case r of Err (CloudNativeFileError _) \<Rightarrow> Err ENOTSUP | Err _ \<Rightarrow> Err EIO | _ \<Rightarrow> Ok (cached_path cc f), st') \<and>
    cc_world st' = w \<and> handle_inv env (cc_account_id cc) (cc_db st') \<and>
    view_states (cc_account_id cc) (cc_db st') =
      set_state f (case r of Err (CloudNativeFileError _) \<Rightarrow> ''syncing'' | Err _ \<Rightarrow> ''error'' | _ \<Rightarrow> ''synced'')
        (view_states (cc_account_id cc) (cc_db st)) \<and>
    same_tree (cc_account_id cc) (cc_db st) (cc_db st') \<and>
    (path_exists io (cached_path cc f) w \<longrightarrow> ensure_downloaded io env cc f st' = (Ok (cached_path cc f), st'))"
proof -
  let ?acc = "cc_account_id cc" and ?p = "cached_path cc f"
  define st1 where "st1 = set_status f InProgress (acquire_lock f st)"
  have enter: "enter_download io cc f (acquire_lock f st) = (None, st1)"
    using absent first
    by (simp add: enter_download_def st1_def lock_of_def new_lock_def) (simp add: acquire_lock_def lock_of_def new_lock_def)
  have st1: "cc_db st1 = cc_db st" "cc_world st1 = cc_world st" "\<not> dl_poisoned (lock_of f st1)"
    using first by (simp_all add: st1_def set_status_def acquire_lock_def lock_of_def new_lock_def)
  obtain db2 where db2: "update_file_state env cc f Syncing st1 = (Ok (), st1\<lparr> cc_db := db2 \<rparr>)" "handle_inv env ?acc db2"
    "view_states ?acc db2 = set_state f ''syncing'' (view_states ?acc (cc_db st))" "same_tree ?acc (cc_db st) db2"
    using update_file_state_refines [of env cc st1 f Syncing] inv ch st1 by auto
  define st3 where "st3 = st1\<lparr> cc_db := db2, cc_world := w \<rparr>"
  have run: "run_download cc f (st1\<lparr> cc_db := db2 \<rparr>) = (r, st3)" using dl st1 by (simp add: run_download_def st3_def)
  have ens: "ensure_downloaded io env cc f st = finish_download env cc f r st3"
    using absent enter db2(1) run by (simp add: ensure_downloaded_def)
  have st3: "cc_db st3 = db2" "cc_world st3 = w" "\<not> dl_poisoned (lock_of f st3)" using st1 by (simp_all add: st3_def lock_of_def)
  have status: "cc_db (set_status f s st3) = db2" "cc_world (set_status f s st3) = w" for s
    using st3 by (simp_all add: set_status_def)
  have again: "ensure_downloaded io env cc f st' = (Ok ?p, st')" if "cc_world st' = w" "path_exists io ?p w" for st'
    using that by (simp add: ensure_downloaded_def)
  consider (ok) "r = Ok ()" | (native) u where "r = Err (CloudNativeFileError u)"
    | (err) e where "r = Err e" "\<forall>u. e \<noteq> CloudNativeFileError u"
    using \<open>r \<noteq> Panicked\<close> by (cases r) auto
  then show ?thesis
  proof cases
    case ok
    let ?s = "set_status f Complete st3"
    obtain db4 where 4: "update_file_state env cc f Synced ?s = (Ok (), ?s\<lparr> cc_db := db4 \<rparr>)" "handle_inv env ?acc db4"
      "view_states ?acc db4 = set_state f ''synced'' (view_states ?acc (cc_db st))" "same_tree ?acc (cc_db st) db4"
      using update_file_state_refines [of env cc ?s f Synced] db2 ch status same_tree_trans [of ?acc "cc_db st" db2] by auto
    obtain db5 where "update_synced_at env cc f (?s\<lparr> cc_db := db4 \<rparr>) = (Ok (), ?s\<lparr> cc_db := db5 \<rparr>)" "handle_inv env ?acc db5"
      "view_states ?acc db5 = view_states ?acc db4" "same_tree ?acc (cc_db st) db5"
      using update_synced_at_refines [of env cc "?s\<lparr> cc_db := db4 \<rparr>" f] 4 ch same_tree_trans [of ?acc "cc_db st" db4] by auto
    with 4 ok st3 status show ?thesis
      by (intro exI [of _ "?s\<lparr> cc_db := db5 \<rparr>"]) (simp add: ens finish_download_def holding_def again)
  next
    case native
    with st3 status db2 show ?thesis
      by (intro exI [of _ "set_status f (DlFailed ''cloud-native file'') st3"]) (simp add: ens finish_download_def again)
  next
    case err
    let ?s = "set_status f (DlFailed (core_error_str e)) st3"
    obtain db4 where 4: "update_file_state env cc f Error ?s = (Ok (), ?s\<lparr> cc_db := db4 \<rparr>)" "handle_inv env ?acc db4"
      "view_states ?acc db4 = set_state f ''error'' (view_states ?acc (cc_db st))" "same_tree ?acc (cc_db st) db4"
      using update_file_state_refines [of env cc ?s f Error] db2 ch status same_tree_trans [of ?acc "cc_db st" db2] by auto
    have "finish_download env cc f r st3 = (Err EIO, ?s\<lparr> cc_db := db4 \<rparr>)"
      using 4 err st3 by (cases e) (simp_all add: finish_download_def holding_def)
    then show ?thesis using err 4 status
      by (intro exI [of _ "?s\<lparr> cc_db := db4 \<rparr>"], cases e) (simp_all add: ens again)
  qed
qed

text \<open>
  C7: A first call for a file that is not cached calls the provider once. Its result and the
  state recorded in the database are \<open>Ok\<close> and \<open>synced\<close>, \<open>ENOTSUP\<close> with the state left at
  \<open>syncing\<close> for a cloud-native file, and \<open>EIO\<close> and \<open>error\<close> for any other failure. Whatever the
  result, once a file is at the cache path the next call returns it without asking the provider.
\<close>

theorem ensure_downloaded_outcome:
  assumes inv: "handle_inv env (cc_account_id cc) (cc_db st)" and ch: "seconds_exact (de_chrono env)"
    and absent: "\<not> path_exists io (cached_path cc f) (cc_world st)" and first: "cc_locks st (file_id_str f) = None"
    and dl: "cp_download (cc_provider cc) f (cached_path cc f) (cc_world st) = (r, w)" and "r \<noteq> Panicked"
  shows "\<exists>st'. ensure_downloaded io env cc f st =
      (case r of Err (CloudNativeFileError _) \<Rightarrow> Err ENOTSUP | Err _ \<Rightarrow> Err EIO | _ \<Rightarrow> Ok (cached_path cc f), st') \<and>
    cc_world st' = w \<and> handle_inv env (cc_account_id cc) (cc_db st') \<and>
    view_states (cc_account_id cc) (cc_db st') =
      set_state f (case r of Err (CloudNativeFileError _) \<Rightarrow> ''syncing'' | Err _ \<Rightarrow> ''error'' | _ \<Rightarrow> ''synced'')
        (view_states (cc_account_id cc) (cc_db st)) \<and>
    (path_exists io (cached_path cc f) w \<longrightarrow> ensure_downloaded io env cc f st' = (Ok (cached_path cc f), st'))"
  using first_download [OF assms] by blast

theorem ensure_downloaded_outcome_witness:
  "\<exists>st'. ensure_downloaded plain_io sample_env (sample_cache (Err (CloudNativeFileError ''u''))) (FileId ''f1'') sample_cc =
      (Err ENOTSUP, st') \<and> view_states (AccountId ''acc'') (cc_db st') (FileId ''f1'') = Some ''syncing'' \<and>
    ensure_downloaded plain_io sample_env (sample_cache (Err (CloudNativeFileError ''u''))) (FileId ''f1'') st' =
      (Ok ''/cache/f1'', st')"
proof -
  let ?r = "Err (CloudNativeFileError ''u'') :: (unit, CoreError) outcome"
  let ?cc = "sample_cache ?r" and ?w = "\<lparr> w_disk = [[''cache''] \<mapsto> DirN, [''cache'', ''f1''] \<mapsto> FileN [1, 2, 3]], w_outer = () \<rparr>"
  have "handle_inv sample_env (cc_account_id ?cc) (cc_db sample_cc)" by (simp add: sample_cc_def sample_cache_def)
  moreover have "seconds_exact (de_chrono sample_env)" by simp
  moreover have "\<not> path_exists plain_io (cached_path ?cc (FileId ''f1'')) (cc_world sample_cc)"
    using sample_absent by (simp only: sample_cached_path simp_thms)
  moreover have "cc_locks sample_cc (file_id_str (FileId ''f1'')) = None" by (simp add: sample_cc_def)
  moreover have "cp_download (cc_provider ?cc) (FileId ''f1'') (cached_path ?cc (FileId ''f1'')) (cc_world sample_cc) = (?r, ?w)"
    using sample_download by (simp only: sample_cached_path) (simp add: sample_cache_def)
  moreover have "?r \<noteq> Panicked" by simp
  ultimately obtain st' where st': "ensure_downloaded plain_io sample_env ?cc (FileId ''f1'') sample_cc = (Err ENOTSUP, st')"
    "view_states (cc_account_id ?cc) (cc_db st') =
      set_state (FileId ''f1'') ''syncing'' (view_states (cc_account_id ?cc) (cc_db sample_cc))"
    "path_exists plain_io ''/cache/f1'' ?w \<longrightarrow>
      ensure_downloaded plain_io sample_env ?cc (FileId ''f1'') st' = (Ok ''/cache/f1'', st')"
    using ensure_downloaded_outcome [of sample_env ?cc sample_cc plain_io "FileId ''f1''" ?r ?w]
    unfolding sample_cached_path by auto
  have "view_states (AccountId ''acc'') sample_meta (FileId ''f1'') = Some ''pending''"
    by (simp add: view_states_def cloud_view_def sample_meta_def sample_conn_def sample_db_def row_meta_def sample_file_def)
  moreover have "cc_account_id ?cc = AccountId ''acc''" "cc_db sample_cc = sample_meta"
    by (simp_all add: sample_cache_def sample_cc_def)
  ultimately show ?thesis using st' sample_present by (auto simp: sample_cached_def)
qed

text \<open>
  C40: Two threads that ask for the same uncached file at the same time can both come to
  download it: the status that stands for a download in progress does not keep the second
  one out.
\<close>

theorem concurrent_duplicate_download:
  assumes inv: "handle_inv env (cc_account_id cc) (cc_db init)" and ch: "seconds_exact (de_chrono env)"
    and absent: "\<not> path_exists io (cached_path cc f) (cc_world init)" and locks: "cc_locks init = Map.empty"
  shows "\<exists>st. cc_reach io env cc init st [0 \<mapsto> (f, PcDownload), 1 \<mapsto> (f, PcDownload)] \<and> cc_world st = cc_world init"
proof -
  have run: "\<exists>st'. cc_reach io env cc init st' (ts(t \<mapsto> (f, PcDownload))) \<and> handle_inv env (cc_account_id cc) (cc_db st') \<and>
      cc_world st' = cc_world init \<and> (lock_of f st') = new_lock"
    if r: "cc_reach io env cc init st ts" and t: "ts t = None" and others: "\<forall>u g q. ts u = Some (g, q) \<longrightarrow> \<not> holds_lock q"
      and i: "handle_inv env (cc_account_id cc) (cc_db st)" and w: "cc_world st = cc_world init"
      and l: "lock_of f st = new_lock" for st ts t
  proof -
    have step: "cc_reach io env cc init s' (ts(t \<mapsto> (f, p')))"
      if "cc_reach io env cc init s (ts(t \<mapsto> (f, p)))" "cc_step io env cc f (p, s) = (p', s')" for s p s' p'
    proof -
      have "cc_reach io env cc init s' ((ts(t \<mapsto> (f, p)))(t \<mapsto> (f, p')))"
        by (rule cc_reach.thread [OF that(1) _ _ that(2)]) (use others in \<open>auto split: if_splits\<close>)
      then show ?thesis by simp
    qed
    define st1 where "st1 = set_status f InProgress (acquire_lock f st)"
    have st1: "cc_db st1 = cc_db st" "cc_world st1 = cc_world st" "lock_of f st1 = new_lock"
      using l by (simp_all add: st1_def set_status_def acquire_lock_def lock_of_def new_lock_def)
    have enter: "enter_download io cc f (acquire_lock f st) = (None, st1)"
      using absent l w
      by (simp add: enter_download_def st1_def new_lock_def) (simp add: acquire_lock_def)
    obtain db where db: "update_file_state env cc f Syncing st1 = (Ok (), st1\<lparr> cc_db := db \<rparr>)" "handle_inv env (cc_account_id cc) db"
      using update_file_state_refines [of env cc st1 f Syncing] i ch st1 by auto
    note c1 = cc_reach.call [OF r t, of f]
    note c2 = step [OF c1, of PcAcquire st]
    note c3 = step [OF c2, of PcEnter "acquire_lock f st"]
    note c4 = step [OF c3, of PcSyncing st1]
    note c5 = step [OF c4, of PcDownload "st1\<lparr> cc_db := db \<rparr>"]
    have "cc_reach io env cc init (st1\<lparr> cc_db := db \<rparr>) (ts(t \<mapsto> (f, PcDownload)))"
      using absent enter db w by (intro c5) (simp_all add: next_pc_def)
    then show ?thesis using db st1 w by (intro exI [of _ "st1\<lparr> cc_db := db \<rparr>"]) simp
  qed
  have "lock_of f init = new_lock" using locks by (simp add: lock_of_def)
  from run [OF cc_reach.start [OF locks], of 0] this inv obtain st1 where 1:
    "cc_reach io env cc init st1 [0 \<mapsto> (f, PcDownload)]" "handle_inv env (cc_account_id cc) (cc_db st1)"
    "cc_world st1 = cc_world init" "lock_of f st1 = new_lock" by auto
  have "\<forall>u g q. [0 \<mapsto> (f, PcDownload)] u = Some (g, q) \<longrightarrow> \<not> holds_lock q" by (auto split: if_splits)
  from run [OF 1(1) _ this 1(2,3,4), of 1] show ?thesis by (auto simp del: fun_upd_apply simp: fun_upd_other)
qed

theorem concurrent_duplicate_download_witness:
  "\<exists>st. cc_reach plain_io sample_env (sample_cache (Ok ())) sample_cc st
      [0 \<mapsto> (FileId ''f1'', PcDownload), 1 \<mapsto> (FileId ''f1'', PcDownload)] \<and> cc_world st = cc_world sample_cc"
proof (rule concurrent_duplicate_download)
  show "handle_inv sample_env (cc_account_id (sample_cache (Ok ()))) (cc_db sample_cc)"
    by (simp add: sample_cc_def sample_cache_def)
  show "\<not> path_exists plain_io (cached_path (sample_cache (Ok ())) (FileId ''f1'')) (cc_world sample_cc)"
    using sample_absent by (simp only: sample_cached_path simp_thms)
qed (simp_all add: sample_cc_def)

end
