(* ===== verification/Filesystem.thy ===== *)
theory Filesystem
  imports Content_Cache Vfs_Inode
begin

text \<open>
  \<open>CloudSyncFS\<close> (\<open>filesystem.rs\<close>), the handlers the FUSE session calls one after the other, and
  the setting up of a mount (\<open>lib.rs\<close>). \<open>reply.error(e)\<close> is the outcome \<open>Err e\<close>; a panic of a
  handler is \<open>Panicked\<close>.
\<close>

section \<open>Names\<close>

text \<open>\<open>OsStr::to_str\<close>: the bytes, when they are UTF-8.\<close>

definition os_str_to_str :: "string \<Rightarrow> string option" where
  "os_str_to_str s = (if utf8_ok (map of_char s) then Some s else None)"

section \<open>State and replies\<close>

datatype FileType = Directory | RegularFile

record FileAttr =
  fa_ino :: u64
  fa_size :: u64
  fa_blocks :: u64
  fa_atime :: int
  fa_mtime :: int
  fa_ctime :: int
  fa_crtime :: int
  fa_kind :: FileType
  fa_perm :: nat
  fa_nlink :: nat
  fa_uid :: nat
  fa_gid :: nat
  fa_rdev :: nat
  fa_blksize :: nat
  fa_flags :: nat

type_synonym dir_entry = "u64 \<times> nat \<times> FileType \<times> string"

datatype reply = ReplyEntry int FileAttr | ReplyAttr int FileAttr | ReplyDirectory "dir_entry list"
  | ReplyOpened u64 nat | ReplyData "u8 list" | ReplyOk

text \<open>\<open>TTL\<close> in nanoseconds.\<close>

definition TTL :: int where
  "TTL = 1000000000"

record 'w CloudSyncFS =
  fs_provider_id :: string
  fs_account_id :: AccountId
  fs_content_cache :: "'w ContentCache option"

text \<open>
  The shared database, the inode counter, the disk, the download locks, and the table of
  open files with its counter. Nothing that can panic runs while \<open>open_files\<close> is locked, so
  it is never poisoned.
\<close>

record ('s, 'w) fs_state =
  fs_db :: "'s Database"
  fs_next_inode :: u64
  fs_world :: "'w world"
  fs_locks :: "string \<rightharpoonup> DownloadLock"
  fs_open_files :: "u64 \<rightharpoonup> PathBuf"
  fs_next_fh :: u64

definition cloud_sync_fs_new ::
  "'s db_env \<Rightarrow> bool \<Rightarrow> string \<Rightarrow> AccountId \<Rightarrow> 's Database \<times> 'w world \<Rightarrow>
   ('w CloudSyncFS \<times> ('s, 'w) fs_state, VfsError) outcome \<times> ('s Database \<times> 'w world)" where
  "cloud_sync_fs_new env chk provider_id account_id =
     bindS (on_db (inode_manager_new env chk)) (\<lambda>next_inode (db, w).
       (Ok (\<lparr> fs_provider_id = provider_id, fs_account_id = account_id, fs_content_cache = None \<rparr>,
            \<lparr> fs_db = db, fs_next_inode = next_inode, fs_world = w, fs_locks = Map.empty,
              fs_open_files = Map.empty, fs_next_fh = 1 \<rparr>), (db, w)))"

text \<open>\<open>cache_dir\<close> is the file cache directory of the configured paths.\<close>

definition with_sync_handle ::
  "'w io \<Rightarrow> 's db_env \<Rightarrow> bool \<Rightarrow> string option \<Rightarrow> PathBuf \<Rightarrow> string \<Rightarrow> AccountId \<Rightarrow> 'w CloudProvider \<Rightarrow>
   's Database \<times> 'w world \<Rightarrow> ('w CloudSyncFS \<times> ('s, 'w) fs_state, VfsError) outcome \<times> ('s Database \<times> 'w world)" where
  "with_sync_handle io env chk runtime_error cache_dir provider_id account_id provider =
     bindS (on_db (inode_manager_new env chk)) (\<lambda>next_inode.
     bindS (on_snd (content_cache_new io runtime_error (path_join cache_dir provider_id) provider account_id)) (\<lambda>cc (db, w).
       (Ok (\<lparr> fs_provider_id = provider_id, fs_account_id = account_id, fs_content_cache = Some cc \<rparr>,
            \<lparr> fs_db = db, fs_next_inode = next_inode, fs_world = w, fs_locks = Map.empty,
              fs_open_files = Map.empty, fs_next_fh = 1 \<rparr>), (db, w))))"

section \<open>Attributes\<close>

text \<open>Adding a duration to \<open>UNIX_EPOCH\<close> panics when the seconds do not fit an \<open>i64\<close>.\<close>

definition cached_file_to_attr :: "chrono \<Rightarrow> CachedFile \<Rightarrow> u64 \<Rightarrow> (FileAttr, errno) outcome" where
  "cached_file_to_attr ch f inode =
     (let kind = (if cf_is_directory f then Directory else RegularFile);
          secs = unat (as_u64 (timestamp ch (cf_modified_time f)))
      in if 2 ^ 63 \<le> secs then Panicked
         else let mtime = int secs * 1000000000 in
           Ok \<lparr> fa_ino = inode, fa_size = cf_size f, fa_blocks = of_nat ((unat (cf_size f) + 511) div 512),
                fa_atime = mtime, fa_mtime = mtime, fa_ctime = mtime, fa_crtime = mtime, fa_kind = kind,
                fa_perm = (if cf_is_directory f then 493 else 420), fa_nlink = 1, fa_uid = 1000, fa_gid = 1000,
                fa_rdev = 0, fa_blksize = 4096, fa_flags = 0 \<rparr>)"

text \<open>\<open>clock\<close> is \<open>SystemTime::now\<close>, read four times.\<close>

definition get_root_attr :: "('w \<Rightarrow> int \<times> 'w) \<Rightarrow> 'w \<Rightarrow> FileAttr \<times> 'w" where
  "get_root_attr clock w0 =
     (case clock w0 of (t1, w1) \<Rightarrow> case clock w1 of (t2, w2) \<Rightarrow> case clock w2 of (t3, w3) \<Rightarrow> case clock w3 of (t4, w4) \<Rightarrow>
        (\<lparr> fa_ino = FUSE_ROOT_INODE, fa_size = 0, fa_blocks = 0, fa_atime = t1, fa_mtime = t2, fa_ctime = t3,
           fa_crtime = t4, fa_kind = Directory, fa_perm = 493, fa_nlink = 2, fa_uid = 1000, fa_gid = 1000,
           fa_rdev = 0, fa_blksize = 4096, fa_flags = 0 \<rparr>, w4))"

section \<open>Calls on the parts of the state\<close>

definition fs_on_db :: "('s Database, 'a, DbError) st \<Rightarrow> (DbError \<Rightarrow> errno) \<Rightarrow> (('s, 'w) fs_state, 'a, errno) st" where
  "fs_on_db m err st = (case m (fs_db st) of (r, db) \<Rightarrow> (map_err err r, st\<lparr> fs_db := db \<rparr>))"

text \<open>\<open>Ok(None) | Err(_)\<close> both answer with \<open>e\<close>.\<close>

definition fs_found :: "('s Database, 'a option, DbError) st \<Rightarrow> errno \<Rightarrow> (('s, 'w) fs_state, 'a, errno) st" where
  "fs_found m e = bindS (fs_on_db m (\<lambda>_. e)) (\<lambda>x. case x of Some v \<Rightarrow> returnS v | None \<Rightarrow> failS e)"

definition fs_allocate :: "'s db_env \<Rightarrow> bool \<Rightarrow> FileId \<Rightarrow> (('s, 'w) fs_state, u64, errno) st" where
  "fs_allocate env chk file_id st = (case get_or_allocate env chk file_id (fs_db st, fs_next_inode st) of
     (r, (db, k)) \<Rightarrow> (map_err (\<lambda>_. EIO) r, st\<lparr> fs_db := db, fs_next_inode := k \<rparr>))"

definition fs_on_cache :: "(('s, 'w) cc_state, 'a, errno) st \<Rightarrow> (('s, 'w) fs_state, 'a, errno) st" where
  "fs_on_cache m st =
     (case m \<lparr> cc_db = fs_db st, cc_world = fs_world st, cc_locks = fs_locks st \<rparr> of
        (r, s) \<Rightarrow> (r, st\<lparr> fs_db := cc_db s, fs_world := cc_world s, fs_locks := cc_locks s \<rparr>))"

section \<open>Handlers\<close>

text \<open>The root has no row in the files table.\<close>

definition parent_path ::
  "'s db_env \<Rightarrow> 'w CloudSyncFS \<Rightarrow> u64 \<Rightarrow> FileId \<Rightarrow> (('s, 'w) fs_state, string, errno) st" where
  "parent_path env fs parent parent_file_id st =
     (case cache_get env (fs_account_id fs) parent_file_id (fs_db st) of
        (Ok (Some f), db) \<Rightarrow> (Ok (cf_path f), st\<lparr> fs_db := db \<rparr>)
      | (Panicked, db) \<Rightarrow> (Panicked, st\<lparr> fs_db := db \<rparr>)
      | (_, db) \<Rightarrow> (if parent = FUSE_ROOT_INODE then Ok ''/'' else Err ENOENT, st\<lparr> fs_db := db \<rparr>))"

definition lookup_child ::
  "'s db_env \<Rightarrow> bool \<Rightarrow> 'w CloudSyncFS \<Rightarrow> string \<Rightarrow> string \<Rightarrow> (('s, 'w) fs_state, reply, errno) st" where
  "lookup_child env chk fs path name_str =
     bindS (fs_on_db (get_children env (fs_account_id fs) path) (\<lambda>_. EIO)) (\<lambda>children.
     case find (\<lambda>child. cf_name child = name_str) children of
       None \<Rightarrow> failS ENOENT
     | Some child \<Rightarrow>
         bindS (fs_allocate env chk (cf_file_id child)) (\<lambda>inode.
         bindS (liftS (cached_file_to_attr (de_chrono env) child inode)) (\<lambda>attr.
         returnS (ReplyEntry TTL attr))))"

definition lookup ::
  "'s db_env \<Rightarrow> bool \<Rightarrow> 'w CloudSyncFS \<Rightarrow> u64 \<Rightarrow> string \<Rightarrow> (('s, 'w) fs_state, reply, errno) st" where
  "lookup env chk fs parent name =
     bindS (case os_str_to_str name of Some s \<Rightarrow> returnS s | None \<Rightarrow> failS EINVAL) (\<lambda>name_str.
     bindS (fs_found (get_file_id env parent) ENOENT) (\<lambda>parent_file_id.
     bindS (parent_path env fs parent parent_file_id) (\<lambda>path.
     lookup_child env chk fs path name_str)))"

definition getattr ::
  "'s db_env \<Rightarrow> ('w \<Rightarrow> int \<times> 'w) \<Rightarrow> 'w CloudSyncFS \<Rightarrow> u64 \<Rightarrow> (('s, 'w) fs_state, reply, errno) st" where
  "getattr env clock fs ino =
     (if ino = FUSE_ROOT_INODE then
        (\<lambda>st. case get_root_attr clock (w_outer (fs_world st)) of
           (attr, o') \<Rightarrow> (Ok (ReplyAttr TTL attr), st\<lparr> fs_world := (fs_world st)\<lparr> w_outer := o' \<rparr> \<rparr>))
      else
        bindS (fs_found (get_file_id env ino) ENOENT) (\<lambda>file_id.
        bindS (fs_found (cache_get env (fs_account_id fs) file_id) ENOENT) (\<lambda>f.
        bindS (liftS (cached_file_to_attr (de_chrono env) f ino)) (\<lambda>attr.
        returnS (ReplyAttr TTL attr)))))"

text \<open>A child whose inode cannot be had is left out.\<close>

fun child_entries ::
  "'s db_env \<Rightarrow> bool \<Rightarrow> CachedFile list \<Rightarrow> (('s, 'w) fs_state, (u64 \<times> FileType \<times> string) list, errno) st" where
  "child_entries env chk [] st = (Ok [], st)"
| "child_entries env chk (child # children) st =
     (case fs_allocate env chk (cf_file_id child) st of
        (Panicked, st') \<Rightarrow> (Panicked, st')
      | (Err e, st') \<Rightarrow> child_entries env chk children st'
      | (Ok i, st') \<Rightarrow>
          bindS (child_entries env chk children) (\<lambda>rest. returnS
            ((i, if cf_is_directory child then Directory else RegularFile, cf_name child) # rest)) st')"

text \<open>
  \<open>reply.add\<close> takes an entry unless the buffer has no room for it: \<open>fits taken e\<close> tells whether
  \<open>e\<close> still fits after the entries \<open>taken\<close>.
\<close>

fun add_entries :: "(dir_entry list \<Rightarrow> dir_entry \<Rightarrow> bool) \<Rightarrow> dir_entry list \<Rightarrow> dir_entry list \<Rightarrow> dir_entry list" where
  "add_entries fits taken [] = taken"
| "add_entries fits taken (e # es) = (if fits taken e then add_entries fits (taken @ [e]) es else taken)"

definition number_entries :: "(u64 \<times> FileType \<times> string) list \<Rightarrow> dir_entry list" where
  "number_entries es = map (\<lambda>(i, (ino, kind, name)). (ino, Suc i, kind, name)) (enumerate 0 es)"

definition dir_path :: "'s db_env \<Rightarrow> 'w CloudSyncFS \<Rightarrow> u64 \<Rightarrow> (('s, 'w) fs_state, string, errno) st" where
  "dir_path env fs ino =
     (if ino = FUSE_ROOT_INODE then returnS ''/''
      else bindS (fs_found (get_file_id env ino) ENOENT) (\<lambda>dir_file_id.
           bindS (fs_found (cache_get env (fs_account_id fs) dir_file_id) ENOENT) (\<lambda>f.
           returnS (cf_path f))))"

definition readdir ::
  "'s db_env \<Rightarrow> bool \<Rightarrow> (dir_entry list \<Rightarrow> dir_entry \<Rightarrow> bool) \<Rightarrow> 'w CloudSyncFS \<Rightarrow> u64 \<Rightarrow> int \<Rightarrow>
   (('s, 'w) fs_state, reply, errno) st" where
  "readdir env chk fits fs ino offset =
     bindS (dir_path env fs ino) (\<lambda>path.
     bindS (fs_on_db (get_children env (fs_account_id fs) path) (\<lambda>_. EIO)) (\<lambda>children.
     bindS (child_entries env chk children) (\<lambda>entries.
     returnS (ReplyDirectory (add_entries fits []
       (drop (unat (as_u64 offset)) (number_entries
          ((ino, Directory, ''.'') # (FUSE_ROOT_INODE, Directory, ''..'') # entries))))))))"

definition fs_open :: "'w io \<Rightarrow> 's db_env \<Rightarrow> 'w CloudSyncFS \<Rightarrow> u64 \<Rightarrow> (('s, 'w) fs_state, reply, errno) st" where
  "fs_open io env fs ino =
     bindS (fs_found (get_file_id env ino) ENOENT) (\<lambda>file_id.
     bindS (fs_found (cache_get env (fs_account_id fs) file_id) ENOENT) (\<lambda>f.
     if cf_is_directory f then failS EISDIR
     else case fs_content_cache fs of
       None \<Rightarrow> failS ENOSYS
     | Some cc \<Rightarrow>
         bindS (fs_on_cache (ensure_downloaded io env cc file_id)) (\<lambda>cached_path st.
           let fh = fs_next_fh st
           in (Ok (ReplyOpened fh 0),
               st\<lparr> fs_next_fh := fh + 1, fs_open_files := (fs_open_files st)(fh \<mapsto> cached_path) \<rparr>))))"

definition fs_read :: "'w io \<Rightarrow> 'w CloudSyncFS \<Rightarrow> u64 \<Rightarrow> int \<Rightarrow> u32 \<Rightarrow> (('s, 'w) fs_state, reply, errno) st" where
  "fs_read io fs fh offset sz st =
     (case fs_open_files st fh of
        None \<Rightarrow> (Err EBADF, st)
      | Some path \<Rightarrow>
          (case fs_content_cache fs of
             None \<Rightarrow> (Err ENOSYS, st)
           | Some cc \<Rightarrow> (map_ok ReplyData (read_file_at io path offset sz (fs_world st)), st)))"

definition fs_release :: "u64 \<Rightarrow> (('s, 'w) fs_state, reply, errno) st" where
  "fs_release fh st = (Ok ReplyOk, st\<lparr> fs_open_files := (fs_open_files st)(fh := None) \<rparr>)"

section \<open>Mounting\<close>

record MountHandle =
  mh_mount_point :: PathBuf
  mh_fs_name :: string

definition ensure_mount_point :: "'w io \<Rightarrow> PathBuf \<Rightarrow> ('s Database \<times> 'w world, unit, VfsError) st" where
  "ensure_mount_point io mount_point = (\<lambda>(db, w).
     if path_exists io mount_point w then (Ok (), (db, w))
     else on_snd (map_errS VfsIo (create_dir_all io mount_point)) (db, w))"

text \<open>What a mount sets up before the FUSE session runs the handlers in a thread of its own.\<close>

definition mount ::
  "'w io \<Rightarrow> 's db_env \<Rightarrow> bool \<Rightarrow> PathBuf \<Rightarrow> string \<Rightarrow> AccountId \<Rightarrow>
   ('s Database \<times> 'w world, MountHandle \<times> 'w CloudSyncFS \<times> ('s, 'w) fs_state, VfsError) st" where
  "mount io env chk mount_point provider_id account_id =
     bindS (ensure_mount_point io mount_point) (\<lambda>_.
     bindS (cloud_sync_fs_new env chk provider_id account_id) (\<lambda>(fs, st).
     returnS (\<lparr> mh_mount_point = mount_point, mh_fs_name = ''cloudsync-'' @ provider_id \<rparr>, fs, st)))"

text \<open>
  With a provider, the background synchronisation (\<open>background_sync\<close>) is started before the
  filesystem is set up and runs in a thread of its own on the same database.
\<close>

definition mount_with_provider ::
  "'w io \<Rightarrow> 's db_env \<Rightarrow> bool \<Rightarrow> string option \<Rightarrow> PathBuf \<Rightarrow> PathBuf \<Rightarrow> 'w CloudProvider \<Rightarrow> AccountId \<Rightarrow>
   ('s Database \<times> 'w world, MountHandle \<times> 'w CloudSyncFS \<times> ('s, 'w) fs_state, VfsError) st" where
  "mount_with_provider io env chk runtime_error cache_dir mount_point provider account_id =
     bindS (ensure_mount_point io mount_point) (\<lambda>_.
     bindS (with_sync_handle io env chk runtime_error cache_dir (cp_id provider) account_id provider) (\<lambda>(fs, st).
     returnS (\<lparr> mh_mount_point = mount_point, mh_fs_name = ''cloudsync-'' @ cp_id provider \<rparr>, fs, st)))"

section \<open>What allocating an inode leaves alone\<close>

lemma insert_inode_keeps:
  assumes "insert_inode env n f c = (r, c')"
  shows "db_files (cn_db c') = db_files (cn_db c) \<and> db_accounts (cn_db c') = db_accounts (cn_db c) \<and>
    db_files_seq (cn_db c') = db_files_seq (cn_db c)"
  using assms
  by (auto simp: insert_inode_def bindS_def now_st_app map_errS_def sql_execute_def insert_inode_row_def
      split: option.splits sum.splits prod.splits if_splits)

lemma get_or_insert_inode_keeps:
  assumes "no_faults (de_sql env)" "get_or_insert_inode env f next (c, k) = (r, (c', k'))"
  shows "db_files (cn_db c') = db_files (cn_db c) \<and> db_accounts (cn_db c') = db_accounts (cn_db c) \<and>
    db_files_seq (cn_db c') = db_files_seq (cn_db c)"
  using assms(2) insert_inode_keeps [of env _ f c]
  by (auto simp: get_or_insert_inode_result [OF assms(1)] split: option.splits prod.splits outcome.splits)

definition fs_inv :: "'s db_env \<Rightarrow> AccountId \<Rightarrow> ('s, 'w) fs_state \<Rightarrow> bool" where
  "fs_inv env acc st \<longleftrightarrow> handle_inv env acc (fs_db st) \<and> mgr_inv (env, fs_db st, fs_next_inode st)"

definition same_files :: "'s Database \<Rightarrow> 's Database \<Rightarrow> bool" where
  "same_files db db' \<longleftrightarrow> db_files (cn_db (dbh_conn db')) = db_files (cn_db (dbh_conn db)) \<and> handle_seq db' = handle_seq db"

text \<open>An allocation, through the allocator's contract and on the filesystem's state.\<close>

lemma fs_allocate_law:
  assumes inv: "fs_inv env acc st" and room: "unat (fs_next_inode st) < 2 ^ 63"
  shows "\<exists>n db k. fs_allocate env chk f st = (Ok n, st\<lparr> fs_db := db, fs_next_inode := k \<rparr>) \<and>
    fs_inv env acc (st\<lparr> fs_db := db, fs_next_inode := k \<rparr>) \<and> same_files (fs_db st) db \<and>
    unat k \<le> Suc (unat (fs_next_inode st)) \<and> get_file_id env n db = (Ok (Some f), db) \<and>
    mgr_num (env, db, k) = (mgr_num (env, fs_db st, fs_next_inode st))(f \<mapsto> n) \<and>
    mgr_num (env, fs_db st, fs_next_inode st) f \<in> {None, Some n}"
proof -
  let ?st = "(env, fs_db st, fs_next_inode st)"
  have m: "mgr_inv ?st" and h: "handle_inv env acc (fs_db st)" using inv by (auto simp: fs_inv_def)
  have "0 < mgr_room ?st" using room by (simp add: mgr_room_def)
  from mgr.alloc_law [OF m this, of chk f] obtain n st' where al: "mgr_alloc chk f ?st = (Ok n, st')" "mgr_inv st'"
    "mgr_room ?st \<le> Suc (mgr_room st')" "mgr_num st' = (mgr_num ?st)(f \<mapsto> n)" "mgr_num ?st f \<in> {None, Some n}"
    by blast
  obtain env' db k where st': "st' = (env', db, k)" by (cases st')
  with al(1) have g: "get_or_allocate env chk f (fs_db st, fs_next_inode st) = (Ok n, (db, k))" "env' = env"
    by (simp_all add: mgr_alloc_unfold)
  note inv' = al(2) [unfolded st' g(2)]
  have nf: "no_faults (de_sql env)" and np: "\<not> dbh_poisoned (fs_db st)"
    using m by (auto simp: mgr_inv_def sqlite_works_def)
  obtain c where c: "get_or_insert_inode env (file_id_str f) (next_counter chk) (dbh_conn (fs_db st), fs_next_inode st) =
      (Ok n, (c, k))" "db = (fs_db st)\<lparr> dbh_conn := c \<rparr>"
    using g(1) np by (auto simp: get_or_allocate_def with_conn_and_def split: prod.splits outcome.splits)
  have keep: "db_files (cn_db c) = db_files (cn_db (dbh_conn (fs_db st)))"
    "db_accounts (cn_db c) = db_accounts (cn_db (dbh_conn (fs_db st)))"
    "db_files_seq (cn_db c) = db_files_seq (cn_db (dbh_conn (fs_db st)))"
    using get_or_insert_inode_keeps [OF nf c(1)] by auto
  have "handle_inv env acc db"
    using h keep inv' c(2) by (auto simp: handle_inv_def meta_inv_def mgr_inv_def account_exists_def)
  moreover have "same_files (fs_db st) db" using keep c(2) by (simp add: same_files_def)
  moreover have "unat k \<le> Suc (unat (fs_next_inode st))"
    using al(3) room m inv' by (auto simp: st' mgr_room_def mgr_inv_def)
  moreover have "get_file_id env n db = (Ok (Some f), db)"
  proof -
    have dk: "db_ok (cn_db (dbh_conn db))" "inodes_cast (cn_db (dbh_conn db))" "\<not> dbh_poisoned db" "sqlite_works env"
      using inv' by (auto simp: mgr_inv_def conn_ok_def)
    have "inode_of (cn_db (dbh_conn db)) (file_id_str f) = Some n"
      using al(4) by (simp add: st' mgr_num_def fun_eq_iff split: if_splits)
    then show ?thesis
      using inode_file_inverse [OF dk(1,2)] get_file_id_result [OF dk(4,3), of n] by simp
  qed
  ultimately show ?thesis
    using g inv' al(4,5) by (intro exI [of _ n] exI [of _ db] exI [of _ k]) (simp add: fs_allocate_def fs_inv_def st')
qed

text \<open>The cached view of a file, read from the table.\<close>

definition cached_file :: "'s db_env \<Rightarrow> AccountId \<Rightarrow> 's Database \<Rightarrow> FileId \<Rightarrow> CachedFile option" where
  "cached_file env acc db i = (case cache_get env acc i db of (Ok x, _) \<Rightarrow> x | _ \<Rightarrow> None)"

lemma cache_get_result:
  assumes "handle_inv env acc db"
  shows "cache_get env acc i db = (Ok (cached_file env acc db i), db)"
proof -
  have m: "meta_inv env acc (dbh_conn db)" and np: "\<not> dbh_poisoned db" using assms by (auto simp: handle_inv_def)
  from get_existing [OF m, of i] obtain x where "get_file_by_provider_id env acc i (dbh_conn db) = (Ok x, dbh_conn db)"
    by blast
  then have "cache_get env acc i db = (Ok (map_option db_file_to_cached_file x), db)"
    using np by (simp add: cache_get_def with_conn_def)
  then show ?thesis by (simp add: cached_file_def)
qed

lemma cached_file_None:
  assumes "handle_inv env acc db" and "handle_view acc db i = None"
  shows "cached_file env acc db i = None"
proof -
  have m: "meta_inv env acc (dbh_conn db)" and np: "\<not> dbh_poisoned db" using assms(1) by (auto simp: handle_inv_def)
  have "get_file_by_provider_id env acc i (dbh_conn db) = (Ok None, dbh_conn db)"
    using get_existing [OF m, of i] assms(2) by auto
  then show ?thesis using np by (simp add: cached_file_def cache_get_def with_conn_def)
qed

lemma cached_file_same:
  assumes "handle_inv env acc db" "handle_inv env acc db'" "same_files db db'"
  shows "cached_file env acc db' = cached_file env acc db"
proof
  fix i
  have a: "no_faults (de_sql env)" "scans_rows (de_sql env)" "conn_ok (dbh_conn db)" "conn_ok (dbh_conn db')"
    "\<not> dbh_poisoned db" "\<not> dbh_poisoned db'"
    using assms(1,2) by (auto simp: handle_inv_def meta_inv_def sqlite_works_def)
  have eq: "fst (get_file_by_provider_id env acc i (dbh_conn db')) = fst (get_file_by_provider_id env acc i (dbh_conn db))"
    using assms(3) by (simp only: get_file_by_provider_id_result [OF a(1,2,3)] get_file_by_provider_id_result [OF a(1,2,4)]
        same_files_def fst_conv)
  have m: "meta_inv env acc (dbh_conn db)" "meta_inv env acc (dbh_conn db')"
    using assms(1,2) by (auto simp: handle_inv_def)
  obtain x where x: "get_file_by_provider_id env acc i (dbh_conn db) = (Ok x, dbh_conn db)"
    using get_existing [OF m(1), of i] by (elim disjE exE conjE) (rule that, assumption)+
  obtain y where y: "get_file_by_provider_id env acc i (dbh_conn db') = (Ok y, dbh_conn db')"
    using get_existing [OF m(2), of i] by (elim disjE exE conjE) (rule that, assumption)+
  have "x = y" using eq unfolding x y by simp
  then show "cached_file env acc db' i = cached_file env acc db i"
    using x y a(5,6) by (simp add: cached_file_def cache_get_def with_conn_def)
qed

lemma filter_is_singleton:
  assumes "distinct xs" "x \<in> set xs" "P x" and only: "\<And>y. y \<in> set xs \<Longrightarrow> P y \<Longrightarrow> y = x"
  shows "filter P xs = [x]"
proof -
  obtain as bs where xs: "xs = as @ x # bs" using assms(2) split_list by metis
  have "\<not> P y" if "y \<in> set as \<union> set bs" for y using that only [of y] assms(1) by (auto simp: xs)
  then have "filter P as = []" "filter P bs = []" by (auto simp: filter_empty_conv)
  then show ?thesis using assms(3) by (simp add: xs)
qed

lemma get_children_result:
  assumes "handle_inv env acc db"
  shows "\<exists>children. get_children env acc p db = (Ok children, db) \<and>
    (\<forall>c \<in> set children. cached_file env acc db (cf_file_id c) = Some c)"
proof -
  have m: "meta_inv env acc (dbh_conn db)" and np: "\<not> dbh_poisoned db" using assms by (auto simp: handle_inv_def)
  obtain rows fs where l: "with_conn (list_files env acc None) db = (Ok fs, db)"
    "set rows = {r \<in> set (db_files (cn_db (dbh_conn db))). fr_account_id r = account_id_str acc}"
    "list_all2 (\<lambda>r f. file_from_row (de_chrono env) r = Ok f) rows fs"
    using list_files_readable [OF assms] by blast
  have "cached_file env acc db (f_provider_file_id f) = Some (db_file_to_cached_file f)" if f: "f \<in> set fs" for f
  proof -
    obtain r where r: "r \<in> set rows" "file_from_row (de_chrono env) r = Ok f"
      using list_all2_right [OF l(3) f] by blast
    have id: "f_provider_file_id f = FileId (fr_provider_file_id r)"
      using r(2) by (auto simp: file_from_row_def bindO_Ok_iff)
    have a: "no_faults (de_sql env)" "scans_rows (de_sql env)" "conn_ok (dbh_conn db)"
      using m by (auto simp: meta_inv_def sqlite_works_def)
    have dk: "db_ok (cn_db (dbh_conn db))" using a(3) by (simp add: conn_ok_def)
    have "filter (\<lambda>x. (fr_account_id x, fr_provider_file_id x) = (account_id_str acc, fr_provider_file_id r))
        (db_files (cn_db (dbh_conn db))) = [r]"
    proof -
      have d: "distinct (map (\<lambda>r. (fr_account_id r, fr_provider_file_id r)) (db_files (cn_db (dbh_conn db))))"
        using dk by (simp add: db_ok_def)
      have "distinct (db_files (cn_db (dbh_conn db)))" using d by (simp add: distinct_map)
      moreover have "r \<in> set (db_files (cn_db (dbh_conn db)))" "fr_account_id r = account_id_str acc" using r(1) l(2) by auto
      moreover have "x = r" if "x \<in> set (db_files (cn_db (dbh_conn db)))" "fr_account_id x = account_id_str acc"
          "fr_provider_file_id x = fr_provider_file_id r" for x
        using that file_row_key_eq [OF dk that(1) calculation(2)] calculation(3) by simp
      ultimately show ?thesis by (intro filter_is_singleton) auto
    qed
    then have "get_file_by_provider_id env acc (f_provider_file_id f) (dbh_conn db) = (Ok (Some f), dbh_conn db)"
      using get_file_by_provider_id_result [OF a, of acc "f_provider_file_id f"] r(2) id by simp
    then show ?thesis using np by (simp add: cached_file_def cache_get_def with_conn_def)
  qed
  then have "\<forall>c \<in> set (map db_file_to_cached_file (filter (is_direct_child p) fs)). cached_file env acc db (cf_file_id c) = Some c"
    by (auto simp: db_file_to_cached_file_def)
  moreover have "get_children env acc p db = (Ok (map db_file_to_cached_file (filter (is_direct_child p) fs)), db)"
    using l(1) np by (auto simp: get_children_def with_conn_def bindS_def split: prod.splits outcome.splits if_splits)
  ultimately show ?thesis by blast
qed

lemma fs_on_db_Ok: "m (fs_db st) = (Ok x, fs_db st) \<Longrightarrow> fs_on_db m e st = (Ok x, st)"
  by (simp add: fs_on_db_def)

lemma fs_found_result:
  "m (fs_db st) = (Ok x, fs_db st) \<Longrightarrow>
   fs_found m e st = (case x of Some v \<Rightarrow> (Ok v, st) | None \<Rightarrow> (Err e, st))"
  by (simp add: fs_found_def bindS_def fs_on_db_def split: option.splits)

lemma fs_inv_file_id:
  assumes "fs_inv env acc st"
  shows "\<exists>x. get_file_id env ino (fs_db st) = (Ok x, fs_db st)"
  using assms get_file_id_result [of env "fs_db st" ino]
  by (auto simp: fs_inv_def mgr_inv_def)

text \<open>Every child of a listing gets an inode; asking again changes nothing.\<close>

definition entry_of :: "('s db_env \<times> 's Database \<times> u64) \<Rightarrow> CachedFile \<Rightarrow> u64 \<times> FileType \<times> string" where
  "entry_of m child = (the (mgr_num m (cf_file_id child)), if cf_is_directory child then Directory else RegularFile, cf_name child)"

abbreviation fs_mgr :: "'s db_env \<Rightarrow> ('s, 'w) fs_state \<Rightarrow> 's db_env \<times> 's Database \<times> u64" where
  "fs_mgr env st \<equiv> (env, fs_db st, fs_next_inode st)"

lemma child_entries_law:
  assumes "fs_inv env acc st" and "unat (fs_next_inode st) + length children \<le> 2 ^ 63"
  shows "\<exists>db k. let st' = st\<lparr> fs_db := db, fs_next_inode := k \<rparr> in
    child_entries env chk children st = (Ok (map (entry_of (fs_mgr env st')) children), st') \<and>
    fs_inv env acc st' \<and> same_files (fs_db st) db \<and> mgr_num (fs_mgr env st) \<subseteq>\<^sub>m mgr_num (fs_mgr env st') \<and>
    (\<forall>c \<in> set children. mgr_num (fs_mgr env st') (cf_file_id c) \<noteq> None)"
  using assms
proof (induction children arbitrary: st)
  case Nil
  then show ?case by (intro exI [of _ "fs_db st"] exI [of _ "fs_next_inode st"]) (simp add: same_files_def)
next
  case (Cons child children)
  from Cons.prems(2) have "unat (fs_next_inode st) < 2 ^ 63" by simp
  from fs_allocate_law [OF Cons.prems(1) this, of chk "cf_file_id child"] obtain n db1 k1 where 1:
    "fs_allocate env chk (cf_file_id child) st = (Ok n, st\<lparr> fs_db := db1, fs_next_inode := k1 \<rparr>)"
    "fs_inv env acc (st\<lparr> fs_db := db1, fs_next_inode := k1 \<rparr>)" "same_files (fs_db st) db1"
    "unat k1 \<le> Suc (unat (fs_next_inode st))"
    "mgr_num (env, db1, k1) = (mgr_num (fs_mgr env st))(cf_file_id child \<mapsto> n)"
    "mgr_num (fs_mgr env st) (cf_file_id child) \<in> {None, Some n}"
    by blast
  let ?st1 = "st\<lparr> fs_db := db1, fs_next_inode := k1 \<rparr>"
  from Cons.IH [OF 1(2)] 1(4) Cons.prems(2) obtain db2 k2 where 2:
    "child_entries env chk children ?st1 = (Ok (map (entry_of (env, db2, k2)) children), ?st1\<lparr> fs_db := db2, fs_next_inode := k2 \<rparr>)"
    "fs_inv env acc (?st1\<lparr> fs_db := db2, fs_next_inode := k2 \<rparr>)" "same_files db1 db2"
    "mgr_num (env, db1, k1) \<subseteq>\<^sub>m mgr_num (env, db2, k2)"
    "\<forall>c \<in> set children. mgr_num (env, db2, k2) (cf_file_id c) \<noteq> None"
    by (auto simp: Let_def)
  have le: "mgr_num (fs_mgr env st) \<subseteq>\<^sub>m mgr_num (env, db1, k1)" using 1(5,6) by (auto simp: map_le_def)
  have "mgr_num (env, db1, k1) (cf_file_id child) = Some n" using 1(5) by simp
  then have n: "mgr_num (env, db2, k2) (cf_file_id child) = Some n"
    using 2(4) by (auto simp: map_le_def dom_def)
  have "child_entries env chk (child # children) st =
      (Ok (map (entry_of (env, db2, k2)) (child # children)), st\<lparr> fs_db := db2, fs_next_inode := k2 \<rparr>)"
    using 1(1) 2(1) n by (simp add: entry_of_def)
  moreover have "same_files (fs_db st) db2" using 1(3) 2(3) by (simp add: same_files_def)
  ultimately show ?case
    using 2(2,5) n map_le_trans [OF le 2(4)]
    by (intro exI [of _ db2] exI [of _ k2]) (simp add: Let_def)
qed

lemma child_entries_known:
  assumes "mgr_inv (fs_mgr env st)" and "\<forall>c \<in> set children. mgr_num (fs_mgr env st) (cf_file_id c) \<noteq> None"
  shows "child_entries env chk children st = (Ok (map (entry_of (fs_mgr env st)) children), st)"
  using assms(2)
proof (induction children)
  case (Cons child children)
  then obtain n where n: "mgr_num (fs_mgr env st) (cf_file_id child) = Some n" by auto
  have "fs_allocate env chk (cf_file_id child) st = (Ok n, st)"
    using mgr_alloc_known [OF assms(1) n, of chk] by (simp add: mgr_alloc_unfold fs_allocate_def)
  with Cons n show ?case by (simp add: entry_of_def)
qed simp

section \<open>Paging through a directory\<close>

text \<open>
  The kernel reads a directory by calling \<open>readdir\<close> again from the offset of the last entry it
  got until no entry comes; \<open>n\<close> bounds the number of calls.
\<close>

fun list_dir ::
  "'s db_env \<Rightarrow> bool \<Rightarrow> (dir_entry list \<Rightarrow> dir_entry \<Rightarrow> bool) \<Rightarrow> 'w CloudSyncFS \<Rightarrow> u64 \<Rightarrow> nat \<Rightarrow> nat \<Rightarrow>
   ('s, 'w) fs_state \<Rightarrow> dir_entry list option \<times> ('s, 'w) fs_state" where
  "list_dir env chk fits fs ino offset 0 st = (None, st)"
| "list_dir env chk fits fs ino offset (Suc n) st =
     (case readdir env chk fits fs ino (int offset) st of
        (Ok (ReplyDirectory page), st') \<Rightarrow>
          (if page = [] then (Some [], st')
           else case list_dir env chk fits fs ino (fst (snd (last page))) n st' of
             (Some rest, st'') \<Rightarrow> (Some (page @ rest), st'')
           | (None, st'') \<Rightarrow> (None, st''))
      | (_, st') \<Rightarrow> (None, st'))"

lemma number_entries_length [simp]: "length (number_entries es) = length es"
  by (simp add: number_entries_def)

lemma number_entries_offset: "i < length es \<Longrightarrow> fst (snd (number_entries es ! i)) = Suc i"
  by (simp add: number_entries_def nth_enumerate_eq case_prod_beta)

lemma add_entries_take: "\<exists>k. add_entries fits taken es = taken @ take k es \<and> (es \<noteq> [] \<longrightarrow> fits taken (hd es) \<longrightarrow> 0 < k)"
proof (induction fits taken es rule: add_entries.induct)
  case (2 fits taken e es)
  show ?case
  proof (cases "fits taken e")
    case True
    with 2 obtain k where "add_entries fits (taken @ [e]) es = (taken @ [e]) @ take k es" by blast
    then show ?thesis using True by (intro exI [of _ "Suc k"]) simp
  qed (auto intro: exI [of _ 0])
qed (auto intro: exI [of _ 1])

lemma list_dir_pages:
  assumes page: "\<And>k. k < 2 ^ 63 \<Longrightarrow> readdir env chk fits fs ino (int k) st =
      (Ok (ReplyDirectory (add_entries fits [] (drop k (number_entries es)))), st)"
    and fits: "\<And>e. fits [] e" and "length es < 2 ^ 63" "length es - offset < n" "offset \<le> length es"
  shows "list_dir env chk fits fs ino offset n st = (Some (drop offset (number_entries es)), st)"
  using assms(4,5)
proof (induction n arbitrary: offset)
  case (Suc n)
  let ?all = "number_entries es"
  obtain k where k: "add_entries fits [] (drop offset ?all) = take k (drop offset ?all)"
    "drop offset ?all \<noteq> [] \<Longrightarrow> 0 < k"
    using add_entries_take [of fits "[]" "drop offset ?all"] fits by fastforce
  have rd: "readdir env chk fits fs ino (int offset) st = (Ok (ReplyDirectory (take k (drop offset ?all))), st)"
    using page [of offset] assms(3) Suc.prems(2) k(1) by simp
  show ?case
  proof (cases "offset = length es")
    case True
    then show ?thesis using rd by simp
  next
    case False
    then have lt: "offset < length es" using Suc.prems(2) by simp
    then have k0: "0 < k" using k(2) by simp
    define m where "m = min (offset + k) (length es)"
    have m: "offset < m" "m \<le> length es" using lt k0 by (auto simp: m_def)
    have p: "take k (drop offset ?all) = drop offset (take m ?all)"
      by (simp add: m_def take_drop min_def) (simp add: add.commute)
    have len: "length (drop offset (take m ?all)) = m - offset" using m by simp
    have ne: "drop offset (take m ?all) \<noteq> []" using len m(1) by (cases "drop offset (take m ?all)") simp_all
    have "last (drop offset (take m ?all)) = ?all ! (m - 1)"
      using m by (simp add: last_conv_nth) 
    then have "fst (snd (last (drop offset (take m ?all)))) = m"
      using number_entries_offset [of "m - 1" es] m by simp
    moreover have "list_dir env chk fits fs ino m n st = (Some (drop m ?all), st)"
      using Suc.IH [of m] m Suc.prems by simp
    moreover have "drop offset (take m ?all) @ drop m ?all = drop offset ?all"
    proof -
      have "drop offset ?all = drop offset (take m ?all @ drop m ?all)" by simp
      also have "\<dots> = drop offset (take m ?all) @ drop m ?all"
        using m by (subst drop_append) (simp add: min_absorb2 del: append_take_drop_id)
      finally show ?thesis by simp
    qed
    ultimately show ?thesis using rd ne by (simp add: p)
  qed
qed simp

section \<open>Properties of the filesystem\<close>

text \<open>A file \<open>/a\<close> in a started filesystem.\<close>

definition sample_row :: file_row where
  "sample_row = (file_params chrono_utc sample_file)\<lparr> fr_id := 1, fr_path := ''/a'' \<rparr>"

definition sample_tree :: "nat Database" where
  "sample_tree = \<lparr> dbh_conn = sample_conn (sample_db\<lparr> db_files := [sample_row],
     db_inodes := [\<lparr> ir_inode = 1, ir_file_id = ''root'', ir_created_at = 0 \<rparr>] \<rparr>), dbh_poisoned = False \<rparr>"

definition sample_fs :: "unit CloudSyncFS" where
  "sample_fs = \<lparr> fs_provider_id = ''gdrive'', fs_account_id = AccountId ''acc'', fs_content_cache = Some (sample_cache (Ok ())) \<rparr>"

definition sample_fs_state :: "(nat, unit) fs_state" where
  "sample_fs_state = \<lparr> fs_db = sample_tree, fs_next_inode = 2, fs_world = cc_world sample_cached, fs_locks = Map.empty,
     fs_open_files = Map.empty, fs_next_fh = 1 \<rparr>"

lemma sample_fs_inv: "fs_inv sample_env (AccountId ''acc'') sample_fs_state"
proof -
  have clock: "clock_ok sample_env" using sample_meta_inv by (simp add: handle_inv_def meta_inv_def)
  have "row_readable chrono_utc sample_row"
    by (simp add: row_readable_def file_params_def sample_file_def chrono_utc_def sample_row_def)
  moreover have ok: "conn_ok (dbh_conn sample_tree)"
    by (simp add: conn_ok_def sample_tree_def sample_conn_def sample_db_def empty_db_def db_ok_def account_exists_def
      account_params_def sample_account_def sample_file_def provider_check_def state_check_def sample_row_def)
  ultimately have "handle_inv sample_env (AccountId ''acc'') sample_tree"
    using clock
    by (simp add: handle_inv_def meta_inv_def account_exists_def)
      (simp add: sample_tree_def sample_conn_def sample_db_def account_params_def sample_account_def)
  moreover have "mgr_inv (sample_env, sample_tree, 2)"
    using ok
    by (simp add: mgr_inv_def sample_tree_def sample_conn_def inodes_cast_def inode_of_def ROOT_FILE_ID_def
        FUSE_ROOT_INODE_def as_i64_def as_u64_def)
  ultimately show ?thesis by (simp add: fs_inv_def sample_fs_state_def)
qed

lemma sample_fs_simps [simp]:
  "fs_account_id sample_fs = AccountId ''acc''" "fs_content_cache sample_fs = Some (sample_cache (Ok ()))"
  "fs_db sample_fs_state = sample_tree" "fs_next_inode sample_fs_state = 2"
  "fs_world sample_fs_state = cc_world sample_cached" "fs_next_fh sample_fs_state = 1"
  by (simp_all add: sample_fs_def sample_fs_state_def)

lemma sample_handle_inv: "handle_inv sample_env (AccountId ''acc'') sample_tree"
  using sample_fs_inv by (simp add: fs_inv_def)

lemma sample_root_id: "get_file_id sample_env 1 sample_tree = (Ok (Some (FileId ''root'')), sample_tree)"
  using get_file_id_result [of sample_env sample_tree 1]
  by (simp add: sample_tree_def sample_conn_def file_of_def as_i64_def)

definition sample_child :: CachedFile where
  "sample_child = \<lparr> cf_file_id = FileId ''f1'', cf_name = ''a'', cf_path = ''/a'', cf_size = - 1, cf_is_directory = False,
     cf_modified_time = 1000000000, cf_state = CsCloudOnly \<rparr>"

lemma sample_children: "get_children sample_env (AccountId ''acc'') ''/'' sample_tree = (Ok [sample_child], sample_tree)"
proof -
  have "file_from_row chrono_utc sample_row = Ok (sample_file\<lparr> f_id := 1, f_path := CloudPath ''/a'', f_modified_at := 1000000000,
      f_synced_at := Some 1000000000, f_created_at := 2000000000, f_updated_at := 2000000000 \<rparr>)"
    by (simp add: file_from_row_def sample_row_def file_params_def sample_file_def chrono_utc_def state_of_column_def
        cloud_path_new_def starts_with_def replace_char_def)
  then have "list_files sample_env (AccountId ''acc'') None (dbh_conn sample_tree) =
      (Ok [sample_file\<lparr> f_id := 1, f_path := CloudPath ''/a'', f_modified_at := 1000000000,
      f_synced_at := Some 1000000000, f_created_at := 2000000000, f_updated_at := 2000000000 \<rparr>], dbh_conn sample_tree)"
    by (simp add: list_files_def map_errS_def sql_query_map_def sample_env_def plain_sqlite_def sample_conn_def
        sample_tree_def) (simp add: sample_row_def sample_file_def)
  then show ?thesis
    by (simp add: get_children_def with_conn_def sample_tree_def is_direct_child_def child_prefix_def starts_with_def
        db_file_to_cached_file_def file_state_to_cache_state_def sample_child_def)
      (simp add: sample_file_def)
qed

lemma sample_not_root: "handle_view (AccountId ''acc'') sample_tree (FileId ROOT_FILE_ID) = None"
  by (simp add: cloud_view_def sample_tree_def sample_conn_def sample_db_def sample_row_def sample_file_def ROOT_FILE_ID_def)

lemma sample_parent_path: "parent_path sample_env sample_fs 1 (FileId ''root'') sample_fs_state = (Ok ''/'', sample_fs_state)"
  using cache_get_result [OF sample_handle_inv, of "FileId ''root''"]
    cached_file_None [OF sample_handle_inv sample_not_root]
  by (simp add: parent_path_def ROOT_FILE_ID_def FUSE_ROOT_INODE_def sample_fs_state_def)

lemma sample_lookup:
  obtains attr st' where "lookup sample_env True sample_fs 1 ''a'' sample_fs_state = (Ok (ReplyEntry TTL attr), st')"
    "same_files sample_tree (fs_db st')" "unat (fs_next_inode st') \<le> 3"
proof -
  obtain n db k where al: "fs_allocate sample_env True (FileId ''f1'') sample_fs_state =
      (Ok n, sample_fs_state\<lparr> fs_db := db, fs_next_inode := k \<rparr>)" "same_files sample_tree db" "unat k \<le> 3"
    using fs_allocate_law [OF sample_fs_inv, of True "FileId ''f1''"] by auto
  have f: "fs_found (get_file_id sample_env 1) ENOENT sample_fs_state = (Ok (FileId ''root''), sample_fs_state)"
    using sample_root_id fs_found_result [where m = "get_file_id sample_env 1" and e = ENOENT and st = sample_fs_state
      and x = "Some (FileId ''root'')"] by simp
  have c: "fs_on_db (get_children sample_env (AccountId ''acc'') ''/'') (\<lambda>_. EIO) sample_fs_state = (Ok [sample_child], sample_fs_state)"
    using sample_children by (intro fs_on_db_Ok) simp
  have "\<exists>attr. cached_file_to_attr chrono_utc sample_child n = Ok attr"
    by (simp add: cached_file_to_attr_def sample_child_def chrono_utc_def as_u64_def Let_def)
  then obtain attr where "cached_file_to_attr (de_chrono sample_env) sample_child n = Ok attr" by auto
  then have "lookup sample_env True sample_fs 1 ''a'' sample_fs_state =
      (Ok (ReplyEntry TTL attr), sample_fs_state\<lparr> fs_db := db, fs_next_inode := k \<rparr>)"
    using f sample_parent_path c al(1)
    by (simp add: lookup_def os_str_to_str_def lookup_child_def) (simp add: sample_child_def)
  then show ?thesis by (rule that) (use al(2,3) in simp_all)
qed

text \<open>
  What \<open>lookup\<close> finds, \<open>getattr\<close> confirms, as long as inodes are left and no cloud file carries
  the root's identifier.
\<close>

lemma lookup_answers:
  assumes inv: "fs_inv env (fs_account_id fs) st" and room: "unat (fs_next_inode st) < 2 ^ 63"
    and root: "handle_view (fs_account_id fs) (fs_db st) (FileId ROOT_FILE_ID) = None"
    and found: "lookup env chk fs parent name st = (Ok (ReplyEntry ttl attr), st')"
  shows "fs_inv env (fs_account_id fs) st' \<and> fa_ino attr \<noteq> FUSE_ROOT_INODE \<and>
    getattr env clock fs (fa_ino attr) st' = (Ok (ReplyAttr ttl attr), st') \<and>
    (\<exists>child. get_file_id env (fa_ino attr) (fs_db st') = (Ok (Some (cf_file_id child)), fs_db st') \<and>
      cached_file env (fs_account_id fs) (fs_db st') (cf_file_id child) = Some child)"
proof -
  let ?acc = "fs_account_id fs"
  have h: "handle_inv env ?acc (fs_db st)" using inv by (simp add: fs_inv_def)
  obtain s where s: "os_str_to_str name = Some s" using found by (cases "os_str_to_str name") (auto simp: lookup_def)
  obtain x where x: "get_file_id env parent (fs_db st) = (Ok x, fs_db st)" using fs_inv_file_id [OF inv] by blast
  have f: "fs_found (get_file_id env parent) ENOENT st = (case x of Some v \<Rightarrow> (Ok v, st) | None \<Rightarrow> (Err ENOENT, st))"
    using x by (rule fs_found_result)
  obtain pid where pid: "x = Some pid" using found s f by (cases x) (simp_all add: lookup_def)
  obtain path where path: "parent_path env fs parent pid st = (Ok path, st)"
    using found s f pid cache_get_result [OF h, of pid]
    by (cases "cached_file env ?acc (fs_db st) pid"; cases "parent = FUSE_ROOT_INODE")
      (auto simp: lookup_def parent_path_def bindS_def)
  have path: "lookup_child env chk fs path s st = (Ok (ReplyEntry ttl attr), st')"
    using found s f pid path by (simp add: lookup_def)
  obtain children where ch: "get_children env ?acc path (fs_db st) = (Ok children, fs_db st)"
    "\<forall>c \<in> set children. cached_file env ?acc (fs_db st) (cf_file_id c) = Some c"
    using get_children_result [OF h] by blast
  obtain child where child: "find (\<lambda>child. cf_name child = s) children = Some child"
    using path ch(1) by (cases "find (\<lambda>child. cf_name child = s) children") (simp_all add: lookup_child_def fs_on_db_Ok)
  then have cf: "cached_file env ?acc (fs_db st) (cf_file_id child) = Some child"
    using ch(2) by (auto simp: find_Some_iff)
  obtain n db k where al: "fs_allocate env chk (cf_file_id child) st = (Ok n, st\<lparr> fs_db := db, fs_next_inode := k \<rparr>)"
    "fs_inv env ?acc (st\<lparr> fs_db := db, fs_next_inode := k \<rparr>)" "same_files (fs_db st) db"
    "get_file_id env n db = (Ok (Some (cf_file_id child)), db)"
    "mgr_num (env, db, k) = (mgr_num (fs_mgr env st))(cf_file_id child \<mapsto> n)"
    using fs_allocate_law [OF inv room, of chk "cf_file_id child"] by blast
  have at: "cached_file_to_attr (de_chrono env) child n = Ok attr" "ttl = TTL" "st' = st\<lparr> fs_db := db, fs_next_inode := k \<rparr>"
    using path ch(1) child al(1)
    by (auto simp: lookup_child_def fs_on_db_Ok bindS_eq_Ok)
  have ino: "fa_ino attr = n" using at(1) by (auto simp: cached_file_to_attr_def Let_def split: if_splits)
  have "n \<noteq> FUSE_ROOT_INODE"
  proof
    assume n: "n = FUSE_ROOT_INODE"
    have m: "mgr_inv (env, db, k)" using al(2) by (simp add: fs_inv_def)
    then have "mgr_num (env, db, k) (FileId ROOT_FILE_ID) = Some n" by (simp add: mgr_inv_def mgr_num_def n)
    moreover have "mgr_num (env, db, k) (cf_file_id child) = Some n" using al(5) by simp
    ultimately have "cf_file_id child = FileId ROOT_FILE_ID" using mgr.num_inj [OF m] by blast
    then show False using cf cached_file_None [OF h root] by simp
  qed
  moreover have h': "handle_inv env ?acc db" using al(2) by (simp add: fs_inv_def)
  moreover have view: "cached_file env ?acc db (cf_file_id child) = Some child" using cached_file_same [OF h h' al(3)] cf by simp
  moreover have "getattr env clock fs n st' = (Ok (ReplyAttr TTL attr), st')"
    using \<open>n \<noteq> _\<close> al(4) at cache_get_result [OF h', of "cf_file_id child"] view
    by (simp add: getattr_def fs_found_result)
  ultimately show ?thesis using al(2,4) at ino by auto
qed

lemma get_children_same:
  assumes h: "handle_inv env acc db" "handle_inv env acc db'" and same: "same_files db db'"
    and ch: "get_children env acc p db = (Ok children, db)"
  shows "get_children env acc p db' = (Ok children, db')"
proof -
  have np: "\<not> dbh_poisoned db" "\<not> dbh_poisoned db'" and nf: "no_faults (de_sql env)"
    using h by (auto simp: handle_inv_def meta_inv_def sqlite_works_def)
  have snd: "snd (list_files env acc None c) = c" for c :: "'a conn" by simp
  have "fst (list_files env acc None (dbh_conn db')) = fst (list_files env acc None (dbh_conn db))"
    using same nf by (simp add: list_files_def map_errS_def sql_query_map_def no_faults_def same_files_def)
  then obtain x where x: "list_files env acc None (dbh_conn db) = (x, dbh_conn db)"
    "list_files env acc None (dbh_conn db') = (x, dbh_conn db')"
    using snd [of "dbh_conn db"] snd [of "dbh_conn db'"] by (metis prod.collapse)
  then show ?thesis
    using ch np by (cases x) (auto simp: get_children_def with_conn_def bindS_def)
qed

lemma dir_path_same:
  assumes inv: "fs_inv env (fs_account_id fs) st" "fs_inv env (fs_account_id fs) st'"
    and same: "same_files (fs_db st) (fs_db st')" and num: "mgr_num (fs_mgr env st) \<subseteq>\<^sub>m mgr_num (fs_mgr env st')"
    and p: "dir_path env fs ino st = (Ok p, st)"
  shows "dir_path env fs ino st' = (Ok p, st')"
proof (cases "ino = FUSE_ROOT_INODE")
  case True
  then show ?thesis using p by (simp add: dir_path_def)
next
  case False
  let ?d = "\<lambda>st. cn_db (dbh_conn (fs_db st))"
  have w: "sqlite_works env" "\<not> dbh_poisoned (fs_db st)" "\<not> dbh_poisoned (fs_db st')" "db_ok (?d st)" "db_ok (?d st')"
    "inodes_cast (?d st)" "inodes_cast (?d st')" "handle_inv env (fs_account_id fs) (fs_db st)"
    "handle_inv env (fs_account_id fs) (fs_db st')"
    using inv by (auto simp: fs_inv_def mgr_inv_def conn_ok_def)
  have f: "fs_found (get_file_id env ino) ENOENT s =
      (case map_option FileId (file_of (?d s) ino) of Some v \<Rightarrow> (Ok v, s) | None \<Rightarrow> (Err ENOENT, s))"
    if "s = st \<or> s = st'" for s
    using get_file_id_result [OF w(1), of "fs_db s" ino] w(2,3) that by (intro fs_found_result) auto
  obtain i where i: "file_of (?d st) ino = Some i"
    using p False f [of st] by (cases "file_of (?d st) ino") (simp_all add: dir_path_def)
  then have "mgr_num (fs_mgr env st) (FileId i) = Some ino" using inode_file_inverse [OF w(4,6)] by (simp add: mgr_num_def)
  then have "mgr_num (fs_mgr env st') (FileId i) = Some ino" using num by (force simp: map_le_def dom_def)
  then have i': "file_of (?d st') ino = Some i" using inode_file_inverse [OF w(5,7)] by (simp add: mgr_num_def)
  have c: "fs_found (cache_get env (fs_account_id fs) (FileId i)) ENOENT s =
      (case cached_file env (fs_account_id fs) (fs_db s) (FileId i) of Some v \<Rightarrow> (Ok v, s) | None \<Rightarrow> (Err ENOENT, s))"
    if "s = st \<or> s = st'" for s
    using cache_get_result that w(8,9) by (intro fs_found_result) blast
  have "cached_file env (fs_account_id fs) (fs_db st') = cached_file env (fs_account_id fs) (fs_db st)"
    using cached_file_same [OF w(8,9) same] .
  then show ?thesis
    using p False f i i' c by (cases "cached_file env (fs_account_id fs) (fs_db st) (FileId i)") (auto simp: dir_path_def)
qed

lemma readdir_result:
  assumes "dir_path env fs ino st = (Ok p, st)" "get_children env (fs_account_id fs) p (fs_db st) = (Ok children, fs_db st)"
    and "child_entries env chk children st = (Ok entries, st')" and "k < 2 ^ 63"
  shows "readdir env chk fits fs ino (int k) st = (Ok (ReplyDirectory (add_entries fits [] (drop k
    (number_entries ((ino, Directory, ''.'') # (FUSE_ROOT_INODE, Directory, ''..'') # entries))))), st')"
proof -
  have "unat (as_u64 (int k)) = k" using assms(4) by (simp add: as_u64_def unat_of_nat take_bit_eq_mod)
  then show ?thesis using assms(1-3) by (simp add: readdir_def fs_on_db_Ok)
qed

text \<open>
  C8: Reading a directory page by page, with a buffer that takes at least one entry at a time,
  ends, and the pages together are \<open>.\<close>, \<open>..\<close> and every child once, in the order of the listing;
  the inode of each child leads back to its file.
\<close>

theorem readdir_pages_complete:
  assumes inv: "fs_inv env (fs_account_id fs) st" and fits: "\<forall>e. fits [] e"
    and dir: "dir_path env fs ino st = (Ok p, st)"
    and ch: "get_children env (fs_account_id fs) p (fs_db st) = (Ok children, fs_db st)"
    and room: "unat (fs_next_inode st) + length children \<le> 2 ^ 63" "length children + 2 < 2 ^ 63"
  shows "\<exists>entries st'. list_dir env chk fits fs ino 0 (length children + 3) st = (Some entries, st') \<and>
    fs_inv env (fs_account_id fs) st' \<and> map (snd \<circ> snd \<circ> snd) entries = ''.'' # ''..'' # map cf_name children \<and>
    (\<forall>i < length children. get_file_id env (fst (entries ! (i + 2))) (fs_db st') =
       (Ok (Some (cf_file_id (children ! i))), fs_db st'))"
proof -
  obtain db k where "let st' = st\<lparr> fs_db := db, fs_next_inode := k \<rparr> in
    child_entries env chk children st = (Ok (map (entry_of (fs_mgr env st')) children), st') \<and>
    fs_inv env (fs_account_id fs) st' \<and> same_files (fs_db st) db \<and> mgr_num (fs_mgr env st) \<subseteq>\<^sub>m mgr_num (fs_mgr env st') \<and>
    (\<forall>c \<in> set children. mgr_num (fs_mgr env st') (cf_file_id c) \<noteq> None)"
    using child_entries_law [OF inv room(1), of chk] by blast
  then obtain st' where c: "child_entries env chk children st = (Ok (map (entry_of (fs_mgr env st')) children), st')"
    "fs_inv env (fs_account_id fs) st'" "same_files (fs_db st) (fs_db st')"
    "mgr_num (fs_mgr env st) \<subseteq>\<^sub>m mgr_num (fs_mgr env st')"
    "\<forall>c \<in> set children. mgr_num (fs_mgr env st') (cf_file_id c) \<noteq> None"
    by (auto simp: Let_def)
  let ?es = "(ino, Directory, ''.'') # (FUSE_ROOT_INODE, Directory, ''..'') # map (entry_of (fs_mgr env st')) children"
  have h: "handle_inv env (fs_account_id fs) (fs_db st)" "handle_inv env (fs_account_id fs) (fs_db st')"
    and m: "mgr_inv (fs_mgr env st')"
    using inv c(2) by (auto simp: fs_inv_def)
  have page: "readdir env chk fits fs ino (int j) st' = (Ok (ReplyDirectory (add_entries fits [] (drop j (number_entries ?es)))), st')"
    if "j < 2 ^ 63" for j
    using readdir_result [OF dir_path_same [OF inv c(2,3,4) dir] get_children_same [OF h c(3) ch]
        child_entries_known [OF m c(5)] that] .
  have first: "readdir env chk fits fs ino (int 0) st = readdir env chk fits fs ino (int 0) st'"
    using readdir_result [OF dir ch c(1), of 0] page [of 0] by simp
  have "list_dir env chk fits fs ino 0 (length children + 3) st' = (Some (drop 0 (number_entries ?es)), st')"
    by (rule list_dir_pages [OF page]) (use fits room in auto)
  moreover have "list_dir env chk fits fs ino 0 (Suc n) st = list_dir env chk fits fs ino 0 (Suc n) st'" for n
    using first by simp
  then have "list_dir env chk fits fs ino 0 (length children + 3) st = list_dir env chk fits fs ino 0 (length children + 3) st'"
    by (metis add_Suc_right numeral_3_eq_3)
  ultimately have l: "list_dir env chk fits fs ino 0 (length children + 3) st = (Some (number_entries ?es), st')" by simp
  have names: "map (snd \<circ> snd \<circ> snd) (number_entries ?es) = ''.'' # ''..'' # map cf_name children"
    by (rule nth_equalityI)
      (auto simp: number_entries_def nth_enumerate_eq nth_Cons entry_of_def case_prod_beta split: nat.splits)
  have "get_file_id env (fst (number_entries ?es ! (i + 2))) (fs_db st') = (Ok (Some (cf_file_id (children ! i))), fs_db st')"
    if "i < length children" for i
  proof -
    obtain n where n: "mgr_num (fs_mgr env st') (cf_file_id (children ! i)) = Some n" using c(5) \<open>i < _\<close> by force
    have "fst (number_entries ?es ! (i + 2)) = n"
      using n \<open>i < _\<close> by (simp add: number_entries_def nth_enumerate_eq entry_of_def)
    moreover have dk: "db_ok (cn_db (dbh_conn (fs_db st')))" "inodes_cast (cn_db (dbh_conn (fs_db st')))"
      using m by (auto simp: mgr_inv_def conn_ok_def)
    have "file_of (cn_db (dbh_conn (fs_db st'))) n = Some (file_id_str (cf_file_id (children ! i)))"
      using n inode_file_inverse [OF dk] by (simp add: mgr_num_def)
    ultimately show ?thesis
      using get_file_id_result [of env "fs_db st'" n] m by (simp add: mgr_inv_def)
  qed
  then show ?thesis
    by (intro exI [of _ "number_entries ?es"] exI [of _ st'] conjI l c(2) names) simp
qed

theorem readdir_pages_complete_witness:
  "\<exists>entries st'. list_dir sample_env True (\<lambda>taken e. taken = []) sample_fs 1 0 4 sample_fs_state = (Some entries, st') \<and>
     map (snd \<circ> snd \<circ> snd) entries = [''.'', ''..'', ''a'']"
proof -
  have "dir_path sample_env sample_fs 1 sample_fs_state = (Ok ''/'', sample_fs_state)"
    by (simp add: dir_path_def FUSE_ROOT_INODE_def)
  moreover have "get_children sample_env (fs_account_id sample_fs) ''/'' (fs_db sample_fs_state) = (Ok [sample_child], fs_db sample_fs_state)"
    using sample_children by simp
  moreover have "fs_inv sample_env (fs_account_id sample_fs) sample_fs_state" using sample_fs_inv by simp
  ultimately show ?thesis
    using readdir_pages_complete [of sample_env sample_fs sample_fs_state "\<lambda>taken e. taken = []" 1 "''/''" "[sample_child]" True]
    by (fastforce simp: sample_child_def)
qed

text \<open>A system whose reads are refused by nothing and deliver all that is asked for.\<close>

definition reads_fully :: "'w io \<Rightarrow> bool" where
  "reads_fully io \<longleftrightarrow> (\<forall>l w. io_fault io ''lseek'' l w = None \<and> io_fault io ''read'' l w = None) \<and>
     (\<forall>l start n w. n \<le> io_read_len io l start n w)"

lemma opened_file_reads:
  assumes h: "handle_inv env (fs_account_id fs) (fs_db st)" and cc: "fs_content_cache fs = Some cc"
    and ino: "get_file_id env ino (fs_db st) = (Ok (Some f), fs_db st)"
    and cf: "cached_file env (fs_account_id fs) (fs_db st) f = Some cf" "\<not> cf_is_directory cf"
    and dl: "fs_on_cache (ensure_downloaded io env cc f) st = (Ok path, st1)"
    and io: "file_open io path (fs_world st1) = Ok (l, FileN b)" "reads_fully io"
    and offset: "0 \<le> offset" "offset < 2 ^ 63"
  shows "\<exists>st2. fs_open io env fs ino st = (Ok (ReplyOpened (fs_next_fh st1) 0), st2) \<and>
    fs_read io fs (fs_next_fh st1) offset sz st2 = (Ok (ReplyData (take (unat sz) (drop (nat offset) b))), st2) \<and> fs_db st2 = fs_db st1 \<and>
    (\<forall>h. h \<noteq> fs_next_fh st1 \<longrightarrow> fs_open_files st2 h = fs_open_files st h) \<and>
    fs_read io fs (fs_next_fh st1) offset sz (snd (fs_release (fs_next_fh st1) st2)) =
      (Err EBADF, snd (fs_release (fs_next_fh st1) st2))"
proof -
  have 1: "fs_found (get_file_id env ino) ENOENT st = (Ok f, st)"
    using fs_found_result [where m = "get_file_id env ino" and e = ENOENT, OF ino] by simp
  have 2: "fs_found (cache_get env (fs_account_id fs) f) ENOENT st = (Ok cf, st)"
    using fs_found_result [where m = "cache_get env (fs_account_id fs) f" and e = ENOENT, OF cache_get_result [OF h]] cf(1) by simp
  define st2 where "st2 = st1\<lparr> fs_next_fh := fs_next_fh st1 + 1, fs_open_files := (fs_open_files st1)(fs_next_fh st1 \<mapsto> path) \<rparr>"
  have op: "fs_open io env fs ino st = (Ok (ReplyOpened (fs_next_fh st1) 0), st2)"
    using 1 2 cf(2) cc dl by (simp add: fs_open_def st2_def Let_def)
  have u: "unat (as_u64 offset) = nat offset"
    using offset by (simp add: as_u64_def unat_eq_nat_uint uint_word_of_int)
  have "file_read_at io (l, FileN b) (as_u64 offset) (unat sz) (fs_world st1) = Ok (take (unat sz) (drop (nat offset) b))"
    using io(2) offset u by (simp add: file_read_at_def reads_fully_def min_absorb1)
  then have "read_file_at io path offset sz (fs_world st1) = Ok (take (unat sz) (drop (nat offset) b))"
    using io(1) by (simp add: read_file_at_def)
  then have "fs_read io fs (fs_next_fh st1) offset sz st2 = (Ok (ReplyData (take (unat sz) (drop (nat offset) b))), st2)"
    using cc by (simp add: fs_read_def st2_def)
  moreover have "fs_open_files st1 = fs_open_files st"
    using dl by (auto simp: fs_on_cache_def split: prod.splits)
  ultimately show ?thesis using op by (auto simp: st2_def fs_release_def fs_read_def)
qed

text \<open>
  C26: Opening a file whose content could be had gives the next handle; reading through it gives
  exactly the bytes of the cached file from the offset on, cut at the requested length and at
  the end of the file; other handles are untouched, and after the release the handle is unknown.
\<close>

theorem open_read_release:
  assumes inv: "fs_inv env (fs_account_id fs) st" and cc: "fs_content_cache fs = Some cc"
    and ino: "get_file_id env ino (fs_db st) = (Ok (Some f), fs_db st)"
    and cf: "cached_file env (fs_account_id fs) (fs_db st) f = Some cf" "\<not> cf_is_directory cf"
    and dl: "fs_on_cache (ensure_downloaded io env cc f) st = (Ok path, st1)"
    and io: "file_open io path (fs_world st1) = Ok (l, FileN b)" "reads_fully io"
    and offset: "0 \<le> offset" "offset < 2 ^ 63"
  shows "\<exists>st2. fs_open io env fs ino st = (Ok (ReplyOpened (fs_next_fh st1) 0), st2) \<and>
    fs_read io fs (fs_next_fh st1) offset sz st2 = (Ok (ReplyData (take (unat sz) (drop (nat offset) b))), st2) \<and>
    (\<forall>h. h \<noteq> fs_next_fh st1 \<longrightarrow> fs_open_files st2 h = fs_open_files st h) \<and>
    fs_read io fs (fs_next_fh st1) offset sz (snd (fs_release (fs_next_fh st1) st2)) =
      (Err EBADF, snd (fs_release (fs_next_fh st1) st2))"
proof -
  have "handle_inv env (fs_account_id fs) (fs_db st)" using inv by (simp add: fs_inv_def)
  from opened_file_reads [OF this cc ino cf dl io offset] show ?thesis by blast
qed

text \<open>The sample filesystem after its file was given the inode 2.\<close>

lemma sample_inode:
  "\<exists>db k. fs_allocate sample_env True (FileId ''f1'') sample_fs_state = (Ok 2, sample_fs_state\<lparr> fs_db := db, fs_next_inode := k \<rparr>) \<and>
    fs_inv sample_env (AccountId ''acc'') (sample_fs_state\<lparr> fs_db := db, fs_next_inode := k \<rparr>) \<and>
    get_file_id sample_env 2 db = (Ok (Some (FileId ''f1'')), db) \<and>
    cached_file sample_env (AccountId ''acc'') db (FileId ''f1'') = Some sample_child"
proof -
  have al: "mgr_alloc True (FileId ''f1'') (fs_mgr sample_env sample_fs_state) = (Ok 2, x) \<Longrightarrow>
      fst (fs_allocate sample_env True (FileId ''f1'') sample_fs_state) = Ok 2" for x
    by (auto simp: mgr_alloc_def fs_allocate_def split: prod.splits)
  have "mgr_num (fs_mgr sample_env sample_fs_state) (FileId ''f1'') = None"
    by (simp add: mgr_num_def inode_of_def sample_tree_def sample_conn_def)
  moreover have "mgr_inv (fs_mgr sample_env sample_fs_state)" using sample_fs_inv by (simp add: fs_inv_def)
  ultimately have two: "fst (fs_allocate sample_env True (FileId ''f1'') sample_fs_state) = Ok 2"
    using mgr_alloc_fresh [of sample_env sample_tree 2 "FileId ''f1''" True] al by fastforce
  obtain n db k where al: "fs_allocate sample_env True (FileId ''f1'') sample_fs_state =
      (Ok n, sample_fs_state\<lparr> fs_db := db, fs_next_inode := k \<rparr>)"
    "fs_inv sample_env (AccountId ''acc'') (sample_fs_state\<lparr> fs_db := db, fs_next_inode := k \<rparr>)"
    "same_files (fs_db sample_fs_state) db" "get_file_id sample_env n db = (Ok (Some (FileId ''f1'')), db)"
    using fs_allocate_law [OF sample_fs_inv, of True "FileId ''f1''"] by auto
  let ?st = "sample_fs_state\<lparr> fs_db := db, fs_next_inode := k \<rparr>"
  have "n = 2" using al(1) two by simp
  then have st: "fs_allocate sample_env True (FileId ''f1'') sample_fs_state = (Ok 2, ?st)"
    "fs_inv sample_env (AccountId ''acc'') ?st" "same_files sample_tree db" "get_file_id sample_env 2 db = (Ok (Some (FileId ''f1'')), db)"
    using al by simp_all
  have h: "handle_inv sample_env (AccountId ''acc'') (fs_db ?st)" using st(2) by (simp add: fs_inv_def)
  have "cached_file sample_env (AccountId ''acc'') db = cached_file sample_env (AccountId ''acc'') sample_tree"
    using cached_file_same [OF sample_handle_inv _ st(3)] h by simp
  moreover have "cached_file sample_env (AccountId ''acc'') sample_tree (FileId ''f1'') = Some sample_child"
    using get_children_result [OF sample_handle_inv, of "''/''"] sample_children by (auto simp: sample_child_def)
  ultimately have cf: "cached_file sample_env (AccountId ''acc'') db (FileId ''f1'') = Some sample_child" by simp
  with st show ?thesis by blast
qed

theorem open_read_release_witness:
  "\<exists>st2. fs_open plain_io sample_env sample_fs 2 (snd (fs_allocate sample_env True (FileId ''f1'') sample_fs_state)) =
      (Ok (ReplyOpened 1 0), st2) \<and> fs_read plain_io sample_fs 1 1 5 st2 = (Ok (ReplyData [2, 3]), st2)"
proof -
  obtain db k where st: "fs_allocate sample_env True (FileId ''f1'') sample_fs_state = (Ok 2, sample_fs_state\<lparr> fs_db := db, fs_next_inode := k \<rparr>)"
    "fs_inv sample_env (AccountId ''acc'') (sample_fs_state\<lparr> fs_db := db, fs_next_inode := k \<rparr>)"
    "get_file_id sample_env 2 db = (Ok (Some (FileId ''f1'')), db)"
    "cached_file sample_env (AccountId ''acc'') db (FileId ''f1'') = Some sample_child"
    using sample_inode by blast
  let ?st = "sample_fs_state\<lparr> fs_db := db, fs_next_inode := k \<rparr>"
  have ens: "fs_on_cache (ensure_downloaded plain_io sample_env (sample_cache (Ok ())) (FileId ''f1'')) ?st = (Ok ''/cache/f1'', ?st)"
    using sample_present by (simp add: fs_on_cache_def ensure_downloaded_def sample_cached_path)
  have at: "file_open plain_io ''/cache/f1'' (fs_world ?st) = Ok ([''cache'', ''f1''], FileN [1, 2, 3])"
    by (simp add: file_open_def node_at_def sample_components sample_cached_def is_dir_at_def plain_io_def)
  have "\<exists>st2. fs_open plain_io sample_env sample_fs 2 ?st = (Ok (ReplyOpened (fs_next_fh ?st) 0), st2) \<and>
      fs_read plain_io sample_fs (fs_next_fh ?st) 1 5 st2 = (Ok (ReplyData (take (unat (5 :: u32)) (drop (nat 1) [1, 2, 3]))), st2)"
    using open_read_release [of sample_env sample_fs ?st "sample_cache (Ok ())" 2 "FileId ''f1''" sample_child plain_io _ ?st, OF _ _ _ _ _ ens at, of 1 5]
      st by (force simp: sample_child_def reads_fully_def plain_io_def)
  then show ?thesis using st(1) by simp
qed

text \<open>
  C36: The attributes of a file: size and kind are the file's, the blocks are the least number
  of 512-byte blocks that hold the size, all four times (access, modification, change and
  creation) are the modification time in whole seconds, and the conversion panics exactly when
  that time is before the Unix epoch.
\<close>

theorem cached_file_attr_bounds:
  assumes "- (2 ^ 63) \<le> timestamp ch (cf_modified_time f)" and "timestamp ch (cf_modified_time f) < 2 ^ 63"
  shows "(cached_file_to_attr ch f ino = Panicked \<longleftrightarrow> timestamp ch (cf_modified_time f) < 0) \<and>
    (\<forall>e. cached_file_to_attr ch f ino \<noteq> Err e) \<and>
    (\<forall>attr. cached_file_to_attr ch f ino = Ok attr \<longrightarrow> fa_ino attr = ino \<and> fa_size attr = cf_size f \<and>
       (fa_kind attr = Directory \<longleftrightarrow> cf_is_directory f) \<and>
       (\<forall>t \<in> {fa_atime attr, fa_mtime attr, fa_ctime attr, fa_crtime attr}. t = timestamp ch (cf_modified_time f) * 1000000000) \<and>
       unat (cf_size f) \<le> 512 * unat (fa_blocks attr) \<and> 512 * unat (fa_blocks attr) < unat (cf_size f) + 512)"
proof -
  let ?t = "timestamp ch (cf_modified_time f)"
  have secs: "int (unat (as_u64 ?t)) = ?t mod 2 ^ 64"
    by (simp add: as_u64_def unat_eq_nat_uint uint_word_of_int take_bit_eq_mod)
  have mod: "?t mod 2 ^ 64 = (if ?t < 0 then ?t + 2 ^ 64 else ?t)"
  proof (cases "?t < 0")
    case True
    have "?t mod 2 ^ 64 = (?t + 2 ^ 64) mod 2 ^ 64" by simp
    also have "\<dots> = ?t + 2 ^ 64" using assms True by (intro mod_pos_pos_trivial) auto
    finally show ?thesis using True by simp
  next
    case False
    then show ?thesis using assms by (simp add: mod_pos_pos_trivial)
  qed
  have "2 ^ 63 \<le> unat (as_u64 ?t) \<longleftrightarrow> (2 :: int) ^ 63 \<le> int (unat (as_u64 ?t))" 
    using of_nat_le_iff [of "2 ^ 63" "unat (as_u64 ?t)", where ?'a = int] by simp
  then have big: "2 ^ 63 \<le> unat (as_u64 ?t) \<longleftrightarrow> ?t < 0"
    unfolding secs mod using assms by auto
  have size: "unat (cf_size f) < 2 ^ 64" by (rule order_less_le_trans [OF unsigned_less]) simp
  then have blocks: "unat (of_nat ((unat (cf_size f) + 511) div 512) :: u64) = (unat (cf_size f) + 511) div 512"
    by (subst unat_of_nat) simp
  show ?thesis
    using secs mod big by (auto simp: cached_file_to_attr_def Let_def blocks simp del: of_nat_unat)
qed

theorem cached_file_attr_bounds_witness:
  "cached_file_to_attr chrono_utc (sample_child\<lparr> cf_modified_time := - 1 \<rparr>) 7 = Panicked \<and>
    (\<exists>attr. cached_file_to_attr chrono_utc (sample_child\<lparr> cf_modified_time := 5700000000 \<rparr>) 7 = Ok attr \<and>
       [fa_atime attr, fa_mtime attr, fa_ctime attr, fa_crtime attr] = replicate 4 5000000000)"
proof -
  let ?f = "sample_child\<lparr> cf_modified_time := 5700000000 \<rparr>"
  have "cached_file_to_attr chrono_utc (sample_child\<lparr> cf_modified_time := - 1 \<rparr>) 7 = Panicked"
    using cached_file_attr_bounds [of chrono_utc "sample_child\<lparr> cf_modified_time := - 1 \<rparr>" 7] by (simp add: chrono_utc_def)
  moreover have "timestamp chrono_utc (cf_modified_time ?f) = 5" by (simp add: chrono_utc_def)
  ultimately show ?thesis
    using cached_file_attr_bounds [of chrono_utc ?f 7]
    by (cases "cached_file_to_attr chrono_utc ?f 7") (auto simp: numeral_eq_Suc)
qed

end
