(* ===== verification/Ipc.thy ===== *)
theory Ipc
  imports Core_Types Rust_Path
begin

text \<open>
  The crate \<open>cloudsync-ipc\<close>: the translation between local and cloud paths
  (\<open>path_resolver.rs\<close>), the messages and their framing (\<open>messages.rs\<close>, \<open>transport.rs\<close>), the
  server's connection loop and socket (\<open>server.rs\<close>) and the client (\<open>client.rs\<close>). The text
  \<open>serde_json\<close> makes of a message is a parameter.
\<close>

section \<open>Local and cloud paths\<close>

record ResolvedPath =
  rp_provider_slug :: string
  rp_cloud_path :: CloudPath

text \<open>A path is UTF-8 text in the model, so \<open>to_str\<close> always succeeds. A resolver is its sync root.\<close>

definition resolve_local :: "PathBuf \<Rightarrow> PathBuf \<Rightarrow> ResolvedPath option" where
  "resolve_local sync_root local_path =
     (case path_strip_prefix local_path sync_root of
        None \<Rightarrow> None
      | Some [] \<Rightarrow> None
      | Some (c # components) \<Rightarrow>
          (let remainder = path_collect components;
               cloud_path = (if remainder = [] then cloud_path_root else cloud_path_new (''/'' @ remainder))
           in Some \<lparr> rp_provider_slug = component_str c, rp_cloud_path = cloud_path \<rparr>))"

definition to_local :: "PathBuf \<Rightarrow> string \<Rightarrow> CloudPath \<Rightarrow> PathBuf" where
  "to_local sync_root provider_slug cloud_path =
     (let path = path_join sync_root provider_slug;
          cloud_str = trim_start_matches slash (cloud_path_as_str cloud_path)
      in if cloud_str \<noteq> [] then path_join path cloud_str else path)"

section \<open>Messages\<close>

datatype Request =
    GetStatus string
  | GetStatusBatch "string list"
  | SetPinned string bool
  | SetCloudOnly string
  | ForceSync string
  | PauseSync "string option"
  | ResumeSync "string option"

record FileStatus =
  fst_path :: string
  fst_state :: FileState
  fst_provider :: "string option"

datatype Response =
    RespStatus string FileState "string option" "string option"
  | RespStatusBatch "FileStatus list"
  | RespOk
  | RespError string

section \<open>Errors\<close>

text \<open>The kinds of \<open>std::io::Error\<close> the code looks at.\<close>

datatype ErrorKind = KNotFound | KConnectionRefused | KConnectionReset | KAddrNotAvailable | KInvalidInput
  | KBrokenPipe | KNotConnected | KAddrInUse | KInvalidData | KOther

datatype IpcErr =
    IpcIo ErrorKind string
  | IpcJson string
  | ConnectionClosed
  | MessageTooLarge nat nat
  | HandlerError string

fun ipc_err_str :: "IpcErr \<Rightarrow> string" where
  "ipc_err_str (IpcIo k e) = ''IO error: '' @ e"
| "ipc_err_str (IpcJson e) = ''JSON error: '' @ e"
| "ipc_err_str ConnectionClosed = ''Connection closed''"
| "ipc_err_str (MessageTooLarge n limit) =
     ''Message too large: '' @ show_nat n @ '' bytes exceeds '' @ show_nat limit @ '' byte limit''"
| "ipc_err_str (HandlerError m) = ''Handler error: '' @ m"

section \<open>Framing\<close>

definition MAX_MESSAGE_SIZE :: nat where
  "MAX_MESSAGE_SIZE = 1048576"

abbreviation newline :: char where "newline \<equiv> CHR 0x0A"

text \<open>\<open>serde_json::to_string\<close> and \<open>from_str\<close> for a type of messages.\<close>

record 'm codec =
  to_json :: "'m \<Rightarrow> (string, string) outcome"
  from_json :: "string \<Rightarrow> ('m, string) outcome"

text \<open>
  What still comes in on a stream, and the error it ends with if it does not end cleanly; what
  was sent on a stream, and which write fails after how many bytes.
\<close>

record reader =
  rd_bytes :: string
  rd_error :: "(ErrorKind \<times> string) option"

record writer =
  wr_sent :: string
  wr_fault :: "string \<Rightarrow> string \<Rightarrow> (nat \<times> ErrorKind \<times> string) option"

definition read_line :: "(reader, string, IpcErr) st" where
  "read_line rd =
     (let line = takeWhile (\<lambda>c. c \<noteq> newline) (rd_bytes rd);
          check = (\<lambda>l. if utf8_ok (map of_char l) then Ok l
                       else Err (IpcIo KInvalidData ''stream did not contain valid UTF-8''))
      in case drop (length line) (rd_bytes rd) of
           [] \<Rightarrow> (case rd_error rd of Some (k, e) \<Rightarrow> Err (IpcIo k e) | None \<Rightarrow> check line, rd\<lparr> rd_bytes := [] \<rparr>)
         | _ # rest \<Rightarrow> (check (line @ [newline]), rd\<lparr> rd_bytes := rest \<rparr>))"

text \<open>
  A read that is dropped before its line is complete: what it took of the line, \<open>n\<close> bytes, is
  dropped with it.
\<close>

definition read_dropped :: "nat \<Rightarrow> reader \<Rightarrow> reader" where
  "read_dropped n rd =
     (let line = takeWhile (\<lambda>c. c \<noteq> newline) (rd_bytes rd)
      in rd\<lparr> rd_bytes := drop (min n (length line)) (rd_bytes rd) \<rparr>)"

definition read_message :: "'m codec \<Rightarrow> (reader, 'm option, IpcErr) st" where
  "read_message codec =
     bindS read_line (\<lambda>line.
     if length line = 0 then returnS None
     else if MAX_MESSAGE_SIZE < length line then failS (MessageTooLarge (length line) MAX_MESSAGE_SIZE)
     else bindS (liftS (map_err IpcJson (from_json codec (trim_end line)))) (\<lambda>message.
     returnS (Some message)))"

definition write_all :: "string \<Rightarrow> (writer, unit, IpcErr) st" where
  "write_all s wr = (case wr_fault wr (wr_sent wr) s of
     None \<Rightarrow> (Ok (), wr\<lparr> wr_sent := wr_sent wr @ s \<rparr>)
   | Some (n, k, e) \<Rightarrow> (Err (IpcIo k e), wr\<lparr> wr_sent := wr_sent wr @ take n s \<rparr>))"

definition write_message :: "'m codec \<Rightarrow> 'm \<Rightarrow> (writer, unit, IpcErr) st" where
  "write_message codec message =
     bindS (liftS (map_err IpcJson (to_json codec message))) (\<lambda>json. write_all (json @ [newline]))"

section \<open>The server\<close>

text \<open>
  A connection's task: which branch of \<open>select!\<close> completes next is an event; when the events
  run out the task is still waiting, which is \<open>None\<close>. When the shutdown branch completes, with
  the flag it sees, the read of the other branch is dropped with the bytes it has taken.
\<close>

datatype conn_event = MessageRead | ShutdownChanged nat bool

record 'h conn_state =
  cs_reader :: reader
  cs_writer :: writer
  cs_handler :: 'h

definition cs_read :: "'m codec \<Rightarrow> ('h conn_state, 'm option, IpcErr) st" where
  "cs_read codec s = (case read_message codec (cs_reader s) of (r, rd) \<Rightarrow> (r, s\<lparr> cs_reader := rd \<rparr>))"

definition cs_write :: "'m codec \<Rightarrow> 'm \<Rightarrow> ('h conn_state, unit, IpcErr) st" where
  "cs_write codec m s = (case write_message codec m (cs_writer s) of (r, wr) \<Rightarrow> (r, s\<lparr> cs_writer := wr \<rparr>))"

definition cs_handle :: "(Request \<Rightarrow> ('h, Response, IpcErr) st) \<Rightarrow> Request \<Rightarrow> ('h conn_state, Response, IpcErr) st" where
  "cs_handle handler request s = (case handler request (cs_handler s) of
     (Ok resp, h) \<Rightarrow> (Ok resp, s\<lparr> cs_handler := h \<rparr>)
   | (Err e, h) \<Rightarrow> (Ok (RespError (''internal error: '' @ ipc_err_str e)), s\<lparr> cs_handler := h \<rparr>)
   | (Panicked, h) \<Rightarrow> (Panicked, s\<lparr> cs_handler := h \<rparr>))"

text \<open>One message: \<open>True\<close> when the loop goes on, \<open>False\<close> at the end of the stream.\<close>

definition serve_message ::
  "Request codec \<Rightarrow> Response codec \<Rightarrow> (Request \<Rightarrow> ('h, Response, IpcErr) st) \<Rightarrow> ('h conn_state, bool, IpcErr) st" where
  "serve_message rq rs handler s = (case cs_read rq s of
     (Err (IpcJson e), s') \<Rightarrow>
       bindS (cs_write rs (RespError (''malformed JSON: '' @ e))) (\<lambda>_. returnS True) s'
   | (Err e, s') \<Rightarrow> (Err e, s')
   | (Panicked, s') \<Rightarrow> (Panicked, s')
   | (Ok None, s') \<Rightarrow> (Ok False, s')
   | (Ok (Some request), s') \<Rightarrow>
       bindS (cs_handle handler request) (\<lambda>response.
       bindS (cs_write rs response) (\<lambda>_. returnS True)) s')"

fun handle_connection ::
  "Request codec \<Rightarrow> Response codec \<Rightarrow> (Request \<Rightarrow> ('h, Response, IpcErr) st) \<Rightarrow> conn_event list \<Rightarrow> 'h conn_state \<Rightarrow>
   (unit, IpcErr) outcome option \<times> 'h conn_state" where
  "handle_connection rq rs handler [] s = (None, s)"
| "handle_connection rq rs handler (ShutdownChanged n stop # events) s =
     (let s' = s\<lparr> cs_reader := read_dropped n (cs_reader s) \<rparr>
      in if stop then (Some (Ok ()), s') else handle_connection rq rs handler events s')"
| "handle_connection rq rs handler (MessageRead # events) s =
     (case serve_message rq rs handler s of
        (Ok True, s') \<Rightarrow> handle_connection rq rs handler events s'
      | (Ok False, s') \<Rightarrow> (Some (Ok ()), s')
      | (Err e, s') \<Rightarrow> (Some (Err e), s')
      | (Panicked, s') \<Rightarrow> (Some Panicked, s'))"

text \<open>The socket: connecting, binding and setting permissions are calls of the system.\<close>

record 'w sock_api =
  sk_listening :: "PathBuf \<Rightarrow> 'w world \<Rightarrow> bool"
  sk_bind :: "PathBuf \<Rightarrow> ('w world, unit, IpcErr) st"
  sk_set_owner_only :: "PathBuf \<Rightarrow> ('w world, unit, IpcErr) st"

record IpcServer =
  is_socket_path :: PathBuf
  is_shutdown :: bool

definition server_bind :: "'w io \<Rightarrow> 'w sock_api \<Rightarrow> PathBuf \<Rightarrow> ('w world, IpcServer, IpcErr) st" where
  "server_bind io api socket_path =
     bindS (\<lambda>w. if path_exists io socket_path w then
         (if sk_listening api socket_path w then
            (Err (IpcIo KAddrInUse (''another server is already listening on '' @ socket_path)), w)
          else map_errS (IpcIo KOther) (remove_file io socket_path) w)
       else (Ok (), w)) (\<lambda>_.
     bindS (sk_bind api socket_path) (\<lambda>_.
     bindS (sk_set_owner_only api socket_path) (\<lambda>_.
     returnS \<lparr> is_socket_path = socket_path, is_shutdown = False \<rparr>)))"

text \<open>The accept loop: the accepted streams get a task each; a failing \<open>accept\<close> ends it.\<close>

datatype 'c server_event = Accepted 'c | AcceptFailed ErrorKind string | ShutdownSeen bool

fun server_run :: "'c server_event list \<Rightarrow> 'c list \<Rightarrow> (unit, IpcErr) outcome option \<times> 'c list" where
  "server_run [] spawned = (None, spawned)"
| "server_run (Accepted stream # events) spawned = server_run events (spawned @ [stream])"
| "server_run (AcceptFailed k e # events) spawned = (Some (Err (IpcIo k e)), spawned)"
| "server_run (ShutdownSeen stop # events) spawned =
     (if stop then (Some (Ok ()), spawned) else server_run events spawned)"

definition server_shutdown :: "IpcServer \<Rightarrow> IpcServer" where
  "server_shutdown s = s\<lparr> is_shutdown := True \<rparr>"

definition server_drop :: "'w io \<Rightarrow> IpcServer \<Rightarrow> 'w world \<Rightarrow> 'w world" where
  "server_drop io s w =
     (if path_exists io (is_socket_path s) w then snd (remove_file io (is_socket_path s) w) else w)"

section \<open>The client\<close>

datatype IpcError = DaemonNotRunning | DaemonUnresponsive | Protocol string | ClientIo ErrorKind string

record IpcClient =
  cl_reader :: reader
  cl_writer :: writer

definition map_connect_error :: "ErrorKind \<times> string \<Rightarrow> IpcError" where
  "map_connect_error = (\<lambda>(kind, e).
     if kind \<in> {KNotFound, KConnectionRefused, KConnectionReset, KAddrNotAvailable, KInvalidInput}
     then DaemonNotRunning else ClientIo kind e)"

fun map_transport_error :: "IpcErr \<Rightarrow> IpcError" where
  "map_transport_error (IpcIo kind e) =
     (if kind \<in> {KBrokenPipe, KConnectionReset, KNotConnected} then DaemonUnresponsive else ClientIo kind e)"
| "map_transport_error (IpcJson e) = Protocol e"
| "map_transport_error ConnectionClosed = DaemonUnresponsive"
| "map_transport_error (MessageTooLarge n limit) =
     Protocol (''message too large: '' @ show_nat n @ '' exceeds '' @ show_nat limit)"
| "map_transport_error (HandlerError m) = Protocol m"

text \<open>\<open>None\<close> is a timeout that elapsed.\<close>

definition client_connect_to ::
  "(IpcClient, ErrorKind \<times> string) outcome option \<Rightarrow> (IpcClient, IpcError) outcome" where
  "client_connect_to connect_result = (case connect_result of
     Some r \<Rightarrow> map_err map_connect_error r
   | None \<Rightarrow> Err DaemonUnresponsive)"

text \<open>
  \<open>late\<close> is \<open>None\<close> when the response is read before \<open>RESPONSE_TIMEOUT\<close>; otherwise the timeout
  drops the read with the bytes it has taken.
\<close>

definition client_send :: "Request codec \<Rightarrow> Request \<Rightarrow> (IpcClient, unit, IpcError) st" where
  "client_send rq req c = (case write_message rq req (cl_writer c) of
     (r, wr) \<Rightarrow> (map_err map_transport_error r, c\<lparr> cl_writer := wr \<rparr>))"

definition client_receive :: "Response codec \<Rightarrow> nat option \<Rightarrow> (IpcClient, Response, IpcError) st" where
  "client_receive rs late c =
     (case late of Some n \<Rightarrow> (Err DaemonUnresponsive, c\<lparr> cl_reader := read_dropped n (cl_reader c) \<rparr>)
      | None \<Rightarrow> case read_message rs (cl_reader c) of
        (Ok (Some response), rd) \<Rightarrow> (Ok response, c\<lparr> cl_reader := rd \<rparr>)
      | (Ok None, rd) \<Rightarrow> (Err DaemonUnresponsive, c\<lparr> cl_reader := rd \<rparr>)
      | (Err e, rd) \<Rightarrow> (Err (map_transport_error e), c\<lparr> cl_reader := rd \<rparr>)
      | (Panicked, rd) \<Rightarrow> (Panicked, c\<lparr> cl_reader := rd \<rparr>))"

text \<open>\<open>env\<close> is what happens on the other side between the request and the response.\<close>

definition client_request ::
  "Request codec \<Rightarrow> Response codec \<Rightarrow> (IpcClient \<times> 'e \<Rightarrow> IpcClient \<times> 'e) \<Rightarrow> nat option \<Rightarrow> Request \<Rightarrow>
   (IpcClient \<times> 'e, Response, IpcError) st" where
  "client_request rq rs env late req = (\<lambda>(c, e).
     case client_send rq req c of
       (Ok _, c1) \<Rightarrow> (case env (c1, e) of (c2, e2) \<Rightarrow> case client_receive rs late c2 of (r, c3) \<Rightarrow> (r, (c3, e2)))
     | (Err x, c1) \<Rightarrow> (Err x, (c1, e))
     | (Panicked, c1) \<Rightarrow> (Panicked, (c1, e)))"

definition client_get_status where
  "client_get_status rq rs env late path = client_request rq rs env late (GetStatus path)"

definition client_ping ::
  "Request codec \<Rightarrow> Response codec \<Rightarrow> (IpcClient \<times> 'e \<Rightarrow> IpcClient \<times> 'e) \<Rightarrow> nat option \<Rightarrow> (IpcClient \<times> 'e, bool, IpcError) st" where
  "client_ping rq rs env late =
     bindS (client_request rq rs env late (GetStatusBatch [])) (\<lambda>response.
     returnS (case response of RespError _ \<Rightarrow> False | _ \<Rightarrow> True))"

section \<open>Resolving and rebuilding paths\<close>

text \<open>Names a relative path's components can have, \<open>..\<close> included.\<close>

definition piece_name :: "string \<Rightarrow> bool" where
  "piece_name n \<longleftrightarrow> n \<noteq> [] \<and> n \<noteq> ''.'' \<and> slash \<notin> set n"

definition piece_comp :: "string \<Rightarrow> PathComponent" where
  "piece_comp n = (if n = ''..'' then ParentDir else NormalC n)"

lemma component_str_piece [simp]: "component_str (piece_comp n) = n"
  by (simp add: piece_comp_def)

lemma piece_components_names: "\<forall>n \<in> set ns. piece_name n \<Longrightarrow> piece_components ns = map piece_comp ns"
  by (induction ns) (auto simp: piece_components_def piece_name_def piece_comp_def)

lemma piece_components_exhaust: "\<exists>ns. piece_components (split_char slash s) = map piece_comp ns \<and>
    (\<forall>n \<in> set ns. piece_name n \<and> set n \<subseteq> set s)"
  using split_char_piece [of _ slash s]
  by (intro exI [of _ "filter (\<lambda>p. p \<noteq> [] \<and> p \<noteq> ''.'') (split_char slash s)"])
    (auto simp: piece_components_def piece_name_def piece_comp_def)

lemma piece_name_relative: "piece_name n \<Longrightarrow> \<not> path_is_absolute n"
  by (cases n) (auto simp: piece_name_def path_is_absolute_iff)

lemma path_collect_pieces:
  "\<forall>n \<in> set ns. piece_name n \<Longrightarrow> path_collect (map piece_comp ns) = intercalate slash ns"
proof (induction ns rule: rev_induct)
  case Nil
  then show ?case by (simp add: path_collect_def)
next
  case (snoc n ns)
  then have ih: "path_collect (map piece_comp ns) = intercalate slash ns" by simp
  have n: "\<not> path_is_absolute n" using snoc.prems piece_name_relative by simp
  show ?case
  proof (cases "ns = []")
    case True
    then show ?thesis using n by (simp add: path_collect_def path_join_def)
  next
    case False
    have ne: "\<forall>m \<in> set ns. m \<noteq> []" using snoc.prems by (auto simp: piece_name_def)
    have "last ns \<in> set ns" using False by simp
    then have "slash \<notin> set (last ns)" "last ns \<noteq> []" using snoc.prems by (auto simp: piece_name_def)
    then have "last (intercalate slash ns) \<noteq> slash"
      using last_intercalate [OF False ne, of slash] by (metis last_in_set)
    moreover have "intercalate slash ns \<noteq> []" using intercalate_eq_Nil [OF ne] False by simp
    ultimately show ?thesis
      using ih n by (simp add: path_collect_def path_join_def intercalate_snoc [OF False])
  qed
qed

lemma intercalate_pieces:
  assumes "\<forall>n \<in> set ns. piece_name n" and "ns \<noteq> []"
  shows "piece_components (split_char slash (intercalate slash ns)) = map piece_comp ns"
    and "\<not> path_is_absolute (intercalate slash ns)" and "intercalate slash ns \<noteq> []"
    and "trim_start_matches slash (intercalate slash ns) = intercalate slash ns"
proof -
  have "split_char slash (intercalate slash ns) = ns"
    using assms by (intro split_char_intercalate) (auto simp: piece_name_def)
  then show "piece_components (split_char slash (intercalate slash ns)) = map piece_comp ns"
    using assms by (simp add: piece_components_names)
  obtain n rest where ns: "ns = n # rest" using assms(2) by (cases ns) auto
  then obtain c m where n: "n = c # m" "c \<noteq> slash" using assms(1) by (cases n) (auto simp: piece_name_def)
  have "\<exists>t. intercalate slash ns = c # t" by (cases rest) (simp_all add: ns n)
  then show "\<not> path_is_absolute (intercalate slash ns)" "intercalate slash ns \<noteq> []"
    "trim_start_matches slash (intercalate slash ns) = intercalate slash ns"
    using n(2) by (auto simp: path_is_absolute_iff trim_start_matches_def)
qed

lemma set_intercalate: "set (intercalate c ns) \<subseteq> insert c (\<Union> (set ` set ns))"
  by (induction c ns rule: intercalate.induct) auto

text \<open>The cloud path with the given names.\<close>

definition cloud_of :: "string list \<Rightarrow> CloudPath" where
  "cloud_of ns = CloudPath (''/'' @ intercalate slash ns)"

lemma to_local_components:
  assumes "sync_root \<noteq> []" "piece_name slug" "\<forall>n \<in> set ns. piece_name n"
  shows "path_components (to_local sync_root slug (cloud_of ns)) = path_components sync_root @ map piece_comp (slug # ns)"
proof -
  have s: "piece_components (split_char slash slug) = [piece_comp slug]"
    using assms(2) piece_components_names [of "[slug]"] by (simp add: piece_name_def split_char_single)
  have p: "path_components (path_join sync_root slug) = path_components sync_root @ [piece_comp slug]"
    using path_components_join [OF piece_name_relative [OF assms(2)] assms(1)] s by simp
  show ?thesis
  proof (cases "ns = []")
    case True
    then show ?thesis using p by (simp add: to_local_def cloud_of_def trim_start_matches_def Let_def)
  next
    case False
    note i = intercalate_pieces [OF assms(3) False]
    have t: "trim_start_matches slash (slash # intercalate slash ns) = intercalate slash ns"
      using i(4) by (simp add: trim_start_matches_def)
    show ?thesis
      using p i t path_components_join [OF i(2) path_join_nonempty [OF assms(1)]]
      by (simp add: to_local_def cloud_of_def Let_def)
  qed
qed

lemma resolve_local_components:
  assumes "path_components p = path_components sync_root @ map piece_comp (slug # ns)"
    and "\<forall>n \<in> set ns. piece_name n \<and> backslash \<notin> set n"
  shows "resolve_local sync_root p = Some \<lparr> rp_provider_slug = slug, rp_cloud_path = cloud_of ns \<rparr>"
proof -
  have pc: "path_collect (map piece_comp ns) = intercalate slash ns" using assms(2) by (intro path_collect_pieces) auto
  have "cloud_path_new (''/'' @ intercalate slash ns) = cloud_of ns"
  proof -
    have "backslash \<notin> set (intercalate slash ns)" using set_intercalate [of slash ns] assms(2) by auto
    then show ?thesis
      by (auto simp: cloud_path_new_def starts_with_def replace_char_def cloud_of_def Let_def intro!: map_idI)
  qed
  moreover have "intercalate slash ns = [] \<longleftrightarrow> ns = []"
    using assms(2) by (intro intercalate_eq_Nil) (auto simp: piece_name_def)
  ultimately show ?thesis
    using assms(1) pc
    by (auto simp: resolve_local_def path_strip_prefix_def Let_def cloud_of_def cloud_path_root_def)
qed

lemma path_components_nonempty: "p \<noteq> [] \<Longrightarrow> path_components p \<noteq> []"
proof
  assume p: "p \<noteq> []" and e: "path_components p = []"
  then have rel: "\<not> path_is_absolute p" and hd: "hd (split_char slash p) \<noteq> ''.''"
    and none: "piece_components (split_char slash p) = []"
    by (auto simp: path_components_def split: if_splits)
  obtain c s where cs: "p = c # s" "c \<noteq> slash" using p rel by (cases p) (auto simp: path_is_absolute_iff)
  then obtain x xs where x: "split_char slash p = x # xs" "x \<noteq> []" by (cases "split_char slash s") auto
  then show False using none hd by (auto simp: piece_components_def split: if_splits)
qed

lemma resolve_local_parts:
  assumes "sync_root \<noteq> []" and "resolve_local sync_root p = Some r" and "backslash \<notin> set p"
  obtains ns where "path_components p = path_components sync_root @ map piece_comp (rp_provider_slug r # ns)"
    and "piece_name (rp_provider_slug r)" and "\<forall>n \<in> set ns. piece_name n \<and> backslash \<notin> set n"
    and "rp_cloud_path r = cloud_of ns"
proof -
  obtain c comps where c: "path_strip_prefix p sync_root = Some (c # comps)" "rp_provider_slug r = component_str c"
    using assms(2) by (auto simp: resolve_local_def Let_def split: option.splits list.splits)
  then have pc: "path_components p = path_components sync_root @ c # comps"
    by (auto simp: path_strip_prefix_def Let_def split: if_splits) (metis append_take_drop_id)
  obtain b bs where b: "path_components sync_root = b # bs" using path_components_nonempty [OF assms(1)] by (cases "path_components sync_root") auto
  obtain ns where ns: "piece_components (split_char slash p) = map piece_comp ns" "\<forall>n \<in> set ns. piece_name n \<and> set n \<subseteq> set p"
    using piece_components_exhaust by blast
  have tails: "path_components p = map piece_comp ns \<or> (\<exists>x. path_components p = x # map piece_comp ns)"
    using ns(1) by (auto simp: path_components_def)
  have "\<exists>ms. c # comps = map piece_comp ms \<and> set ms \<subseteq> set ns"
  proof -
    obtain k where "c # comps = drop k (map piece_comp ns)"
    proof -
      from tails show thesis
      proof
        assume "path_components p = map piece_comp ns"
        then have "map piece_comp ns = path_components sync_root @ c # comps" using pc by simp
        then have "c # comps = drop (length (path_components sync_root)) (map piece_comp ns)" by simp
        then show thesis by (rule that)
      next
        assume "\<exists>x. path_components p = x # map piece_comp ns"
        then have "map piece_comp ns = bs @ c # comps" using pc b by auto
        then have "c # comps = drop (length bs) (map piece_comp ns)" by simp
        then show thesis by (rule that)
      qed
    qed
    then show ?thesis by (intro exI [of _ "drop k ns"]) (auto simp: drop_map dest: in_set_dropD)
  qed
  then obtain m ms where m: "c = piece_comp m" "comps = map piece_comp ms" "m \<in> set ns" "set ms \<subseteq> set ns" by (auto simp: Cons_eq_map_conv)
  have good: "\<forall>n \<in> set ms. piece_name n \<and> backslash \<notin> set n" "piece_name m" using m ns(2) assms(3) by auto
  have comps: "path_components p = path_components sync_root @ map piece_comp (m # ms)" using pc m by simp
  from resolve_local_components [OF this good(1)] assms(2)
  have "r = \<lparr> rp_provider_slug = m, rp_cloud_path = cloud_of ms \<rparr>" by simp
  then show thesis using comps good by (intro that [of ms]) simp_all
qed

section \<open>Properties of the paths\<close>

text \<open>
  C37: Translating a local path to a provider and a cloud path and back names the same file: the
  rebuilt path has the same components, for every path that resolves and has no backslash.
\<close>

theorem local_path_round_trip:
  assumes "sync_root \<noteq> []" and "resolve_local sync_root p = Some r" and "backslash \<notin> set p"
  shows "path_components (to_local sync_root (rp_provider_slug r) (rp_cloud_path r)) = path_components p"
proof -
  obtain ns where ns: "path_components p = path_components sync_root @ map piece_comp (rp_provider_slug r # ns)"
    "piece_name (rp_provider_slug r)" "\<forall>n \<in> set ns. piece_name n \<and> backslash \<notin> set n"
    "rp_cloud_path r = cloud_of ns"
    using resolve_local_parts [OF assms] by blast
  then show ?thesis using to_local_components [OF assms(1) ns(2), of ns] by simp
qed

theorem local_path_round_trip_witness:
  "path_components (to_local ''/u'' ''gdrive'' (CloudPath ''/d/f'')) = path_components ''/u//gdrive/./d/f/''"
proof -
  have r: "resolve_local ''/u'' ''/u//gdrive/./d/f/'' = Some \<lparr> rp_provider_slug = ''gdrive'', rp_cloud_path = CloudPath ''/d/f'' \<rparr>"
    by (simp add: resolve_local_def path_strip_prefix_def path_components_def path_is_absolute_def starts_with_def
        piece_components_def path_collect_def path_join_def cloud_path_new_def replace_char_def)
  from local_path_round_trip [OF _ r] show ?thesis by simp
qed

text \<open>
  The other way round: for a provider slug and a cloud path made of plain names, resolving
  the local path gives back exactly that slug and that cloud path, the root included.
\<close>

lemma cloud_path_round_trip:
  assumes "sync_root \<noteq> []" and "piece_name slug" and "\<forall>n \<in> set ns. piece_name n \<and> backslash \<notin> set n"
  shows "resolve_local sync_root (to_local sync_root slug (cloud_of ns)) =
    Some \<lparr> rp_provider_slug = slug, rp_cloud_path = cloud_of ns \<rparr>"
  using resolve_local_components [OF to_local_components [OF assms(1,2)]] assms(3) by simp

section \<open>A message that is written can be read\<close>

text \<open>
  What the framing needs of \<open>serde_json\<close> for a message: its text is one line of UTF-8 that
  ends with the brace of an object, fits the limit, and is parsed back to the message.
\<close>

definition codec_ok :: "'m codec \<Rightarrow> 'm \<Rightarrow> bool" where
  "codec_ok codec m \<longleftrightarrow> (\<exists>t. to_json codec m = Ok (t @ ''}'') \<and> newline \<notin> set t \<and> utf8_ok (map of_char (t @ ''}'')) \<and>
     length t + 2 \<le> MAX_MESSAGE_SIZE \<and> from_json codec (t @ ''}'') = Ok m)"

definition frame :: "'m codec \<Rightarrow> 'm \<Rightarrow> string" where
  "frame codec m = (case to_json codec m of Ok json \<Rightarrow> json @ [newline] | _ \<Rightarrow> [])"

lemma utf8_ok_append: "utf8_ok a \<Longrightarrow> utf8_ok b \<Longrightarrow> utf8_ok (a @ b)"
  by (induction a rule: utf8_ok.induct) (auto split: if_splits list.splits)

lemma white_suffix_brace: "white_suffix (t @ ''}'') = None"
proof -
  have "w \<noteq> [] \<longrightarrow> map of_char (drop (length (t @ ''}'') - length w) (t @ ''}'')) \<noteq> w"
    if w: "w \<in> set white_space" for w :: "nat list"
  proof
    assume "w \<noteq> []"
    have "last w \<noteq> 125" using w by (auto simp: white_space_def)
    moreover have "last (map of_char (drop (length (t @ ''}'') - length w) (t @ ''}''))) = (125 :: nat)"
      using \<open>w \<noteq> []\<close> by (cases w) simp_all
    ultimately show "map of_char (drop (length (t @ ''}'') - length w) (t @ ''}'')) \<noteq> w" by metis
  qed
  then show ?thesis by (simp only: white_suffix_def) (auto simp: find_None_iff)
qed

lemma read_braced_line:
  assumes "rd_bytes rd = (t @ ''}'') @ newline # tail" and "newline \<notin> set t" "utf8_ok (map of_char (t @ ''}''))"
    and "length t + 2 \<le> MAX_MESSAGE_SIZE"
  shows "read_message codec rd = (map_ok Some (map_err IpcJson (from_json codec (t @ ''}''))), rd\<lparr> rd_bytes := tail \<rparr>)"
proof -
  have line: "takeWhile (\<lambda>c. c \<noteq> newline) (rd_bytes rd) = t @ ''}''"
    unfolding assms(1) using assms(2) by (subst takeWhile_append) auto
  have "utf8_ok (map of_char ((t @ ''}'') @ [newline]))"
    using utf8_ok_append [OF assms(3), of "[10]"] by simp
  then have "read_line rd = (Ok ((t @ ''}'') @ [newline]), rd\<lparr> rd_bytes := tail \<rparr>)"
    unfolding read_line_def Let_def line by (simp add: assms(1))
  moreover have "trim_end ((t @ ''}'') @ [newline]) = t @ ''}''"
    unfolding trim_end_newline by (rule trim_end_none [OF white_suffix_brace])
  ultimately show ?thesis
    using assms(4) by (cases "from_json codec (t @ ''}'')") (simp_all add: read_message_def)
qed

lemma read_frame:
  assumes "codec_ok codec m" and "rd_bytes rd = frame codec m @ tail"
  shows "read_message codec rd = (Ok (Some m), rd\<lparr> rd_bytes := tail \<rparr>)"
proof -
  obtain t where t: "to_json codec m = Ok (t @ ''}'')" "newline \<notin> set t" "utf8_ok (map of_char (t @ ''}''))"
    "length t + 2 \<le> MAX_MESSAGE_SIZE" "from_json codec (t @ ''}'') = Ok m"
    using assms(1) by (auto simp: codec_ok_def)
  have "rd_bytes rd = (t @ ''}'') @ newline # tail" using assms(2) t(1) by (simp add: frame_def)
  from read_braced_line [OF this t(2-4), of codec] t(5) show ?thesis by simp
qed

text \<open>
  After a read that was dropped within a message, the next read takes the rest of it for a
  message of its own.
\<close>

lemma read_rest_of_frame:
  assumes "codec_ok codec m" and "to_json codec m = Ok json" and "rd_bytes rd = frame codec m @ tail"
    and "n < length json" and "utf8_ok (map of_char (drop n json))"
  shows "read_message codec (read_dropped n rd) =
    (map_ok Some (map_err IpcJson (from_json codec (drop n json))), rd\<lparr> rd_bytes := tail \<rparr>)"
proof -
  obtain t where t: "json = t @ ''}''" "newline \<notin> set t" "length t + 2 \<le> MAX_MESSAGE_SIZE"
    using assms(1,2) by (auto simp: codec_ok_def)
  have bytes: "rd_bytes rd = (t @ ''}'') @ newline # tail" using assms(2,3) t(1) by (simp add: frame_def)
  have line: "takeWhile (\<lambda>c. c \<noteq> newline) (rd_bytes rd) = t @ ''}''"
    unfolding bytes using t(2) by (subst takeWhile_append) auto
  have n: "n \<le> length t" using assms(4) t(1) by simp
  then have dropped: "read_dropped n rd = rd\<lparr> rd_bytes := (drop n t @ ''}'') @ newline # tail \<rparr>"
    unfolding read_dropped_def line by (simp add: bytes)
  have "newline \<notin> set (drop n t)" using t(2) in_set_dropD by metis
  from read_braced_line [of "read_dropped n rd" "drop n t" tail codec] this n t(1,3) assms(5)
  show ?thesis by (simp add: dropped)
qed

lemma read_dropped_append:
  assumes "newline \<in> set b"
  shows "(read_dropped n (rd\<lparr> rd_bytes := b \<rparr>))\<lparr> rd_bytes := rd_bytes (read_dropped n (rd\<lparr> rd_bytes := b \<rparr>)) @ tail \<rparr> =
    read_dropped n (rd\<lparr> rd_bytes := b @ tail \<rparr>)"
proof -
  have "takeWhile (\<lambda>c. c \<noteq> newline) (b @ tail) = takeWhile (\<lambda>c. c \<noteq> newline) b"
    using takeWhile_append1 [OF assms, of "\<lambda>c. c \<noteq> newline"] by simp
  moreover have "length (takeWhile (\<lambda>c. c \<noteq> newline) b) \<le> length b" by (rule length_takeWhile_le)
  ultimately show ?thesis by (simp add: read_dropped_def Let_def)
qed

lemma newline_in_frame: "codec_ok codec m \<Longrightarrow> newline \<in> set (frame codec m)"
  by (auto simp: codec_ok_def frame_def)

definition writes_ok :: "writer \<Rightarrow> bool" where
  "writes_ok wr \<longleftrightarrow> (\<forall>s d. wr_fault wr s d = None)"

lemma write_frame:
  assumes "codec_ok codec m" and "writes_ok wr"
  shows "write_message codec m wr = (Ok (), wr\<lparr> wr_sent := wr_sent wr @ frame codec m \<rparr>)"
  using assms by (auto simp: codec_ok_def write_message_def write_all_def writes_ok_def frame_def)

section \<open>Calls over a connection\<close>

definition answer :: "(Response, IpcErr) outcome \<Rightarrow> Response" where
  "answer r = (case r of Ok resp \<Rightarrow> resp | Err e \<Rightarrow> RespError (''internal error: '' @ ipc_err_str e) | Panicked \<Rightarrow> RespOk)"

lemma serve_one:
  assumes "codec_ok rq req" and "rd_bytes (cs_reader s) = frame rq req @ tail" and "writes_ok (cs_writer s)"
    and "handler req (cs_handler s) = (r, h)" and "r \<noteq> Panicked" and "codec_ok rs (answer r)"
  shows "serve_message rq rs handler s = (Ok True, s\<lparr> cs_reader := (cs_reader s)\<lparr> rd_bytes := tail \<rparr>, cs_handler := h,
      cs_writer := (cs_writer s)\<lparr> wr_sent := wr_sent (cs_writer s) @ frame rs (answer r) \<rparr> \<rparr>)"
proof -
  have rd: "cs_read rq s = (Ok (Some req), s\<lparr> cs_reader := (cs_reader s)\<lparr> rd_bytes := tail \<rparr> \<rparr>)"
    using read_frame [OF assms(1,2)] by (simp add: cs_read_def)
  have "cs_handle handler req (s\<lparr> cs_reader := rd \<rparr>) = (Ok (answer r), s\<lparr> cs_reader := rd, cs_handler := h \<rparr>)" for rd
    using assms(4,5) by (cases r) (simp_all add: cs_handle_def answer_def)
  then show ?thesis
    using rd write_frame [OF assms(6,3)] by (simp add: serve_message_def cs_write_def)
qed

text \<open>
  The other side of a call: the network delivers what the client sent, the server's task reads
  one message, and what it sent is delivered back.
\<close>

definition server_turn ::
  "Request codec \<Rightarrow> Response codec \<Rightarrow> (Request \<Rightarrow> ('h, Response, IpcErr) st) \<Rightarrow> IpcClient \<times> 'h conn_state \<Rightarrow>
   IpcClient \<times> 'h conn_state" where
  "server_turn rq rs handler = (\<lambda>(c, s).
     let s1 = s\<lparr> cs_reader := (cs_reader s)\<lparr> rd_bytes := rd_bytes (cs_reader s) @ wr_sent (cl_writer c) \<rparr> \<rparr>;
         s2 = snd (handle_connection rq rs handler [MessageRead] s1)
     in (c\<lparr> cl_writer := (cl_writer c)\<lparr> wr_sent := [] \<rparr>,
            cl_reader := (cl_reader c)\<lparr> rd_bytes := rd_bytes (cl_reader c) @ wr_sent (cs_writer s2) \<rparr> \<rparr>,
         s2\<lparr> cs_writer := (cs_writer s2)\<lparr> wr_sent := [] \<rparr> \<rparr>))"

text \<open>Nothing is on its way except \<open>pending\<close>, on its way to the client.\<close>

definition link_idle :: "string \<Rightarrow> IpcClient \<times> 'h conn_state \<Rightarrow> bool" where
  "link_idle pending = (\<lambda>(c, s). rd_bytes (cl_reader c) = pending \<and> wr_sent (cl_writer c) = [] \<and> rd_bytes (cs_reader s) = [] \<and>
     wr_sent (cs_writer s) = [] \<and> writes_ok (cl_writer c) \<and> writes_ok (cs_writer s))"

lemma server_turn_answers:
  assumes "link_idle pending (c, s)" and "codec_ok rq req" "handler req (cs_handler s) = (r, h)" "r \<noteq> Panicked"
    "codec_ok rs (answer r)"
  shows "server_turn rq rs handler (c\<lparr> cl_writer := (cl_writer c)\<lparr> wr_sent := frame rq req \<rparr> \<rparr>, s) =
    (c\<lparr> cl_reader := (cl_reader c)\<lparr> rd_bytes := pending @ frame rs (answer r) \<rparr> \<rparr>, s\<lparr> cs_handler := h \<rparr>)"
proof -
  have i: "rd_bytes (cl_reader c) = pending" "wr_sent (cl_writer c) = []" "rd_bytes (cs_reader s) = []"
    "wr_sent (cs_writer s) = []" "writes_ok (cs_writer s)"
    using assms(1) by (auto simp: link_idle_def)
  let ?s1 = "s\<lparr> cs_reader := (cs_reader s)\<lparr> rd_bytes := frame rq req \<rparr> \<rparr>"
  have "handler req (cs_handler ?s1) = (r, h)" "rd_bytes (cs_reader ?s1) = frame rq req @ []" "writes_ok (cs_writer ?s1)"
    using assms(3) i(5) by simp_all
  from serve_one [where handler = handler, OF assms(2) this(2,3,1) assms(4,5)]
  have "serve_message rq rs handler ?s1 = (Ok True, ?s1\<lparr> cs_reader := (cs_reader s)\<lparr> rd_bytes := [] \<rparr>, cs_handler := h,
      cs_writer := (cs_writer s)\<lparr> wr_sent := frame rs (answer r) \<rparr> \<rparr>)"
    using i(4) by simp
  moreover have "(cl_writer c)\<lparr> wr_sent := [] \<rparr> = cl_writer c" "(cs_reader s)\<lparr> rd_bytes := [] \<rparr> = cs_reader s"
    "(cs_writer s)\<lparr> wr_sent := [] \<rparr> = cs_writer s"
    using i(2,3,4) by (simp_all add: reader.equality writer.equality)
  ultimately show ?thesis using i by (simp add: server_turn_def)
qed

lemma client_call:
  assumes idle: "link_idle pending (c, s)" and ok: "codec_ok rq req" "handler req (cs_handler s) = (r, h)" "r \<noteq> Panicked"
    "codec_ok rs (answer r)"
  shows "client_request rq rs (server_turn rq rs handler) late req (c, s) =
    (let c2 = c\<lparr> cl_reader := (cl_reader c)\<lparr> rd_bytes := pending @ frame rs (answer r) \<rparr> \<rparr>
     in case client_receive rs late c2 of (x, c3) \<Rightarrow> (x, (c3, s\<lparr> cs_handler := h \<rparr>)))"
proof -
  have w: "writes_ok (cl_writer c)" "wr_sent (cl_writer c) = []" using idle by (auto simp: link_idle_def)
  have send: "client_send rq req c = (Ok (), c\<lparr> cl_writer := (cl_writer c)\<lparr> wr_sent := frame rq req \<rparr> \<rparr>)"
    using write_frame [OF ok(1) w(1)] w(2) by (simp add: client_send_def)
  show ?thesis
    using send server_turn_answers [where handler = handler, OF idle ok] by (simp add: client_request_def)
qed

lemma client_call_in_time:
  assumes idle: "link_idle [] (c, s)" and ok: "codec_ok rq req" "handler req (cs_handler s) = (r, h)" "r \<noteq> Panicked"
    "codec_ok rs (answer r)"
  shows "client_request rq rs (server_turn rq rs handler) None req (c, s) = (Ok (answer r), (c, s\<lparr> cs_handler := h \<rparr>))"
proof -
  have "rd_bytes (cl_reader c) = []" using idle by (simp add: link_idle_def)
  then have "c\<lparr> cl_reader := (cl_reader c)\<lparr> rd_bytes := [] \<rparr> \<rparr> = c" by (simp add: reader.equality)
  then show ?thesis
    using read_frame [OF ok(4), of _ "[]"] client_call [where handler = handler, OF idle ok]
    by (simp add: client_receive_def)
qed

text \<open>A client that makes one call after the other, and what the handler alone would answer.\<close>

fun calls ::
  "Request codec \<Rightarrow> Response codec \<Rightarrow> (Request \<Rightarrow> ('h, Response, IpcErr) st) \<Rightarrow> Request list \<Rightarrow>
   (IpcClient \<times> 'h conn_state, Response list, IpcError) st" where
  "calls rq rs handler [] = returnS []"
| "calls rq rs handler (req # reqs) =
     bindS (client_request rq rs (server_turn rq rs handler) None req) (\<lambda>resp.
     bindS (calls rq rs handler reqs) (\<lambda>resps. returnS (resp # resps)))"

fun answers :: "(Request \<Rightarrow> ('h, Response, IpcErr) st) \<Rightarrow> Request list \<Rightarrow> 'h \<Rightarrow> (Response, IpcErr) outcome list \<times> 'h" where
  "answers handler [] h = ([], h)"
| "answers handler (req # reqs) h =
     (case handler req h of (r, h1) \<Rightarrow> case answers handler reqs h1 of (rs, h2) \<Rightarrow> (r # rs, h2))"

text \<open>
  A shutdown channel that reports a change without the flag, as it does for ever once the
  server is dropped, in the middle of a request: the rest of the line is answered as malformed.
\<close>

lemma interrupted_request_is_malformed:
  assumes "codec_ok rq req" and "to_json rq req = Ok json" and "rd_bytes (cs_reader s) = frame rq req @ tail"
    and "n < length json" "utf8_ok (map of_char (drop n json))" and "from_json rq (drop n json) = Err e"
    and "writes_ok (cs_writer s)" "codec_ok rs (RespError (''malformed JSON: '' @ e))"
  shows "handle_connection rq rs handler [ShutdownChanged n False, MessageRead] s =
    (None, s\<lparr> cs_reader := (cs_reader s)\<lparr> rd_bytes := tail \<rparr>, cs_writer := (cs_writer s)\<lparr>
      wr_sent := wr_sent (cs_writer s) @ frame rs (RespError (''malformed JSON: '' @ e)) \<rparr> \<rparr>)"
proof -
  have "cs_read rq (s\<lparr> cs_reader := read_dropped n (cs_reader s) \<rparr>) =
      (Err (IpcJson e), s\<lparr> cs_reader := (cs_reader s)\<lparr> rd_bytes := tail \<rparr> \<rparr>)"
    using read_rest_of_frame [OF assms(1,2,3,4,5)] assms(6) by (simp add: cs_read_def)
  then show ?thesis
    using write_frame [OF assms(8,7)] by (simp add: serve_message_def cs_write_def bindS_def)
qed

text \<open>A codec for a few messages, a handler and a fresh connection, for evaluating the model.\<close>

definition sample_rq :: "Request codec" where
  "sample_rq = \<lparr> to_json = (\<lambda>m. case m of ForceSync p \<Rightarrow> Ok (''{'' @ p @ ''}'') | _ \<Rightarrow> Err ''unsupported''),
     from_json = (\<lambda>t. Ok (ForceSync (tl (butlast t)))) \<rparr>"

definition sample_rs :: "Response codec" where
  "sample_rs = \<lparr> to_json = (\<lambda>m. case m of RespOk \<Rightarrow> Ok ''{}'' | RespError e \<Rightarrow> Ok (''{'' @ e @ ''}'') | _ \<Rightarrow> Err ''unsupported''),
     from_json = (\<lambda>t. if t = ''{}'' then Ok RespOk else Ok (RespError (tl (butlast t)))) \<rparr>"

fun sample_handler :: "Request \<Rightarrow> (nat, Response, IpcErr) st" where
  "sample_handler (ForceSync p) n = (if p = ''a'' then (Ok RespOk, n + 1) else (Err (HandlerError p), n + 1))"
| "sample_handler _ n = (Ok (RespError ''no''), n)"

definition sample_client :: IpcClient where
  "sample_client = \<lparr> cl_reader = \<lparr> rd_bytes = [], rd_error = None \<rparr>, cl_writer = \<lparr> wr_sent = [], wr_fault = (\<lambda>_ _. None) \<rparr> \<rparr>"

definition sample_conn_state :: "nat conn_state" where
  "sample_conn_state = \<lparr> cs_reader = \<lparr> rd_bytes = [], rd_error = None \<rparr>, cs_writer = \<lparr> wr_sent = [], wr_fault = (\<lambda>_ _. None) \<rparr>,
     cs_handler = 0 \<rparr>"

lemma sample_link [simp]: "link_idle [] (sample_client, sample_conn_state)"
  by (simp add: link_idle_def sample_client_def sample_conn_state_def writes_ok_def)

lemma sample_codecs [simp]:
  "codec_ok sample_rq (ForceSync ''a'')" "codec_ok sample_rq (ForceSync ''b'')" "codec_ok sample_rs RespOk"
  "codec_ok sample_rs (RespError ''internal error: Handler error: b'')"
  by (simp_all add: codec_ok_def sample_rq_def sample_rs_def MAX_MESSAGE_SIZE_def utf8_cont_def)

lemma calls_answered:
  assumes "link_idle [] (c, s)" and "\<forall>req \<in> set reqs. codec_ok rq req"
    and "answers handler reqs (cs_handler s) = (rs_out, h)"
    and "\<forall>r \<in> set rs_out. r \<noteq> Panicked \<and> codec_ok rs (answer r)"
  shows "calls rq rs handler reqs (c, s) = (Ok (map answer rs_out), (c, s\<lparr> cs_handler := h \<rparr>))"
  using assms
proof (induction reqs arbitrary: s rs_out)
  case (Cons req reqs)
  obtain r h1 where 1: "handler req (cs_handler s) = (r, h1)" by fastforce
  obtain rest where 2: "answers handler reqs h1 = (rest, h)" "rs_out = r # rest"
    using Cons.prems(3) 1 by (auto split: prod.splits)
  have "client_request rq rs (server_turn rq rs handler) None req (c, s) = (Ok (answer r), (c, s\<lparr> cs_handler := h1 \<rparr>))"
    using client_call_in_time [where handler = handler, OF Cons.prems(1) _ 1] Cons.prems(2,4) 2(2) by simp
  moreover have "link_idle [] (c, s\<lparr> cs_handler := h1 \<rparr>)" using Cons.prems(1) by (simp add: link_idle_def)
  from Cons.IH [OF this] Cons.prems(2,4) 2
  have "calls rq rs handler reqs (c, s\<lparr> cs_handler := h1 \<rparr>) = (Ok (map answer rest), (c, s\<lparr> cs_handler := h \<rparr>))" by simp
  ultimately show ?case using 2(2) by simp
qed simp

section \<open>Properties of calls\<close>

text \<open>
  C16: Over a connection without faults every request of a client is answered, in order, with
  exactly what the handler returns for it, an error of the handler as an error message; the
  handler sees the requests in the order they were sent and nothing else. The messages are
  within the size limit (\<open>codec_ok\<close>) and the handler does not panic.
\<close>

theorem calls_are_answered:
  assumes "link_idle [] (c, s)" and "\<forall>req \<in> set reqs. codec_ok rq req"
    and "answers handler reqs (cs_handler s) = (rs_out, h)"
    and "\<forall>r \<in> set rs_out. r \<noteq> Panicked \<and> codec_ok rs (answer r)"
  shows "calls rq rs handler reqs (c, s) = (Ok (map answer rs_out), (c, s\<lparr> cs_handler := h \<rparr>))"
  using calls_answered [OF assms] .

theorem calls_are_answered_witness:
  "calls sample_rq sample_rs sample_handler [ForceSync ''a'', ForceSync ''b''] (sample_client, sample_conn_state) =
    (Ok [RespOk, RespError ''internal error: Handler error: b''], (sample_client, sample_conn_state\<lparr> cs_handler := 2 \<rparr>))"
proof -
  have "answers sample_handler [ForceSync ''a'', ForceSync ''b''] (cs_handler sample_conn_state) =
    ([Ok RespOk, Err (HandlerError ''b'')], 2)"
    by (simp add: sample_conn_state_def)
  from calls_are_answered [where handler = sample_handler and rq = sample_rq and rs = sample_rs, OF sample_link _ this]
  show ?thesis by (simp add: answer_def del: calls.simps)
qed

text \<open>
  C39: A response that comes after the client gave up is not thrown away: the next call on the
  same client takes for its own answer what is left of it. When the timeout came before the
  first byte of the response that is the whole response to the other request; when it came
  in the middle, the client parses the tail of a message.
\<close>

theorem late_response_is_mistaken:
  assumes "link_idle [] (c, s)" and "codec_ok rq req1" "codec_ok rq req2"
    and "handler req1 (cs_handler s) = (Ok resp1, h1)" "handler req2 h1 = (Ok resp2, h2)"
    and "codec_ok rs resp1" "codec_ok rs resp2" "to_json rs resp1 = Ok json"
    and "n < length json" "utf8_ok (map of_char (drop n json))"
  shows "\<exists>link1 link2. client_request rq rs (server_turn rq rs handler) (Some n) req1 (c, s) = (Err DaemonUnresponsive, link1) \<and>
    client_request rq rs (server_turn rq rs handler) None req2 link1 = (map_err Protocol (from_json rs (drop n json)), link2) \<and>
    (n = 0 \<longrightarrow> from_json rs (drop n json) = Ok resp1)"
proof -
  let ?c = "\<lambda>tail. c\<lparr> cl_reader := (cl_reader c)\<lparr> rd_bytes := frame rs resp1 @ tail \<rparr> \<rparr>" and ?s1 = "s\<lparr> cs_handler := h1 \<rparr>"
  let ?d = "\<lambda>c. c\<lparr> cl_reader := read_dropped n (cl_reader c) \<rparr>"
  have a: "answer (Ok resp1) = resp1" "answer (Ok resp2) = resp2" by (simp_all add: answer_def)
  have 1: "client_request rq rs (server_turn rq rs handler) (Some n) req1 (c, s) = (Err DaemonUnresponsive, (?d (?c []), ?s1))"
    using client_call [where handler = handler, OF assms(1,2,4)] assms(6) a by (simp add: client_receive_def)
  let ?pending = "rd_bytes (read_dropped n (cl_reader (?c [])))"
  have idle: "link_idle ?pending (?d (?c []), ?s1)"
    using assms(1) by (simp add: link_idle_def)
  have "cl_reader (?d (?c []))\<lparr> rd_bytes := ?pending @ frame rs resp2 \<rparr> = read_dropped n (cl_reader (?c (frame rs resp2)))"
    using read_dropped_append [OF newline_in_frame [OF assms(6)], of n "cl_reader c"] by simp
  with client_call [where handler = handler and late = None, OF idle assms(3)] assms(5,7) a(2)
    read_rest_of_frame [OF assms(6,8) _ assms(9,10), of "cl_reader (?c (frame rs resp2))" "frame rs resp2"]
  have "\<exists>l. client_request rq rs (server_turn rq rs handler) None req2 (?d (?c []), ?s1) =
      (map_err Protocol (from_json rs (drop n json)), l)"
    by (cases "from_json rs (drop n json)") (simp_all add: client_receive_def)
  moreover have "n = 0 \<longrightarrow> from_json rs (drop n json) = Ok resp1" using assms(6,8) by (auto simp: codec_ok_def)
  ultimately show ?thesis using 1 by blast
qed

theorem late_response_is_mistaken_witness:
  "\<exists>link1 link2. client_request sample_rq sample_rs (server_turn sample_rq sample_rs
      (\<lambda>req n. (Ok (if n = 0 then RespError ''internal error: Handler error: b'' else RespOk), n + 1)))
      (Some 0) (ForceSync ''b'') (sample_client, sample_conn_state) = (Err DaemonUnresponsive, link1) \<and>
    client_request sample_rq sample_rs (server_turn sample_rq sample_rs
      (\<lambda>req n. (Ok (if n = 0 then RespError ''internal error: Handler error: b'' else RespOk), n + 1)))
      None (ForceSync ''a'') link1 = (Ok (RespError ''internal error: Handler error: b''), link2)"
proof -
  let ?h = "\<lambda>req n. (Ok (if n = 0 then RespError ''internal error: Handler error: b'' else RespOk), n + 1)"
  let ?r = "RespError ''internal error: Handler error: b''" and ?j = "''{internal error: Handler error: b}''"
  have "?h (ForceSync ''b'') (cs_handler sample_conn_state) = (Ok ?r, 1 :: nat)" "?h (ForceSync ''a'') (1 :: nat) = (Ok RespOk, 2)"
    "to_json sample_rs ?r = Ok ?j" "from_json sample_rs (drop 0 ?j) = Ok ?r" "0 < length ?j" "utf8_ok (map of_char (drop 0 ?j))"
    by (simp_all add: sample_conn_state_def sample_rs_def)
  from late_response_is_mistaken [where handler = ?h and n = 0, OF sample_link sample_codecs(2,1) this(1,2) sample_codecs(4,3) this(3,5,6)]
    this(4)
  show ?thesis by simp
qed

end
