(* ===== verification/Rust_File.thy ===== *)
theory Rust_File
  imports Rust_Path
begin

text \<open>
  What the sources use of files as a whole: creating and writing one, and reading one as text
  (\<open>std::fs::write\<close>, \<open>std::fs::read_to_string\<close> and their \<open>tokio\<close> twins).
\<close>

section \<open>Creating and writing\<close>

text \<open>
  \<open>File::create\<close>, \<open>write_all\<close> and \<open>sync_all\<close>: creating truncates; a write the system refuses
  may have written a part of the data, whose length \<open>io_read_len\<close> bounds like that of a read.
\<close>

definition file_create :: "'w io \<Rightarrow> PathBuf \<Rightarrow> ('w world, location, string) st" where
  "file_create io p w = (case walk (w_disk w) (io_cwd io) (path_components p) of
     None \<Rightarrow> (Err ''No such file or directory (os error 2)'', w)
   | Some l \<Rightarrow> (case io_fault io ''create'' l (w_outer w) of
       Some e \<Rightarrow> (Err e, w)
     | None \<Rightarrow> (if is_dir_at (w_disk w) l then (Err ''Is a directory (os error 21)'', w)
                else (Ok l, w\<lparr> w_disk := (w_disk w)(l \<mapsto> FileN []) \<rparr>))))"

definition file_bytes :: "location \<Rightarrow> 'w world \<Rightarrow> u8 list" where
  "file_bytes l w = (case w_disk w l of Some (FileN b) \<Rightarrow> b | _ \<Rightarrow> [])"

definition file_write_all :: "'w io \<Rightarrow> location \<Rightarrow> u8 list \<Rightarrow> ('w world, unit, string) st" where
  "file_write_all io l data w =
     (let b = file_bytes l w
      in case io_fault io ''write'' l (w_outer w) of
           Some e \<Rightarrow> (Err e, w\<lparr> w_disk := (w_disk w)(l \<mapsto>
             FileN (b @ take (io_read_len io l (length b) (length data) (w_outer w)) data)) \<rparr>)
         | None \<Rightarrow> (Ok (), w\<lparr> w_disk := (w_disk w)(l \<mapsto> FileN (b @ data)) \<rparr>))"

definition file_sync_all :: "'w io \<Rightarrow> location \<Rightarrow> ('w world, unit, string) st" where
  "file_sync_all io l w = (case io_fault io ''fsync'' l (w_outer w) of Some e \<Rightarrow> (Err e, w) | None \<Rightarrow> (Ok (), w))"

text \<open>A text is its bytes.\<close>

definition byte_of :: "char \<Rightarrow> u8" where
  "byte_of c = word_of_nat (of_char c)"

text \<open>\<open>fs::write\<close>.\<close>

definition fs_write :: "'w io \<Rightarrow> PathBuf \<Rightarrow> string \<Rightarrow> ('w world, unit, string) st" where
  "fs_write io path contents =
     bindS (file_create io path) (\<lambda>l. file_write_all io l (map byte_of contents))"

section \<open>Reading\<close>

text \<open>\<open>fs::read_to_string\<close>; the error tells whether its kind is \<open>NotFound\<close>.\<close>

definition read_to_string :: "'w io \<Rightarrow> PathBuf \<Rightarrow> 'w world \<Rightarrow> (string, bool \<times> string) outcome" where
  "read_to_string io path w =
     (case (walk (w_disk w) (io_cwd io) (path_components path), node_at io (w_disk w) path) of
        (Some l, Some n) \<Rightarrow> (case io_fault io ''open'' l (w_outer w) of
            Some e \<Rightarrow> Err (False, e)
          | None \<Rightarrow> (case io_fault io ''read'' l (w_outer w) of
              Some e \<Rightarrow> Err (False, e)
            | None \<Rightarrow> (case n of
                DirN \<Rightarrow> Err (False, ''Is a directory (os error 21)'')
              | FileN b \<Rightarrow> (if utf8_ok (map unat b) then Ok (map (\<lambda>x. char_of (unat x)) b)
                  else Err (False, ''stream did not contain valid UTF-8'')))))
      | _ \<Rightarrow> Err (True, ''No such file or directory (os error 2)''))"

section \<open>Reading what was written\<close>

definition no_io_faults :: "'w io \<Rightarrow> bool" where
  "no_io_faults io \<longleftrightarrow> (\<forall>c l w. io_fault io c l w = None)"

definition utf8_text :: "string \<Rightarrow> bool" where
  "utf8_text s \<longleftrightarrow> utf8_ok (map of_char s)"

lemma char_byte [simp]: "unat (byte_of c) = of_char c" "char_of (unat (byte_of c)) = c"
proof -
  show u: "unat (byte_of c) = of_char c"
    using nat_of_char_less_256 [of c] by (simp add: byte_of_def unat_of_nat)
  show "char_of (unat (byte_of c)) = c" by (simp add: u)
qed

lemma walk_file_upd:
  "\<not> is_dir_at d l \<Longrightarrow> walk (d(l \<mapsto> FileN b)) cur cs = walk d cur cs"
proof -
  assume "\<not> is_dir_at d l"
  then have "is_dir_at (d(l \<mapsto> FileN b)) x = is_dir_at d x" for x by (auto simp: is_dir_at_def)
  then show ?thesis by (induction d cur cs rule: walk.induct) simp_all
qed

lemma fs_write_cases:
  assumes "no_io_faults io" and "fs_write io path v w = (Ok (), w')"
  obtains l where "walk (w_disk w) (io_cwd io) (path_components path) = Some l" "\<not> is_dir_at (w_disk w) l"
    "w' = w\<lparr> w_disk := (w_disk w)(l \<mapsto> FileN (map byte_of v)) \<rparr>"
proof -
  have fault: "io_fault io c l u = None" for c l u using assms(1) by (simp add: no_io_faults_def)
  show thesis
    using assms(2) that
    by (auto simp: fs_write_def file_create_def file_write_all_def file_bytes_def bindS_def fault Let_def
        split: option.splits if_splits)
qed

lemma read_written:
  assumes "no_io_faults io" "utf8_text v" "fs_write io path v w = (Ok (), w')"
  shows "read_to_string io path w' = Ok v" and "path_exists io path w'"
proof -
  have fault: "io_fault io c l u = None" for c l u using assms(1) by (simp add: no_io_faults_def)
  obtain l where l: "walk (w_disk w) (io_cwd io) (path_components path) = Some l" "\<not> is_dir_at (w_disk w) l"
    and w': "w' = w\<lparr> w_disk := (w_disk w)(l \<mapsto> FileN (map byte_of v)) \<rparr>"
    by (rule fs_write_cases [OF assms(1,3)])
  have walk: "walk (w_disk w') (io_cwd io) (path_components path) = Some l"
    using walk_file_upd [OF l(2)] l(1) w' by simp
  have "l \<noteq> []" using l(2) by (auto simp: is_dir_at_def)
  then have node: "node_at io (w_disk w') path = Some (FileN (map byte_of v))"
    using walk w' by (simp add: node_at_def)
  then show "path_exists io path w'" by (simp add: path_exists_def fault)
  have "map (\<lambda>x. char_of (unat x)) (map byte_of v) = v" by (simp add: comp_def)
  moreover have "utf8_ok (map unat (map byte_of v))" using assms(2) by (simp add: utf8_text_def comp_def)
  ultimately show "read_to_string io path w' = Ok v"
    using walk node by (simp add: read_to_string_def fault)
qed

end
