(* ===== verification/Gdrive.thy ===== *)
theory Gdrive
  imports Sync_Engine Rust_File
begin

text \<open>
  The Google Drive provider (\<open>cloudsync-providers/src/gdrive/provider.rs\<close>) on the interface of
  the \<open>google-drive3\<close> crate, whose calls are parameters: listing, downloading and the change
  feed, and what they mean for the synchronisation engine that runs on them.
\<close>

section \<open>The interface of the Drive library\<close>

text \<open>The resources as the library hands them out: every field may be missing.\<close>

record GFile =
  gf_id :: "string option"
  gf_name :: "string option"
  gf_mime_type :: "string option"
  gf_size :: "int option"
  gf_md5_checksum :: "string option"
  gf_modified_time :: "datetime option"
  gf_created_time :: "datetime option"
  gf_trashed :: "bool option"

record GFileList =
  gl_files :: "GFile list option"
  gl_next_page_token :: "string option"

record GChange =
  gc_file_id :: "string option"
  gc_removed :: "bool option"
  gc_file :: "GFile option"
  gc_time :: "datetime option"

record GChangeList =
  gcl_changes :: "GChange list option"
  gcl_next_page_token :: "string option"
  gcl_new_start_page_token :: "string option"

text \<open>A frame of a response body is data, trailers or a failure to read on.\<close>

datatype body_frame = DataFrame "u8 list" | TrailersFrame | BrokenFrame string

record 'w hub =
  hub_list_files :: "string \<Rightarrow> string \<Rightarrow> ('w world, GFileList, string) st"
  hub_get_metadata :: "string \<Rightarrow> string \<Rightarrow> ('w world, GFile, string) st"
  hub_get_media :: "string \<Rightarrow> ('w world, body_frame list, string) st"
  hub_start_page_token :: "('w world, string option, string) st"
  hub_list_changes :: "string \<Rightarrow> ('w world, GChangeList, string) st"
  hub_now :: "'w world \<Rightarrow> datetime \<times> 'w world"

section \<open>Items and listing\<close>

definition gdrive_error :: "string \<Rightarrow> CoreError" where
  "gdrive_error message = ProviderApi ''gdrive'' message"

definition file_to_cloud_item :: "GFile \<Rightarrow> (CloudItem, CoreError) outcome" where
  "file_to_cloud_item fl =
     bindO (ok_or (gdrive_error ''File missing ID field'') (gf_id fl)) (\<lambda>i.
     bindO (ok_or (gdrive_error ''File missing name field'') (gf_name fl)) (\<lambda>nm.
     let is_folder = (case gf_mime_type fl of Some mt \<Rightarrow> mt = ''application/vnd.google-apps.folder'' | None \<Rightarrow> False)
     in bindO (ok_or (gdrive_error ''File missing modified_time field'') (gf_modified_time fl)) (\<lambda>modified.
     let path = cloud_path_new (''/'' @ nm)
     in Ok \<lparr> ci_id = FileId i, ci_name = nm, ci_path = path, ci_is_folder = is_folder,
          ci_size = map_option as_u64 (gf_size fl), ci_content_hash = gf_md5_checksum fl, ci_modified = modified,
          ci_created = gf_created_time fl, ci_mime_type = gf_mime_type fl \<rparr>)))"

text \<open>Files that cannot be converted are reported and left out.\<close>

fun convert_files :: "GFile list \<Rightarrow> CloudItem list" where
  "convert_files [] = []"
| "convert_files (fl # files) = (case file_to_cloud_item fl of
     Ok item \<Rightarrow> item # convert_files files
   | _ \<Rightarrow> convert_files files)"

definition gdrive_list_folder :: "'w hub \<Rightarrow> CloudPath \<Rightarrow> ('w world, CloudItem list, CoreError) st" where
  "gdrive_list_folder hub path =
     (if \<not> cloud_path_is_root path then
        failS (InvalidOperation ''Non-root path listing not yet supported - path-to-ID resolution required'')
      else bindS (map_errS (\<lambda>e. gdrive_error (''Failed to list files: '' @ e))
          (hub_list_files hub ''trashed = false and 'root' in parents''
             ''files(id,name,mimeType,size,md5Checksum,modifiedTime,createdTime)'')) (\<lambda>file_list.
        returnS (case gl_files file_list of Some files \<Rightarrow> convert_files files | None \<Rightarrow> [])))"

section \<open>Downloading\<close>

text \<open>The world with the messages a progress sender was given, if there is one.\<close>

record 'w download_state =
  dl_world :: "'w world"
  dl_progress :: "TransferProgress list option"

definition in_dl :: "('w world, 'a, 'e) st \<Rightarrow> ('w download_state, 'a, 'e) st" where
  "in_dl m s = (case m (dl_world s) of (r, w) \<Rightarrow> (r, s\<lparr> dl_world := w \<rparr>))"

definition send_progress :: "TransferProgress \<Rightarrow> ('w download_state, unit, 'e) st" where
  "send_progress p s = (Ok (), s\<lparr> dl_progress := map_option (\<lambda>sent. sent @ [p]) (dl_progress s) \<rparr>)"

fun write_frames ::
  "'w io \<Rightarrow> location \<Rightarrow> u64 \<Rightarrow> body_frame list \<Rightarrow> u64 \<Rightarrow> ('w download_state, unit, CoreError) st" where
  "write_frames io l total_bytes [] bytes_transferred = returnS ()"
| "write_frames io l total_bytes (BrokenFrame e # frames) bytes_transferred =
     failS (gdrive_error (''Failed to read response chunk: '' @ e))"
| "write_frames io l total_bytes (TrailersFrame # frames) bytes_transferred =
     write_frames io l total_bytes frames bytes_transferred"
| "write_frames io l total_bytes (DataFrame data # frames) bytes_transferred =
     bindS (map_errS Io (in_dl (file_write_all io l data))) (\<lambda>_.
     let bytes = bytes_transferred + word_of_nat (length data)
     in bindS (send_progress \<lparr> tp_bytes_transferred = bytes, tp_total_bytes = total_bytes \<rparr>) (\<lambda>_.
        write_frames io l total_bytes frames bytes))"

text \<open>The web address of a cloud-native file, which is not downloaded.\<close>

definition native_url :: "(string \<Rightarrow> string option) \<Rightarrow> FileId \<Rightarrow> GFile \<Rightarrow> string option" where
  "native_url parse i meta = (case gf_mime_type meta of
     Some mime_type \<Rightarrow> if is_cloud_native mime_type then build_web_url parse i mime_type else None
   | None \<Rightarrow> None)"

definition gdrive_download ::
  "'w hub \<Rightarrow> 'w io \<Rightarrow> (string \<Rightarrow> string option) \<Rightarrow> FileId \<Rightarrow> PathBuf \<Rightarrow> ('w download_state, unit, CoreError) st" where
  "gdrive_download hub io parse i dest =
     bindS (map_errS (\<lambda>e. gdrive_error (''Failed to get file metadata: '' @ e))
        (in_dl (hub_get_metadata hub (file_id_str i) ''size,mimeType''))) (\<lambda>meta.
     case native_url parse i meta of
       Some url \<Rightarrow> failS (CloudNativeFileError url)
     | None \<Rightarrow>
         let total_bytes = (case gf_size meta of Some n \<Rightarrow> as_u64 n | None \<Rightarrow> 0)
         in bindS (map_errS (\<lambda>e. gdrive_error (''Failed to download file: '' @ e))
              (in_dl (hub_get_media hub (file_id_str i)))) (\<lambda>body.
            bindS (map_errS Io (in_dl (file_create io dest))) (\<lambda>l.
            bindS (send_progress \<lparr> tp_bytes_transferred = 0, tp_total_bytes = total_bytes \<rparr>) (\<lambda>_.
            bindS (write_frames io l total_bytes body 0) (\<lambda>_.
            map_errS Io (in_dl (file_sync_all io l)))))))"

section \<open>The change feed\<close>

definition change_is_deleted :: "GChange \<Rightarrow> bool" where
  "change_is_deleted change \<longleftrightarrow> (case gc_removed change of Some b \<Rightarrow> b | None \<Rightarrow> False) \<or>
     (case gc_file change of Some fl \<Rightarrow> (case gf_trashed fl of Some b \<Rightarrow> b | None \<Rightarrow> False) | None \<Rightarrow> False)"

text \<open>The item of a change, or \<open>None\<close> when the change is skipped because its file cannot be converted.\<close>

definition change_item :: "GChange \<Rightarrow> CloudItem option option" where
  "change_item change =
     (if change_is_deleted change then Some None
      else case gc_file change of
        Some fl \<Rightarrow> (case file_to_cloud_item fl of Ok item \<Rightarrow> Some (Some item) | _ \<Rightarrow> None)
      | None \<Rightarrow> Some None)"

fun convert_changes :: "'w hub \<Rightarrow> GChange list \<Rightarrow> 'w world \<Rightarrow> Change list \<times> 'w world" where
  "convert_changes hub [] w = ([], w)"
| "convert_changes hub (change # changes) w =
     (case gc_file_id change of
        None \<Rightarrow> convert_changes hub changes w
      | Some i \<Rightarrow> (case change_item change of
          None \<Rightarrow> convert_changes hub changes w
        | Some item \<Rightarrow>
            (case (case gc_time change of Some t \<Rightarrow> (t, w) | None \<Rightarrow> hub_now hub w) of (t, w1) \<Rightarrow>
             case convert_changes hub changes w1 of (rest, w2) \<Rightarrow>
               (\<lparr> ch_item = item, ch_file_id = FileId i, ch_deleted = change_is_deleted change, ch_timestamp = t \<rparr> # rest, w2))))"

definition next_cursor :: "GChangeList \<Rightarrow> (string \<times> bool, CoreError) outcome" where
  "next_cursor change_list = (case gcl_next_page_token change_list of
     Some next_page_token \<Rightarrow> Ok (next_page_token, True)
   | None \<Rightarrow> bindO (ok_or (gdrive_error ''Neither nextPageToken nor newStartPageToken present'')
       (gcl_new_start_page_token change_list)) (\<lambda>cursor. Ok (cursor, False)))"

definition gdrive_get_changes :: "'w hub \<Rightarrow> string option \<Rightarrow> ('w world, ChangeList, CoreError) st" where
  "gdrive_get_changes hub cursor = (case cursor of
     None \<Rightarrow>
       bindS (map_errS (\<lambda>e. gdrive_error (''Failed to get start page token: '' @ e)) (hub_start_page_token hub)) (\<lambda>token.
       bindS (liftS (ok_or (gdrive_error ''Start page token missing from response'') token)) (\<lambda>token.
       returnS \<lparr> cl_changes = [], cl_cursor = token, cl_has_more = False \<rparr>))
   | Some page_token \<Rightarrow>
       bindS (map_errS (\<lambda>e. gdrive_error (''Failed to list changes: '' @ e)) (hub_list_changes hub page_token)) (\<lambda>change_list.
       bindS (case gcl_changes change_list of
           Some gdrive_changes \<Rightarrow> (\<lambda>w. case convert_changes hub gdrive_changes w of (cs, w') \<Rightarrow> (Ok cs, w'))
         | None \<Rightarrow> returnS []) (\<lambda>changes.
       bindS (liftS (next_cursor change_list)) (\<lambda>(cursor, has_more).
       returnS \<lparr> cl_changes = changes, cl_cursor = cursor, cl_has_more = has_more \<rparr>))))"

section \<open>The provider\<close>

text \<open>
  The trait's methods the rest of the program calls; a call without a progress sender. The
  remaining ones are refused.
\<close>

definition gdrive_provider :: "'w hub \<Rightarrow> 'w io \<Rightarrow> (string \<Rightarrow> string option) \<Rightarrow> 'w CloudProvider" where
  "gdrive_provider hub io parse =
     \<lparr> cp_id = ''gdrive'', cp_display_name = ''Google Drive'', cp_list_folder = gdrive_list_folder hub,
       cp_get_changes = gdrive_get_changes hub,
       cp_download = (\<lambda>i dest w. case gdrive_download hub io parse i dest \<lparr> dl_world = w, dl_progress = None \<rparr> of
          (r, s) \<Rightarrow> (r, dl_world s)) \<rparr>"

definition gdrive_upload :: "PathBuf \<Rightarrow> CloudPath \<Rightarrow> ('w world, CloudItem, CoreError) st" where
  "gdrive_upload src dest = failS (InvalidOperation ''Upload not yet implemented'')"

definition gdrive_delete :: "FileId \<Rightarrow> ('w world, unit, CoreError) st" where
  "gdrive_delete i = failS (InvalidOperation ''Delete not yet implemented'')"

definition gdrive_move_item :: "FileId \<Rightarrow> CloudPath \<Rightarrow> ('w world, unit, CoreError) st" where
  "gdrive_move_item i new_path = failS (InvalidOperation ''Move not yet implemented'')"

definition gdrive_create_share_link :: "FileId \<Rightarrow> ShareOptions \<Rightarrow> ('w world, string, CoreError) st" where
  "gdrive_create_share_link i options = failS (InvalidOperation ''Create share link not yet implemented'')"

definition gdrive_get_metadata :: "FileId \<Rightarrow> ('w world, CloudItem, CoreError) st" where
  "gdrive_get_metadata i = failS (InvalidOperation ''Get metadata not yet implemented'')"

definition gdrive_get_versions :: "FileId \<Rightarrow> ('w world, FileVersion list, CoreError) st" where
  "gdrive_get_versions i = failS (InvalidOperation ''Get versions not yet implemented'')"

section \<open>What a download leaves on the disk\<close>

text \<open>The chunks that arrive before the body ends or breaks, and the failure it breaks with.\<close>

fun received :: "body_frame list \<Rightarrow> u8 list list \<times> string option" where
  "received [] = ([], None)"
| "received (BrokenFrame e # frames) = ([], Some e)"
| "received (TrailersFrame # frames) = received frames"
| "received (DataFrame data # frames) = (case received frames of (ds, e) \<Rightarrow> (data # ds, e))"

text \<open>The counters a progress sender is given after each chunk, from \<open>n\<close> bytes on.\<close>

fun counters :: "u64 \<Rightarrow> u64 \<Rightarrow> u8 list list \<Rightarrow> TransferProgress list" where
  "counters tb n [] = []"
| "counters tb n (d # ds) =
     (let n' = n + word_of_nat (length d)
      in \<lparr> tp_bytes_transferred = n', tp_total_bytes = tb \<rparr> # counters tb n' ds)"

lemma write_frames_result:
  assumes "no_io_faults io" and "w_disk (dl_world s) l = Some (FileN b)"
  shows "write_frames io l tb frames n s =
    ((case snd (received frames) of None \<Rightarrow> Ok () | Some e \<Rightarrow> Err (gdrive_error (''Failed to read response chunk: '' @ e))),
     s\<lparr> dl_world := (dl_world s)\<lparr> w_disk := (w_disk (dl_world s))(l \<mapsto> FileN (b @ concat (fst (received frames)))) \<rparr>,
       dl_progress := map_option (\<lambda>sent. sent @ counters tb n (fst (received frames))) (dl_progress s) \<rparr>)"
  using assms
proof (induction io l tb frames n arbitrary: s b rule: write_frames.induct)
  case (4 io l tb data frames n)
  let ?s = "s\<lparr> dl_world := (dl_world s)\<lparr> w_disk := (w_disk (dl_world s))(l \<mapsto> FileN (b @ data)) \<rparr>,
      dl_progress := map_option (\<lambda>sent. sent @ [\<lparr> tp_bytes_transferred = n + word_of_nat (length data), tp_total_bytes = tb \<rparr>])
        (dl_progress s) \<rparr>"
  obtain ds e where r: "received frames = (ds, e)" by fastforce
  have "io_fault io ''write'' l (w_outer (dl_world s)) = None" using "4.prems" by (simp add: no_io_faults_def)
  then have "write_frames io l tb (DataFrame data # frames) n s = write_frames io l tb frames (n + word_of_nat (length data)) ?s"
    using "4.prems" by (simp add: bindS_def map_errS_def in_dl_def file_write_all_def file_bytes_def send_progress_def Let_def)
  with "4.IH" [of "n + word_of_nat (length data)" ?s "b @ data"] "4.prems"(1) r show ?case
    by (cases "dl_progress s") (simp_all add: Let_def fun_upd_same del: fun_upd_apply write_frames.simps)
qed (simp_all add: fun_upd_idem option.map_ident)

text \<open>
  A download of a cloud-native file fails with its web address and touches nothing. Any other
  leaves at its destination exactly the chunks that arrived, and succeeds if and only if the
  body did not break off: a broken transfer leaves the partial file behind.
\<close>

lemma gdrive_download_result:
  assumes "no_io_faults io" and "hub_get_metadata hub (file_id_str i) ''size,mimeType'' (dl_world s) = (Ok meta, w1)"
    and "hub_get_media hub (file_id_str i) w1 = (Ok frames, w2)"
    and "walk (w_disk w2) (io_cwd io) (path_components dest) = Some l" and "\<not> is_dir_at (w_disk w2) l"
  defines "tb \<equiv> (case gf_size meta of Some n \<Rightarrow> as_u64 n | None \<Rightarrow> 0)"
  shows "gdrive_download hub io parse i dest s = (case native_url parse i meta of
      Some url \<Rightarrow> (Err (CloudNativeFileError url), s\<lparr> dl_world := w1 \<rparr>)
    | None \<Rightarrow> ((case snd (received frames) of None \<Rightarrow> Ok () | Some e \<Rightarrow> Err (gdrive_error (''Failed to read response chunk: '' @ e))),
        \<lparr> dl_world = w2\<lparr> w_disk := (w_disk w2)(l \<mapsto> FileN (concat (fst (received frames)))) \<rparr>,
          dl_progress = map_option (\<lambda>sent. sent @ transfer_progress_new tb # counters tb 0 (fst (received frames))) (dl_progress s) \<rparr>))"
proof (cases "native_url parse i meta")
  case None
  let ?s = "s\<lparr> dl_world := w2\<lparr> w_disk := (w_disk w2)(l \<mapsto> FileN []) \<rparr>,
      dl_progress := map_option (\<lambda>sent. sent @ [transfer_progress_new tb]) (dl_progress s) \<rparr>"
  have fault: "io_fault io c l' u = None" for c l' u using assms(1) by (simp add: no_io_faults_def)
  have "w_disk (dl_world ?s) l = Some (FileN [])" by simp
  from write_frames_result [OF assms(1) this, of tb frames 0]
  have "write_frames io l tb frames 0 ?s =
      (case snd (received frames) of None \<Rightarrow> Ok () | Some e \<Rightarrow> Err (gdrive_error (''Failed to read response chunk: '' @ e)),
       ?s\<lparr> dl_world := w2\<lparr> w_disk := (w_disk w2)(l \<mapsto> FileN (concat (fst (received frames)))) \<rparr>,
         dl_progress := map_option (\<lambda>sent. sent @ transfer_progress_new tb # counters tb 0 (fst (received frames))) (dl_progress s) \<rparr>)"
    by (cases "dl_progress s") simp_all
  with None assms(2-5) show ?thesis
    by (cases "snd (received frames)")
      (simp_all add: gdrive_download_def bindS_def map_errS_def in_dl_def file_create_def fault file_sync_all_def
        send_progress_def transfer_progress_new_def Let_def flip: tb_def)
next
  case (Some url)
  then show ?thesis using assms(2) by (simp add: gdrive_download_def bindS_def map_errS_def in_dl_def)
qed

section \<open>Pages of the change feed\<close>

text \<open>The pages of changes from a token on, up to the one that carries the token for the next time.\<close>

definition page_changes :: "GChangeList \<Rightarrow> GChange list" where
  "page_changes pg = (case gcl_changes pg of Some cs \<Rightarrow> cs | None \<Rightarrow> [])"

inductive drive_pages :: "'w hub \<Rightarrow> string \<Rightarrow> 'w world \<Rightarrow> GChangeList list \<Rightarrow> string \<Rightarrow> 'w world \<Rightarrow> bool" for hub where
  final_page: "hub_list_changes hub token w = (Ok pg, w1) \<Longrightarrow> gcl_next_page_token pg = None \<Longrightarrow>
    gcl_new_start_page_token pg = Some start \<Longrightarrow>
    drive_pages hub token w [pg] start (snd (convert_changes hub (page_changes pg) w1))"
| another_page: "hub_list_changes hub token w = (Ok pg, w1) \<Longrightarrow> gcl_next_page_token pg = Some next_token \<Longrightarrow>
    drive_pages hub next_token (snd (convert_changes hub (page_changes pg) w1)) pgs start w' \<Longrightarrow>
    drive_pages hub token w (pg # pgs) start w'"

text \<open>The file a change asks to download, if any.\<close>

definition wanted_item :: "GChange \<Rightarrow> CloudItem option" where
  "wanted_item change = (case (gc_file_id change, gc_file change) of
     (Some _, Some fl) \<Rightarrow> (if gc_removed change = Some True \<or> gf_trashed fl = Some True then None
        else case file_to_cloud_item fl of Ok item \<Rightarrow> if ci_is_folder item then None else Some item | _ \<Rightarrow> None)
   | _ \<Rightarrow> None)"

lemma changed_files_convert:
  "changed_files (fst (convert_changes hub changes w)) = List.map_filter wanted_item changes"
proof (induction hub changes w rule: convert_changes.induct)
  case (2 hub change changes w)
  obtain t w1 where t: "(case gc_time change of Some t \<Rightarrow> (t, w) | None \<Rightarrow> hub_now hub w) = (t, w1)" by fastforce
  show ?case
  proof (cases "gc_file_id change")
    case None
    then show ?thesis using 2 by (simp add: wanted_item_def List.map_filter_def)
  next
    case (Some i)
    show ?thesis
    proof (cases "change_item change")
      case None
      then have "wanted_item change = None"
        by (auto simp: wanted_item_def change_item_def change_is_deleted_def split: if_splits option.splits outcome.splits)
      then show ?thesis using None Some "2.IH"(2) [OF Some None] by (simp add: List.map_filter_def)
    next
      case item: (Some item)
      have "changed_files (fst (convert_changes hub changes w1)) = List.map_filter wanted_item changes"
        using "2.IH"(3) [OF Some item t [symmetric]] .
      moreover have "changed_file \<lparr> ch_item = item, ch_file_id = FileId i, ch_deleted = change_is_deleted change,
          ch_timestamp = t \<rparr> = wanted_item change"
        using Some item
        by (auto simp: wanted_item_def change_item_def changed_file_def change_is_deleted_def split: if_splits option.splits outcome.splits)
      moreover obtain rest w2 where "convert_changes hub changes w1 = (rest, w2)" by fastforce
      ultimately show ?thesis using Some item t by (simp add: List.map_filter_def split: option.splits)
    qed
  qed
qed (simp add: List.map_filter_def)

lemma gdrive_page:
  assumes "hub_list_changes hub token w = (Ok pg, w1)" and "next_cursor pg = Ok (cursor, has_more)"
  shows "cp_get_changes (gdrive_provider hub io parse) (Some token) w =
    (Ok \<lparr> cl_changes = fst (convert_changes hub (page_changes pg) w1), cl_cursor = cursor, cl_has_more = has_more \<rparr>,
     snd (convert_changes hub (page_changes pg) w1))"
  using assms by (auto simp: gdrive_provider_def gdrive_get_changes_def bindS_def page_changes_def split: option.splits prod.splits)

text \<open>A page of the provider that was made from one of the library.\<close>

definition converted_page :: "'w hub \<Rightarrow> ChangeList \<Rightarrow> GChangeList \<Rightarrow> bool" where
  "converted_page hub page pg \<longleftrightarrow> (\<exists>w. cl_changes page = fst (convert_changes hub (page_changes pg) w))"

lemma converted_pageI: "cl_changes page = fst (convert_changes hub (page_changes pg) w) \<Longrightarrow> converted_page hub page pg"
  by (auto simp: converted_page_def)

lemma converted_changed_files:
  "list_all2 (converted_page hub) pages pgs \<Longrightarrow>
   changed_files (concat (map cl_changes pages)) = List.map_filter wanted_item (concat (map page_changes pgs))"
  by (induction rule: list_all2_induct) (auto simp: converted_page_def changed_files_convert List.map_filter_def)

lemma drive_pages_feed:
  assumes "drive_pages hub token w pgs start w'"
  shows "\<exists>pages. change_feed (gdrive_provider hub io parse) (Some token) w pages (Ok start) w' \<and>
    list_all2 (converted_page hub) pages pgs"
  using assms
proof (induction rule: drive_pages.induct)
  case (final_page token w pg w1 start)
  let ?page = "\<lparr> cl_changes = fst (convert_changes hub (page_changes pg) w1), cl_cursor = start, cl_has_more = False \<rparr>"
  have "cp_get_changes (gdrive_provider hub io parse) (Some token) w =
      (Ok ?page, snd (convert_changes hub (page_changes pg) w1))"
    using final_page by (intro gdrive_page) (simp_all add: next_cursor_def)
  from change_feed.last_page [OF this] show ?case
    by (intro exI [of _ "[?page]"]) (auto intro: converted_pageI)
next
  case (another_page token w pg w1 next_token pgs start w')
  let ?page = "\<lparr> cl_changes = fst (convert_changes hub (page_changes pg) w1), cl_cursor = next_token, cl_has_more = True \<rparr>"
  have "cp_get_changes (gdrive_provider hub io parse) (Some token) w =
      (Ok ?page, snd (convert_changes hub (page_changes pg) w1))"
    using another_page.hyps by (intro gdrive_page) (simp_all add: next_cursor_def)
  then have page: "change_feed (gdrive_provider hub io parse) (Some next_token) (snd (convert_changes hub (page_changes pg) w1)) pages r v \<Longrightarrow>
      change_feed (gdrive_provider hub io parse) (Some token) w (?page # pages) r v" for pages r v
    using change_feed.next_page [of "gdrive_provider hub io parse" "Some token" w ?page] by simp
  obtain pages where "change_feed (gdrive_provider hub io parse) (Some next_token)
      (snd (convert_changes hub (page_changes pg) w1)) pages (Ok start) w'"
    "list_all2 (converted_page hub) pages pgs"
    using another_page.IH by blast
  with page show ?case
    by (intro exI [of _ "?page # pages"]) (auto intro: converted_pageI)
qed

text \<open>A drive with two pages of changes and a file whose body breaks off.\<close>

definition sample_gfile :: "string \<Rightarrow> string \<Rightarrow> GFile" where
  "sample_gfile i nm = \<lparr> gf_id = Some i, gf_name = Some nm, gf_mime_type = Some ''text/plain'', gf_size = Some 3,
     gf_md5_checksum = None, gf_modified_time = Some 0, gf_created_time = None, gf_trashed = Some False \<rparr>"

definition sample_gpage :: "string \<Rightarrow> GChangeList" where
  "sample_gpage token = (if token = ''1''
     then \<lparr> gcl_changes = Some [\<lparr> gc_file_id = Some ''a'', gc_removed = Some False, gc_file = Some (sample_gfile ''a'' ''x''), gc_time = Some 0 \<rparr>,
              \<lparr> gc_file_id = Some ''b'', gc_removed = Some True, gc_file = None, gc_time = Some 0 \<rparr>],
            gcl_next_page_token = Some ''2'', gcl_new_start_page_token = None \<rparr>
     else \<lparr> gcl_changes = Some [\<lparr> gc_file_id = Some ''c'', gc_removed = None, gc_file = Some (sample_gfile ''c'' ''y''), gc_time = Some 0 \<rparr>],
            gcl_next_page_token = None, gcl_new_start_page_token = Some ''3'' \<rparr>)"

definition sample_hub :: "unit hub" where
  "sample_hub = \<lparr> hub_list_files = (\<lambda>q f w. (Ok \<lparr> gl_files = Some [sample_gfile ''a'' ''x''], gl_next_page_token = None \<rparr>, w)),
     hub_get_metadata = (\<lambda>i f w. (Ok (sample_gfile i ''x''), w)),
     hub_get_media = (\<lambda>i w. (Ok [DataFrame [1, 2], TrailersFrame, DataFrame [3], BrokenFrame ''reset'', DataFrame [4]], w)),
     hub_start_page_token = (\<lambda>w. (Ok (Some ''1''), w)), hub_list_changes = (\<lambda>token w. (Ok (sample_gpage token), w)),
     hub_now = (\<lambda>w. (0, w)) \<rparr>"

definition sample_gdrive_engine :: "unit SyncEngine" where
  "sample_gdrive_engine = \<lparr> eg_provider = gdrive_provider sample_hub plain_io (\<lambda>u. Some u), eg_account_id = AccountId ''acc'' \<rparr>"

section \<open>Properties of the provider and of the engine on it\<close>

text \<open>
  C12: When Google Drive hands out pages of changes from a token on, the engine's refresh from that
  token queues exactly one download for every change, on any page and in feed order, that has
  a file identifier, is neither a removal nor of a trashed file, and carries a readable file
  that is not a folder; it reports their number and the token to start from next time.
\<close>

theorem gdrive_refresh_complete:
  assumes "drive_pages hub token (es_world st) pgs start w'" and "eg_provider eg = gdrive_provider hub io parse"
  shows "\<exists>ops s'. refresh_sync env eg (Some token) st =
       Some (Ok (length ops, start), st\<lparr> es_queue := push_all ops (es_queue st), es_sys := s', es_world := w' \<rparr>) \<and>
     list_all2 (downloads_item Normal (eg_account_id eg)) (List.map_filter wanted_item (concat (map page_changes pgs))) ops"
proof -
  obtain pages where pages: "change_feed (eg_provider eg) (Some token) (es_world st) pages (Ok start) w'"
    "changed_files (concat (map cl_changes pages)) = List.map_filter wanted_item (concat (map page_changes pgs))"
    using drive_pages_feed [OF assms(1), of io parse] assms(2) converted_changed_files by auto
  from refresh_loop_feed [OF pages(1) refl, of env 0] pages(2) show ?thesis
    by (simp add: refresh_sync_def refresh_result_def)
qed

theorem gdrive_refresh_complete_witness:
  "\<exists>ops s'. refresh_sync sample_sys sample_gdrive_engine (Some ''1'') (sample_state []) =
       Some (Ok (length ops, ''3''), (sample_state [])\<lparr> es_queue := push_all ops [], es_sys := s' \<rparr>) \<and>
     length ops = 2"
proof -
  let ?w = "es_world (sample_state [])"
  have "drive_pages sample_hub ''1'' ?w [sample_gpage ''1'', sample_gpage ''2''] ''3'' ?w"
    using drive_pages.another_page [of sample_hub "''1''" ?w "sample_gpage ''1''" ?w "''2''" "[sample_gpage ''2'']" "''3''" ?w]
      drive_pages.final_page [of sample_hub "''2''" ?w "sample_gpage ''2''" ?w "''3''"]
    by (simp add: sample_hub_def sample_gpage_def page_changes_def change_item_def change_is_deleted_def sample_gfile_def
        file_to_cloud_item_def)
  from gdrive_refresh_complete [OF this, of sample_gdrive_engine plain_io "\<lambda>u. Some u" sample_sys]
  obtain ops s' where ops: "refresh_sync sample_sys sample_gdrive_engine (Some ''1'') (sample_state []) =
      Some (Ok (length ops, ''3''), (sample_state [])\<lparr> es_queue := push_all ops [], es_sys := s', es_world := ?w \<rparr>)"
    "list_all2 (downloads_item Normal (AccountId ''acc''))
      (List.map_filter wanted_item (concat (map page_changes [sample_gpage ''1'', sample_gpage ''2'']))) ops"
    by (auto simp: sample_gdrive_engine_def sample_state_def)
  have "length (List.map_filter wanted_item (concat (map page_changes [sample_gpage ''1'', sample_gpage ''2'']))) = 2"
    by (simp add: sample_gpage_def page_changes_def wanted_item_def change_is_deleted_def sample_gfile_def
        file_to_cloud_item_def List.map_filter_def)
  with ops list_all2_lengthD [OF ops(2)] show ?thesis by (fastforce simp: sample_state_def)
qed

end
