(* ===== verification/Token_Storage.thy ===== *)
theory Token_Storage
  imports Gdrive
begin

text \<open>
  \<open>SecureTokenStorage\<close> (\<open>cloudsync-providers/src/gdrive/token_storage.rs\<close>): access tokens by
  the scopes they are good for, cached in memory and kept as one JSON text in the system
  keyring, in a file, or in the file when the keyring fails. The keyring and \<open>serde_json\<close> are
  parameters.
\<close>

section \<open>The storage\<close>

record StoredToken =
  tk_scopes :: "string list"
  tk_token_info :: string

datatype StorageBackend =
    Keyring string string
  | FileBackend PathBuf
  | KeyringWithFallback string string PathBuf

text \<open>An entry of the keyring; \<open>None\<close> is \<open>keyring::Error::NoEntry\<close>.\<close>

record 'w keyring =
  kr_set_password :: "string \<Rightarrow> string \<Rightarrow> string \<Rightarrow> ('w world, unit, string) st"
  kr_get_password :: "string \<Rightarrow> string \<Rightarrow> ('w world, string option, string) st"

text \<open>What the storage is made of: the surroundings and the texts of a token and of a list of tokens.\<close>

record ('t, 'w) token_env =
  te_io :: "'w io"
  te_keyring :: "'w keyring"
  te_token_to_json :: "'t \<Rightarrow> (string, string) outcome"
  te_token_from_json :: "string \<Rightarrow> ('t, string) outcome"
  te_list_to_json :: "StoredToken list \<Rightarrow> (string, string) outcome"
  te_list_from_json :: "string \<Rightarrow> (StoredToken list, string) outcome"

record 'w token_state =
  tks_cache :: "StoredToken list"
  tks_world :: "'w world"

definition scopes_covered_by :: "string list \<Rightarrow> string list \<Rightarrow> bool" where
  "scopes_covered_by available_scopes required_scopes \<longleftrightarrow> list_all (\<lambda>req. req \<in> set available_scopes) required_scopes"

text \<open>The key is computed and then ignored by every backend.\<close>

definition scopes_key :: "string list \<Rightarrow> string" where
  "scopes_key scopes = ''token:'' @ intercalate CHR '','' (sort_key (\<lambda>x. x) scopes)"

section \<open>Backends\<close>

definition store_in_file :: "'w io \<Rightarrow> PathBuf \<Rightarrow> string \<Rightarrow> ('w world, unit, string) st" where
  "store_in_file io path val = fs_write io path val"

text \<open>A missing file is not an error; a file that is not UTF-8 is one.\<close>

definition retrieve_from_file :: "'w io \<Rightarrow> PathBuf \<Rightarrow> ('w world, string option, string) st" where
  "retrieve_from_file io path w = (case read_to_string io path w of
     Ok content \<Rightarrow> Ok (Some content)
   | Err (not_found, e) \<Rightarrow> if not_found then Ok None else Err e
   | Panicked \<Rightarrow> Panicked, w)"

definition store_token :: "('t, 'w) token_env \<Rightarrow> StorageBackend \<Rightarrow> string \<Rightarrow> string \<Rightarrow> ('w world, unit, string) st" where
  "store_token env backend entry_key val = (case backend of
     Keyring service_name username \<Rightarrow> kr_set_password (te_keyring env) service_name username val
   | FileBackend path \<Rightarrow> store_in_file (te_io env) path val
   | KeyringWithFallback service_name username fallback_path \<Rightarrow>
       (\<lambda>w. case kr_set_password (te_keyring env) service_name username val w of
          (Ok _, w') \<Rightarrow> (Ok (), w')
        | (Err _, w') \<Rightarrow> store_in_file (te_io env) fallback_path val w'
        | (Panicked, w') \<Rightarrow> (Panicked, w')))"

definition retrieve_token :: "('t, 'w) token_env \<Rightarrow> StorageBackend \<Rightarrow> string \<Rightarrow> ('w world, string option, string) st" where
  "retrieve_token env backend entry_key = (case backend of
     Keyring service_name username \<Rightarrow> kr_get_password (te_keyring env) service_name username
   | FileBackend path \<Rightarrow> retrieve_from_file (te_io env) path
   | KeyringWithFallback service_name username fallback_path \<Rightarrow>
       (\<lambda>w. case kr_get_password (te_keyring env) service_name username w of
          (Ok (Some val), w') \<Rightarrow> (Ok (Some val), w')
        | (Ok None, w') \<Rightarrow> retrieve_from_file (te_io env) fallback_path w'
        | (Err _, w') \<Rightarrow> retrieve_from_file (te_io env) fallback_path w'
        | (Panicked, w') \<Rightarrow> (Panicked, w')))"

definition in_world :: "('w world, 'a, 'e) st \<Rightarrow> ('w token_state, 'a, 'e) st" where
  "in_world m s = (case m (tks_world s) of (r, w) \<Rightarrow> (r, s\<lparr> tks_world := w \<rparr>))"

section \<open>Setting and getting tokens\<close>

text \<open>The cache after a new token: what covers its scopes goes, the new one comes last.\<close>

definition replace_token :: "string list \<Rightarrow> string \<Rightarrow> StoredToken list \<Rightarrow> StoredToken list" where
  "replace_token scopes token_json cache =
     filter (\<lambda>t. \<not> scopes_covered_by (tk_scopes t) scopes) cache @ [\<lparr> tk_scopes = scopes, tk_token_info = token_json \<rparr>]"

text \<open>\<open>store\<close> and \<open>retrieve\<close> are the backend's.\<close>

definition token_set_with ::
  "('t, 'w) token_env \<Rightarrow> (string \<Rightarrow> ('w world, unit, string) st) \<Rightarrow> string list \<Rightarrow> 't \<Rightarrow> ('w token_state, unit, string) st" where
  "token_set_with env store scopes token =
     bindS (liftS (te_token_to_json env token)) (\<lambda>token_json.
     bindS (\<lambda>s. let cache = replace_token scopes token_json (tks_cache s) in (Ok cache, s\<lparr> tks_cache := cache \<rparr>)) (\<lambda>cache.
     bindS (liftS (te_list_to_json env cache)) (\<lambda>all_tokens_json.
     in_world (store all_tokens_json))))"

definition token_set ::
  "('t, 'w) token_env \<Rightarrow> StorageBackend \<Rightarrow> string list \<Rightarrow> 't \<Rightarrow> ('w token_state, unit, string) st" where
  "token_set env backend scopes token = token_set_with env (store_token env backend (scopes_key scopes)) scopes token"

text \<open>The first token that covers the scopes and can be read.\<close>

fun find_token :: "(string \<Rightarrow> ('t, string) outcome) \<Rightarrow> string list \<Rightarrow> StoredToken list \<Rightarrow> 't option" where
  "find_token parse scopes [] = None"
| "find_token parse scopes (t # ts) =
     (if scopes_covered_by (tk_scopes t) scopes
      then (case parse (tk_token_info t) of Ok x \<Rightarrow> Some x | _ \<Rightarrow> find_token parse scopes ts)
      else find_token parse scopes ts)"

definition token_get_with ::
  "('t, 'w) token_env \<Rightarrow> ('w world, string option, string) st \<Rightarrow> string list \<Rightarrow> 'w token_state \<Rightarrow> 't option \<times> 'w token_state" where
  "token_get_with env retrieve scopes s =
     (case find_token (te_token_from_json env) scopes (tks_cache s) of
        Some x \<Rightarrow> (Some x, s)
      | None \<Rightarrow> (case in_world retrieve s of
          (Ok (Some json), s') \<Rightarrow> (case te_list_from_json env json of
              Ok stored_tokens \<Rightarrow> (find_token (te_token_from_json env) scopes stored_tokens, s'\<lparr> tks_cache := stored_tokens \<rparr>)
            | _ \<Rightarrow> (None, s'))
        | (_, s') \<Rightarrow> (None, s')))"

definition token_get ::
  "('t, 'w) token_env \<Rightarrow> StorageBackend \<Rightarrow> string list \<Rightarrow> 'w token_state \<Rightarrow> 't option \<times> 'w token_state" where
  "token_get env backend scopes = token_get_with env (retrieve_token env backend (scopes_key scopes)) scopes"

text \<open>\<open>new_keyring\<close>, \<open>new_file\<close> and \<open>new_with_fallback\<close> start with an empty cache.\<close>

definition token_state_new :: "'w world \<Rightarrow> 'w token_state" where
  "token_state_new w = \<lparr> tks_cache = [], tks_world = w \<rparr>"

section \<open>What a client relies on\<close>

text \<open>A store gives back what was last stored in it, for the texts it can hold.\<close>

locale secret_store =
  fixes store :: "string \<Rightarrow> ('w world, unit, string) st"
    and retrieve :: "('w world, string option, string) st"
    and holds :: "string \<Rightarrow> bool"
  assumes retrieve_stored: "holds v \<Longrightarrow> store v w = (Ok (), w') \<Longrightarrow> retrieve w' = (Ok (Some v), w')"

lemma find_token_append:
  "find_token parse scopes (ts @ us) =
     (case find_token parse scopes ts of Some x \<Rightarrow> Some x | None \<Rightarrow> find_token parse scopes us)"
  by (induction ts) (auto split: outcome.splits)

lemma find_token_uncovered:
  "\<forall>t \<in> set ts. \<not> scopes_covered_by (tk_scopes t) scopes \<Longrightarrow> find_token parse scopes ts = None"
  by (induction ts) simp_all

lemma covered_iff: "scopes_covered_by a r \<longleftrightarrow> set r \<subseteq> set a"
  by (auto simp: scopes_covered_by_def list_all_iff)

lemma find_replaced:
  "set req = set scopes \<Longrightarrow> parse j = Ok x \<Longrightarrow> find_token parse req (replace_token scopes j cache) = Some x"
  by (simp add: replace_token_def find_token_append find_token_uncovered covered_iff)

lemma token_set_with_result:
  assumes "token_set_with env store scopes x s = (Ok (), s')"
  shows "\<exists>j json. te_token_to_json env x = Ok j \<and> te_list_to_json env (replace_token scopes j (tks_cache s)) = Ok json \<and>
    tks_cache s' = replace_token scopes j (tks_cache s) \<and> store json (tks_world s) = (Ok (), tks_world s')"
proof (cases "te_token_to_json env x")
  case (Ok j)
  then show ?thesis
  proof (cases "te_list_to_json env (replace_token scopes j (tks_cache s))")
    case ok2: (Ok json)
    with Ok assms show ?thesis
      by (cases "store json (tks_world s)") (auto simp: token_set_with_def bindS_def in_world_def Let_def)
  qed (use Ok assms in \<open>simp_all add: token_set_with_def bindS_def Let_def\<close>)
qed (use assms in \<open>simp_all add: token_set_with_def bindS_def\<close>)

text \<open>The codecs read what they wrote, for the token and the lists at hand.\<close>

definition codecs_exact :: "('t, 'w) token_env \<Rightarrow> (string \<Rightarrow> bool) \<Rightarrow> 't \<Rightarrow> bool" where
  "codecs_exact env holds x \<longleftrightarrow> (\<forall>j. te_token_to_json env x = Ok j \<longrightarrow> te_token_from_json env j = Ok x) \<and>
     (\<forall>l json. te_list_to_json env l = Ok json \<longrightarrow> te_list_from_json env json = Ok l \<and> holds json)"

context secret_store
begin

lemma get_after_set:
  assumes "codecs_exact env holds x" and "token_set_with env store scopes x s = (Ok (), s')" and "set req = set scopes"
  shows "token_get_with env retrieve req s' = (Some x, s')"
    and "token_get_with env retrieve req (token_state_new (tks_world s')) = (Some x, s')"
proof -
  obtain j json where j: "te_token_from_json env j = Ok x" "te_list_from_json env json = Ok (tks_cache s')" "holds json"
    "tks_cache s' = replace_token scopes j (tks_cache s)" "store json (tks_world s) = (Ok (), tks_world s')"
    using token_set_with_result [OF assms(2)] assms(1) unfolding codecs_exact_def by metis
  have found: "find_token (te_token_from_json env) req (tks_cache s') = Some x"
    using find_replaced [where parse = "te_token_from_json env", OF assms(3) j(1)] j(4) by simp
  then show "token_get_with env retrieve req s' = (Some x, s')" by (simp add: token_get_with_def)
  show "token_get_with env retrieve req (token_state_new (tks_world s')) = (Some x, s')"
    using retrieve_stored [OF j(3,5)] j(2) found by (simp add: token_get_with_def token_state_new_def in_world_def)
qed

text \<open>Tokens whose scopes cover the new one's are forgotten, also for what only they were good for.\<close>

lemma set_forgets:
  assumes "codecs_exact env holds x" and "token_set_with env store scopes x s = (Ok (), s')"
    and "\<not> set req \<subseteq> set scopes"
    and "\<forall>t \<in> set (tks_cache s). set req \<subseteq> set (tk_scopes t) \<longrightarrow> set scopes \<subseteq> set (tk_scopes t)"
  shows "token_get_with env retrieve req s' = (None, s')"
proof -
  obtain j json where j: "te_list_from_json env json = Ok (tks_cache s')" "holds json"
    "tks_cache s' = replace_token scopes j (tks_cache s)" "store json (tks_world s) = (Ok (), tks_world s')"
    using token_set_with_result [OF assms(2)] assms(1) unfolding codecs_exact_def by metis
  have "\<forall>t \<in> set (tks_cache s'). \<not> scopes_covered_by (tk_scopes t) req"
    using assms(3,4) j(3) by (auto simp: replace_token_def covered_iff)
  then have "find_token (te_token_from_json env) req (tks_cache s') = None" by (rule find_token_uncovered)
  then show ?thesis
    using retrieve_stored [OF j(2,4)] j(1) by (simp add: token_get_with_def in_world_def)
qed

end

section \<open>The backends are such stores\<close>

lemma retrieve_stored_file:
  assumes "no_io_faults io" "utf8_text v" "store_in_file io path v w = (Ok (), w')"
  shows "retrieve_from_file io path w' = (Ok (Some v), w')"
  using read_written [OF assms(1,2)] assms(3) by (simp add: store_in_file_def retrieve_from_file_def)

interpretation file_store: secret_store "store_in_file io path" "retrieve_from_file io path"
  "\<lambda>v. no_io_faults io \<and> utf8_text v" for io :: "'w io" and path
  by unfold_locales (rule retrieve_stored_file, auto)

text \<open>A keyring that gives back what it stored; one that refused to store finds nothing.\<close>

definition keyring_works :: "'w keyring \<Rightarrow> bool" where
  "keyring_works kr \<longleftrightarrow> (\<forall>s u v w w'. kr_set_password kr s u v w = (Ok (), w') \<longrightarrow> kr_get_password kr s u w' = (Ok (Some v), w'))"

definition keyring_off :: "'w keyring \<Rightarrow> bool" where
  "keyring_off kr \<longleftrightarrow> (\<forall>s u v w. (\<exists>e. kr_set_password kr s u v w = (Err e, w)) \<and> (\<exists>e. kr_get_password kr s u w = (Err e, w)))"

interpretation keyring_store: secret_store "kr_set_password kr s u" "kr_get_password kr s u" "\<lambda>_. keyring_works kr"
  for kr :: "'w keyring" and s u
  by unfold_locales (simp add: keyring_works_def)

text \<open>When a backend is such a store: the two of the fallback must not disagree.\<close>

fun backend_works :: "('t, 'w) token_env \<Rightarrow> StorageBackend \<Rightarrow> bool" where
  "backend_works env (Keyring _ _) = keyring_works (te_keyring env)"
| "backend_works env (FileBackend _) = no_io_faults (te_io env)"
| "backend_works env (KeyringWithFallback s u _) =
     (keyring_off (te_keyring env) \<and> no_io_faults (te_io env) \<or>
      keyring_works (te_keyring env) \<and> (\<forall>v w. \<exists>w'. kr_set_password (te_keyring env) s u v w = (Ok (), w')))"

interpretation backend_store: secret_store "store_token env backend entry_key" "retrieve_token env backend entry_key"
  "\<lambda>v. backend_works env backend \<and> utf8_text v" for env :: "('t, 'w) token_env" and backend entry_key
proof unfold_locales
  fix v w w'
  assume works: "backend_works env backend \<and> utf8_text v" and stored: "store_token env backend entry_key v w = (Ok (), w')"
  show "retrieve_token env backend entry_key w' = (Ok (Some v), w')"
  proof (cases backend)
    case (Keyring s u)
    with works stored show ?thesis
      using keyring_store.retrieve_stored [of "te_keyring env"] by (simp add: store_token_def retrieve_token_def)
  next
    case (FileBackend p)
    with works stored show ?thesis
      using file_store.retrieve_stored [of "te_io env"] by (simp add: store_token_def retrieve_token_def)
  next
    case (KeyringWithFallback s u p)
    with works consider "keyring_off (te_keyring env)" "no_io_faults (te_io env)"
      | "keyring_works (te_keyring env)" "\<exists>w1. kr_set_password (te_keyring env) s u v w = (Ok (), w1)" by auto
    then show ?thesis
    proof cases
      case 1
      obtain e f where off: "kr_set_password (te_keyring env) s u v w = (Err e, w)"
        "kr_get_password (te_keyring env) s u w' = (Err f, w')" using 1(1) unfolding keyring_off_def by blast
      with stored KeyringWithFallback have "store_in_file (te_io env) p v w = (Ok (), w')" by (simp add: store_token_def)
      with off works 1(2) KeyringWithFallback show ?thesis
        using file_store.retrieve_stored [of "te_io env" v p w w'] by (simp add: retrieve_token_def)
    next
      case 2
      with stored KeyringWithFallback have "kr_set_password (te_keyring env) s u v w = (Ok (), w')"
        by (auto simp: store_token_def)
      with 2(1) KeyringWithFallback show ?thesis
        using keyring_store.retrieve_stored [of "te_keyring env" s u v w w'] by (simp add: retrieve_token_def)
    qed
  qed
qed

section \<open>Properties of the token storage\<close>

text \<open>A storage of tokens that are texts, in the file \<open>/t\<close>.\<close>

definition sample_tokens :: "StoredToken list" where
  "sample_tokens = [\<lparr> tk_scopes = [''a''], tk_token_info = ''t'' \<rparr>]"

definition sample_token_env :: "(string, unit) token_env" where
  "sample_token_env = \<lparr> te_io = plain_io,
     te_keyring = \<lparr> kr_set_password = (\<lambda>_ _ _ w. (Err ''no keyring'', w)), kr_get_password = (\<lambda>_ _ w. (Err ''no keyring'', w)) \<rparr>,
     te_token_to_json = Ok, te_token_from_json = Ok,
     te_list_to_json = (\<lambda>l. if l = sample_tokens then Ok ''[t]'' else Err ''unsupported''),
     te_list_from_json = (\<lambda>_. Ok sample_tokens) \<rparr>"

definition sample_token_state :: "unit token_state" where
  "sample_token_state = \<lparr> tks_cache = [\<lparr> tk_scopes = [''a'', ''b''], tk_token_info = ''u'' \<rparr>],
     tks_world = \<lparr> w_disk = Map.empty, w_outer = () \<rparr> \<rparr>"

definition sample_token_state' :: "unit token_state" where
  "sample_token_state' = \<lparr> tks_cache = sample_tokens,
     tks_world = \<lparr> w_disk = [[''t''] \<mapsto> FileN (map byte_of ''[t]'')], w_outer = () \<rparr> \<rparr>"

lemma sample_token_works [simp]:
  "backend_works sample_token_env (KeyringWithFallback ''s'' ''u'' ''/t'')" "codecs_exact sample_token_env utf8_text x"
  by (simp_all add: sample_token_env_def keyring_off_def no_io_faults_def plain_io_def codecs_exact_def utf8_text_def)

lemma sample_token_set [simp]:
  "token_set sample_token_env (KeyringWithFallback ''s'' ''u'' ''/t'') [''a''] ''t'' sample_token_state = (Ok (), sample_token_state')"
proof -
  have "replace_token [''a''] ''t'' (tks_cache sample_token_state) = sample_tokens"
    by (simp add: sample_token_state_def replace_token_def scopes_covered_by_def sample_tokens_def)
  moreover have "store_in_file plain_io ''/t'' ''[t]'' (tks_world sample_token_state) = (Ok (), tks_world sample_token_state')"
    by (simp add: sample_token_state_def sample_token_state'_def store_in_file_def fs_write_def file_create_def file_write_all_def plain_io_def
        file_bytes_def path_components_def path_is_absolute_def starts_with_def piece_components_def is_dir_at_def bindS_def)
  ultimately show ?thesis
    by (simp add: token_set_def token_set_with_def sample_token_env_def bindS_def Let_def in_world_def store_token_def)
      (simp add: sample_token_state'_def sample_token_state_def)
qed

lemma store_ignores_key: "store_token env backend k = store_token env backend k'"
  "retrieve_token env backend k = retrieve_token env backend k'"
  by (simp_all add: fun_eq_iff store_token_def retrieve_token_def)

lemma codecs_exact_holds:
  "codecs_exact env utf8_text x \<Longrightarrow> P \<Longrightarrow> codecs_exact env (\<lambda>v. P \<and> utf8_text v) x"
  by (simp add: codecs_exact_def)

text \<open>
  C27: On a keyring, a file or a fallback that works, a token that was stored for some scopes is
  what a later request for the same scopes gets, in whatever order it names them, in the same
  process and after a restart that lost the cache in memory.
\<close>

theorem token_survives_restart:
  assumes "backend_works env backend" and "codecs_exact env utf8_text x"
    and "token_set env backend scopes x s = (Ok (), s')" and "set req = set scopes"
  shows "token_get env backend req s' = (Some x, s') \<and>
    token_get env backend req (token_state_new (tks_world s')) = (Some x, s')"
  using backend_store.get_after_set [OF codecs_exact_holds [OF assms(2,1)] assms(3) [unfolded token_set_def] assms(4)]
    store_ignores_key(2) [of env backend "scopes_key scopes" "scopes_key req"]
  by (simp add: token_get_def)

theorem token_survives_restart_witness:
  "token_get sample_token_env (KeyringWithFallback ''s'' ''u'' ''/t'') [''a'', ''a''] (token_state_new (tks_world sample_token_state')) =
    (Some ''t'', sample_token_state')"
  using token_survives_restart [OF sample_token_works sample_token_set, of "[''a'', ''a'']"] by simp

text \<open>
  Storing a token drops every stored token whose scopes include the new one's: a request for
  scopes that only such tokens covered finds nothing any more, in memory or in the backend,
  although the dropped token was good for it.
\<close>

lemma token_set_forgets_broader:
  assumes "backend_works env backend" and "codecs_exact env utf8_text x"
    and "token_set env backend scopes x s = (Ok (), s')" and "\<not> set req \<subseteq> set scopes"
    and "\<forall>t \<in> set (tks_cache s). set req \<subseteq> set (tk_scopes t) \<longrightarrow> set scopes \<subseteq> set (tk_scopes t)"
  shows "token_get env backend req s' = (None, s')"
  using backend_store.set_forgets [OF codecs_exact_holds [OF assms(2,1)] assms(3) [unfolded token_set_def] assms(4,5)]
    store_ignores_key(2) [of env backend "scopes_key scopes" "scopes_key req"]
  by (simp add: token_get_def)

end
