(* ===== verification/Gdrive_Auth.thy ===== *)
theory Gdrive_Auth
  imports Token_Storage
begin

text \<open>
  The OAuth settings and the client of Google Drive (\<open>gdrive/oauth.rs\<close>, \<open>gdrive/client.rs\<close>) and
  the part of the provider that rests on them. The flow itself is the \<open>yup-oauth2\<close> crate's:
  reading a secrets file, building an authenticator and asking it for a token are parameters;
  what the code decides is what it asks them for.
\<close>

section \<open>Settings\<close>

datatype OAuthError =
    AuthenticatorBuild string
  | SecretRead string
  | InvalidSecret string
  | FlowError string

fun oauth_error_str :: "OAuthError \<Rightarrow> string" where
  "oauth_error_str (AuthenticatorBuild m) = ''Failed to build authenticator: '' @ m"
| "oauth_error_str (SecretRead e) = ''Failed to read application secret: '' @ e"
| "oauth_error_str (InvalidSecret e) = ''Invalid application secret format: '' @ e"
| "oauth_error_str (FlowError m) = ''OAuth flow error: '' @ m"

record OAuthConfig =
  oc_client_id :: string
  oc_client_secret :: string
  oc_redirect_uri :: string
  oc_scopes :: "string list"

definition oauth_config_new :: "string \<Rightarrow> string \<Rightarrow> string \<Rightarrow> string list \<Rightarrow> OAuthConfig" where
  "oauth_config_new client_id client_secret redirect_uri scopes =
     \<lparr> oc_client_id = client_id, oc_client_secret = client_secret, oc_redirect_uri = redirect_uri, oc_scopes = scopes \<rparr>"

definition drive_scopes :: "string list" where
  "drive_scopes =
     [''https://www.googleapis.com/auth/drive.file'', ''https://www.googleapis.com/auth/drive.metadata.readonly'']"

definition default_gdrive :: "string \<Rightarrow> string \<Rightarrow> OAuthConfig" where
  "default_gdrive client_id client_secret =
     \<lparr> oc_client_id = client_id, oc_client_secret = client_secret, oc_redirect_uri = ''http://localhost:8080'',
       oc_scopes = drive_scopes \<rparr>"

text \<open>The fields of \<open>yup_oauth2::ApplicationSecret\<close> that the code sets or reads.\<close>

record ApplicationSecret =
  as_client_id :: string
  as_client_secret :: string
  as_token_uri :: string
  as_auth_uri :: string
  as_redirect_uris :: "string list"

definition to_application_secret :: "OAuthConfig \<Rightarrow> ApplicationSecret" where
  "to_application_secret c =
     \<lparr> as_client_id = oc_client_id c, as_client_secret = oc_client_secret c,
       as_token_uri = ''https://oauth2.googleapis.com/token'',
       as_auth_uri = ''https://accounts.google.com/o/oauth2/auth'', as_redirect_uris = [oc_redirect_uri c] \<rparr>"

section \<open>The authenticator\<close>

text \<open>
  What is asked of the library when an authenticator is built: where it keeps its tokens, with
  \<open>InMemory\<close> its default, and how the authorisation code comes back.
\<close>

datatype InstalledFlowReturnMethod = Interactive | HTTPRedirect

datatype 't token_store = InMemory | PersistToDisk PathBuf | CustomStorage 't

record ('t, 'a, 'w) yup =
  yup_read_secret :: "PathBuf \<Rightarrow> ('w world, ApplicationSecret, string) st"
  yup_build :: "ApplicationSecret \<Rightarrow> InstalledFlowReturnMethod \<Rightarrow> 't token_store \<Rightarrow> ('w world, 'a, string) st"
  yup_token :: "'a \<Rightarrow> string list \<Rightarrow> ('w world, string, string) st"

definition from_secret_file :: "('t, 'a, 'w) yup \<Rightarrow> PathBuf \<Rightarrow> ('w world, OAuthConfig, OAuthError) st" where
  "from_secret_file yup path =
     bindS (map_errS SecretRead (yup_read_secret yup path)) (\<lambda>secret.
     returnS \<lparr> oc_client_id = as_client_id secret, oc_client_secret = as_client_secret secret,
       oc_redirect_uri = (case as_redirect_uris secret of uri # _ \<Rightarrow> uri | [] \<Rightarrow> ''http://localhost:8080''),
       oc_scopes = drive_scopes \<rparr>)"

record 't OAuthAuthenticatorBuilder =
  ob_config :: OAuthConfig
  ob_token_cache_path :: "PathBuf option"
  ob_custom_storage :: "'t option"
  ob_return_method :: InstalledFlowReturnMethod

definition oauth_builder_new :: "OAuthConfig \<Rightarrow> 't OAuthAuthenticatorBuilder" where
  "oauth_builder_new config =
     \<lparr> ob_config = config, ob_token_cache_path = None, ob_custom_storage = None, ob_return_method = HTTPRedirect \<rparr>"

definition with_token_cache :: "PathBuf \<Rightarrow> 't OAuthAuthenticatorBuilder \<Rightarrow> 't OAuthAuthenticatorBuilder" where
  "with_token_cache path b = b\<lparr> ob_token_cache_path := Some path \<rparr>"

definition with_custom_storage :: "'t \<Rightarrow> 't OAuthAuthenticatorBuilder \<Rightarrow> 't OAuthAuthenticatorBuilder" where
  "with_custom_storage storage b = b\<lparr> ob_custom_storage := Some storage \<rparr>"

definition with_return_method ::
  "InstalledFlowReturnMethod \<Rightarrow> 't OAuthAuthenticatorBuilder \<Rightarrow> 't OAuthAuthenticatorBuilder" where
  "with_return_method flow b = b\<lparr> ob_return_method := flow \<rparr>"

definition oauth_build :: "('t, 'a, 'w) yup \<Rightarrow> 't OAuthAuthenticatorBuilder \<Rightarrow> ('w world, 'a, OAuthError) st" where
  "oauth_build yup b =
     (let secret = to_application_secret (ob_config b);
          storage = (case ob_custom_storage b of
              Some s \<Rightarrow> CustomStorage s
            | None \<Rightarrow> (case ob_token_cache_path b of Some cache_path \<Rightarrow> PersistToDisk cache_path | None \<Rightarrow> InMemory))
      in map_errS AuthenticatorBuild (yup_build yup secret (ob_return_method b) storage))"

section \<open>The client\<close>

record 'a GoogleDriveClient =
  gc_authenticator :: 'a
  gc_scopes :: "string list"

definition gdrive_client_new ::
  "('t, 'a, 'w) yup \<Rightarrow> OAuthConfig \<Rightarrow> PathBuf option \<Rightarrow> InstalledFlowReturnMethod \<Rightarrow>
   ('w world, 'a GoogleDriveClient, OAuthError) st" where
  "gdrive_client_new yup config cache flow =
     (let builder = with_return_method flow (oauth_builder_new config);
          builder = (case cache of Some cache_path \<Rightarrow> with_token_cache cache_path builder | None \<Rightarrow> builder)
      in bindS (oauth_build yup builder) (\<lambda>authenticator.
         returnS \<lparr> gc_authenticator = authenticator, gc_scopes = oc_scopes config \<rparr>))"

definition gdrive_get_token :: "('t, 'a, 'w) yup \<Rightarrow> 'a GoogleDriveClient \<Rightarrow> ('w world, string, OAuthError) st" where
  "gdrive_get_token yup client = map_errS FlowError (yup_token yup (gc_authenticator client) (gc_scopes client))"

section \<open>The provider\<close>

text \<open>
  \<open>DriveHub::new\<close> is a parameter, as is the loading of the system's certificates, which may
  fail.
\<close>

record ('a, 'w) GoogleDriveProvider =
  gp_client :: "'a GoogleDriveClient"
  gp_hub :: "'w hub"

definition gdrive_provider_new ::
  "(unit, string) outcome \<Rightarrow> ('a \<Rightarrow> 'w hub) \<Rightarrow> 'a GoogleDriveClient \<Rightarrow> (('a, 'w) GoogleDriveProvider, CoreError) outcome" where
  "gdrive_provider_new native_roots drive_hub client =
     bindO (map_err (\<lambda>e. ConfigurationError (''Failed to create HTTPS connector: '' @ e)) native_roots) (\<lambda>_.
     Ok \<lparr> gp_client = client, gp_hub = drive_hub (gc_authenticator client) \<rparr>)"

definition gdrive_authenticate :: "string \<Rightarrow> ('w world, unit, CoreError) st" where
  "gdrive_authenticate auth_code = returnS ()"

definition gdrive_refresh_token ::
  "('t, 'a, 'w) yup \<Rightarrow> ('a, 'w) GoogleDriveProvider \<Rightarrow> ('w world, unit, CoreError) st" where
  "gdrive_refresh_token yup p =
     bindS (map_errS (\<lambda>e. Authentication (''Failed to refresh token: '' @ oauth_error_str e)) (gdrive_get_token yup (gp_client p)))
       (\<lambda>_. returnS ())"

section \<open>The whole provider\<close>

text \<open>
  The trait \<open>CloudProvider\<close> in full: beside what the engine and the filesystem call, the
  methods that nothing in the program calls yet. \<open>cp_download_reporting\<close> is \<open>download\<close> with a
  progress sender.
\<close>

record 'w FullCloudProvider = "'w CloudProvider" +
  cp_authenticate :: "string \<Rightarrow> ('w world, unit, CoreError) st"
  cp_refresh_token :: "('w world, unit, CoreError) st"
  cp_download_reporting :: "FileId \<Rightarrow> PathBuf \<Rightarrow> ('w download_state, unit, CoreError) st"
  cp_upload :: "PathBuf \<Rightarrow> CloudPath \<Rightarrow> ('w world, CloudItem, CoreError) st"
  cp_delete :: "FileId \<Rightarrow> ('w world, unit, CoreError) st"
  cp_move_item :: "FileId \<Rightarrow> CloudPath \<Rightarrow> ('w world, unit, CoreError) st"
  cp_create_share_link :: "FileId \<Rightarrow> ShareOptions \<Rightarrow> ('w world, string, CoreError) st"
  cp_get_metadata :: "FileId \<Rightarrow> ('w world, CloudItem, CoreError) st"
  cp_get_versions :: "FileId \<Rightarrow> ('w world, FileVersion list, CoreError) st"

definition gdrive_full_provider ::
  "('t, 'a, 'w) yup \<Rightarrow> 'w io \<Rightarrow> (string \<Rightarrow> string option) \<Rightarrow> ('a, 'w) GoogleDriveProvider \<Rightarrow> 'w FullCloudProvider" where
  "gdrive_full_provider yup io parse p = CloudProvider.extend (gdrive_provider (gp_hub p) io parse)
     (FullCloudProvider.fields gdrive_authenticate (gdrive_refresh_token yup p) (gdrive_download (gp_hub p) io parse)
        gdrive_upload gdrive_delete gdrive_move_item gdrive_create_share_link gdrive_get_metadata gdrive_get_versions)"

lemma gdrive_full_provider_truncate:
  "CloudProvider.truncate (gdrive_full_provider yup io parse p) = gdrive_provider (gp_hub p) io parse"
  by (simp add: gdrive_full_provider_def CloudProvider.defs FullCloudProvider.defs gdrive_provider_def)

text \<open>The methods that are not implemented fail, each in its own words, and touch nothing.\<close>

lemma gdrive_unimplemented:
  assumes "q = gdrive_full_provider yup io parse p"
  shows "\<exists>e. cp_upload q src dest w = (Err (InvalidOperation e), w)" "\<exists>e. cp_delete q i w = (Err (InvalidOperation e), w)"
    "\<exists>e. cp_move_item q i dest w = (Err (InvalidOperation e), w)"
    "\<exists>e. cp_create_share_link q i options w = (Err (InvalidOperation e), w)"
    "\<exists>e. cp_get_metadata q i w = (Err (InvalidOperation e), w)" "\<exists>e. cp_get_versions q i w = (Err (InvalidOperation e), w)"
  by (simp_all add: assms gdrive_full_provider_def CloudProvider.defs FullCloudProvider.defs gdrive_upload_def
      gdrive_delete_def gdrive_move_item_def gdrive_create_share_link_def gdrive_get_metadata_def gdrive_get_versions_def)

section \<open>What the library is asked for\<close>

text \<open>A custom storage hides a token cache, whatever the order in which they were set.\<close>

lemma custom_storage_wins:
  "oauth_build yup (with_custom_storage storage (with_token_cache path b)) =
   oauth_build yup (with_token_cache path (with_custom_storage storage b))"
  "oauth_build yup (with_custom_storage storage (with_token_cache path b)) =
   oauth_build yup (with_custom_storage storage b)"
  by (simp_all add: oauth_build_def with_custom_storage_def with_token_cache_def)

text \<open>
  A client is given no other storage than the one on disk or the library's own, and asks for
  the scopes of its settings with every token.
\<close>

lemma gdrive_client_storage:
  assumes "gdrive_client_new yup config cache flow w = (r, w')"
  shows "\<exists>b. yup_build yup (to_application_secret config) flow
      (case cache of None \<Rightarrow> InMemory | Some path \<Rightarrow> PersistToDisk path) w = (b, w') \<and>
    r = map_ok (\<lambda>a. \<lparr> gc_authenticator = a, gc_scopes = oc_scopes config \<rparr>) (map_err AuthenticatorBuild b)"
proof -
  obtain b w1 where "yup_build yup (to_application_secret config) flow
      (case cache of None \<Rightarrow> InMemory | Some path \<Rightarrow> PersistToDisk path) w = (b, w1)" by fastforce
  then show ?thesis using assms
    by (cases b; cases cache) (auto simp: gdrive_client_new_def oauth_build_def oauth_builder_new_def with_return_method_def
        with_token_cache_def map_errS_def bindS_def Let_def)
qed

end
