(* ===== verification/Config.thy ===== *)
theory Config
  imports Core_Types Rust_File
begin

text \<open>
  The crate \<open>cloudsync-config\<close>: the settings with their defaults, validation, loading and
  saving (\<open>lib.rs\<close>) and the directories of the program (\<open>paths.rs\<close>). The \<open>toml\<close> and
  \<open>directories\<close> crates are parameters.
\<close>

section \<open>Settings\<close>

datatype ConfigError =
    ConfigNotFound string
  | ConfigInvalid string
  | ConfigIo string
  | ConfigParse string

fun config_error_str :: "ConfigError \<Rightarrow> string" where
  "config_error_str (ConfigNotFound p) = ''Configuration file not found: '' @ p"
| "config_error_str (ConfigInvalid m) = ''Invalid configuration: '' @ m"
| "config_error_str (ConfigIo e) = ''IO error: '' @ e"
| "config_error_str (ConfigParse e) = ''TOML parse error: '' @ e"

datatype ConflictResolution = Prompt | KeepLocal | KeepRemote | KeepBoth

record GeneralConfig =
  gen_log_level :: string
  gen_launch_on_startup :: bool

record SyncConfig =
  syn_root_folder :: PathBuf
  syn_bandwidth_limit_up :: u32
  syn_bandwidth_limit_down :: u32
  syn_cache_size_mb :: u32

record ConflictsConfig =
  con_resolution :: ConflictResolution

record Config =
  cfg_general :: GeneralConfig
  cfg_sync :: SyncConfig
  cfg_conflicts :: ConflictsConfig

definition default_log_level :: string where
  "default_log_level = ''info''"

definition general_config_default :: GeneralConfig where
  "general_config_default = \<lparr> gen_log_level = default_log_level, gen_launch_on_startup = False \<rparr>"

text \<open>\<open>home_dir\<close> is what the \<open>directories\<close> crate finds.\<close>

definition default_root_folder :: "PathBuf option \<Rightarrow> PathBuf" where
  "default_root_folder home_dir = (case home_dir of
     Some home \<Rightarrow> path_join home ''UniCloudST''
   | None \<Rightarrow> ''~/UniCloudST'')"

definition default_cache_size_mb :: u32 where
  "default_cache_size_mb = 1024"

definition sync_config_default :: "PathBuf option \<Rightarrow> SyncConfig" where
  "sync_config_default home_dir = \<lparr> syn_root_folder = default_root_folder home_dir, syn_bandwidth_limit_up = 0,
     syn_bandwidth_limit_down = 0, syn_cache_size_mb = default_cache_size_mb \<rparr>"

definition conflicts_config_default :: ConflictsConfig where
  "conflicts_config_default = \<lparr> con_resolution = Prompt \<rparr>"

definition config_default :: "PathBuf option \<Rightarrow> Config" where
  "config_default home_dir = \<lparr> cfg_general = general_config_default, cfg_sync = sync_config_default home_dir,
     cfg_conflicts = conflicts_config_default \<rparr>"

definition sync_config_validate :: "SyncConfig \<Rightarrow> (unit, ConfigError) outcome" where
  "sync_config_validate c =
     (if syn_cache_size_mb c = 0 then Err (ConfigInvalid ''cache_size_mb must be greater than 0'') else Ok ())"

definition conflicts_config_validate :: "ConflictsConfig \<Rightarrow> (unit, ConfigError) outcome" where
  "conflicts_config_validate c = Ok ()"

definition config_validate :: "Config \<Rightarrow> (unit, ConfigError) outcome" where
  "config_validate c =
     bindO (sync_config_validate (cfg_sync c)) (\<lambda>_.
     bindO (conflicts_config_validate (cfg_conflicts c)) (\<lambda>_. Ok ()))"

definition provider_root :: "SyncConfig \<Rightarrow> string \<Rightarrow> PathBuf" where
  "provider_root c provider_slug = path_join (syn_root_folder c) provider_slug"

definition ensure_provider_root :: "'w io \<Rightarrow> SyncConfig \<Rightarrow> string \<Rightarrow> ('w world, PathBuf, string) st" where
  "ensure_provider_root io c provider_slug =
     bindS (create_dir_all io (provider_root c provider_slug)) (\<lambda>_. returnS (provider_root c provider_slug))"

section \<open>Loading and saving\<close>

record toml =
  toml_from_str :: "string \<Rightarrow> (Config, string) outcome"
  toml_to_string_pretty :: "Config \<Rightarrow> (string, string) outcome"

definition load_from_file :: "'w io \<Rightarrow> toml \<Rightarrow> PathBuf option \<Rightarrow> PathBuf \<Rightarrow> 'w world \<Rightarrow> (Config, ConfigError) outcome" where
  "load_from_file io toml home_dir path w =
     (if \<not> path_exists io path w then Ok (config_default home_dir)
      else bindO (map_err (\<lambda>(_, e). ConfigIo e) (read_to_string io path w)) (\<lambda>contents.
           bindO (map_err ConfigParse (toml_from_str toml contents)) (\<lambda>config.
           bindO (config_validate config) (\<lambda>_. Ok config))))"

definition save_to_file :: "'w io \<Rightarrow> toml \<Rightarrow> Config \<Rightarrow> PathBuf \<Rightarrow> ('w world, unit, ConfigError) st" where
  "save_to_file io toml config path =
     bindS (liftS (config_validate config)) (\<lambda>_.
     bindS (map_errS ConfigIo (case path_parent path of Some parent \<Rightarrow> create_dir_all io parent | None \<Rightarrow> returnS ())) (\<lambda>_.
     bindS (liftS (map_err (\<lambda>e. ConfigInvalid (''Failed to serialize config: '' @ e)) (toml_to_string_pretty toml config)))
       (\<lambda>contents. map_errS ConfigIo (fs_write io path contents))))"

section \<open>Directories\<close>

text \<open>What \<open>ProjectDirs::from\<close> finds, and the environment the socket's path depends on.\<close>

record CloudSyncPaths =
  pd_config_dir :: PathBuf
  pd_data_dir :: PathBuf
  pd_cache_dir :: PathBuf

record os_env =
  ev_runtime_dir :: "string option"
  ev_uid :: u32

definition config_file :: "CloudSyncPaths \<Rightarrow> PathBuf" where
  "config_file p = path_join (pd_config_dir p) ''config.toml''"

definition database_file :: "CloudSyncPaths \<Rightarrow> PathBuf" where
  "database_file p = path_join (pd_data_dir p) ''cloudsync.db''"

definition database_path :: "CloudSyncPaths \<Rightarrow> PathBuf" where
  "database_path p = database_file p"

definition token_cache_path :: "CloudSyncPaths \<Rightarrow> PathBuf" where
  "token_cache_path p = path_join (pd_data_dir p) ''tokens.json''"

definition ipc_socket :: "os_env \<Rightarrow> PathBuf" where
  "ipc_socket env = (case ev_runtime_dir env of
     Some runtime_dir \<Rightarrow> path_join runtime_dir ''cloudsync.sock''
   | None \<Rightarrow> ''/tmp/cloudsync-'' @ show_nat (unat (ev_uid env)) @ ''.sock'')"

definition log_dir :: "CloudSyncPaths \<Rightarrow> PathBuf" where
  "log_dir p = path_join (pd_cache_dir p) ''logs''"

definition file_cache_dir :: "CloudSyncPaths \<Rightarrow> PathBuf" where
  "file_cache_dir p = path_join (pd_cache_dir p) ''files''"

definition create_directories :: "'w io \<Rightarrow> CloudSyncPaths \<Rightarrow> ('w world, unit, string) st" where
  "create_directories io p =
     for_eachS (create_dir_all io) [pd_config_dir p, pd_data_dir p, pd_cache_dir p, log_dir p, file_cache_dir p]"

section \<open>Properties of the configuration\<close>

lemma save_to_file_result:
  assumes "save_to_file io toml config path w = (Ok (), w')"
  shows "config_validate config = Ok () \<and>
    (\<exists>contents w1. toml_to_string_pretty toml config = Ok contents \<and> fs_write io path contents w1 = (Ok (), w'))"
proof (cases "config_validate config")
  case (Ok u)
  obtain r w1 where r: "(case path_parent path of Some parent \<Rightarrow> create_dir_all io parent | None \<Rightarrow> returnS ()) w = (r, w1)"
    by fastforce
  show ?thesis
    using assms Ok r
    by (cases r; cases "toml_to_string_pretty toml config")
      (auto simp: save_to_file_def bindS_def map_errS_def split: prod.splits)
qed (use assms in \<open>simp_all add: save_to_file_def bindS_def\<close>)

definition sample_config :: Config where
  "sample_config = (config_default (Some ''/home/u''))\<lparr> cfg_general := \<lparr> gen_log_level = ''debug'', gen_launch_on_startup = True \<rparr> \<rparr>"

definition sample_toml :: toml where
  "sample_toml = \<lparr> toml_from_str = (\<lambda>_. Ok sample_config), toml_to_string_pretty = (\<lambda>_. Ok ''x = 1'') \<rparr>"

text \<open>
  C28: A configuration that was saved is what the next load gives back, and it is valid; loading
  what is not there gives the defaults, which are valid; an invalid configuration is refused
  before anything is written.
\<close>

theorem config_round_trip:
  assumes "no_io_faults io"
    and "\<forall>text. toml_to_string_pretty toml config = Ok text \<longrightarrow> toml_from_str toml text = Ok config \<and> utf8_text text"
  shows "(\<forall>w'. save_to_file io toml config path w = (Ok (), w') \<longrightarrow>
      load_from_file io toml home path w' = Ok config \<and> config_validate config = Ok ()) \<and>
    (\<not> path_exists io path w \<longrightarrow> load_from_file io toml home path w = Ok (config_default home) \<and>
      config_validate (config_default home) = Ok ()) \<and>
    (config_validate config \<noteq> Ok () \<longrightarrow> (\<exists>e. save_to_file io toml config path w = (Err (ConfigInvalid e), w)))"
proof (intro conjI allI impI)
  fix w' assume save: "save_to_file io toml config path w = (Ok (), w')"
  from save_to_file_result [OF this] obtain contents w1 where c: "config_validate config = Ok ()"
    "toml_to_string_pretty toml config = Ok contents" "fs_write io path contents w1 = (Ok (), w')" by blast
  then have "toml_from_str toml contents = Ok config" "utf8_text contents" using assms(2) by auto
  then show "load_from_file io toml home path w' = Ok config"
    using read_written [OF assms(1) _ c(3)] c(1) by (simp add: load_from_file_def)
  show "config_validate config = Ok ()" by (rule c(1))
next
  assume "\<not> path_exists io path w"
  then show "load_from_file io toml home path w = Ok (config_default home)" by (simp add: load_from_file_def)
  show "config_validate (config_default home) = Ok ()"
    by (simp add: config_validate_def sync_config_validate_def conflicts_config_validate_def config_default_def
        sync_config_default_def default_cache_size_mb_def)
next
  assume "config_validate config \<noteq> Ok ()"
  then show "\<exists>e. save_to_file io toml config path w = (Err (ConfigInvalid e), w)"
    by (auto simp: config_validate_def sync_config_validate_def conflicts_config_validate_def save_to_file_def bindS_def
        split: if_splits)
qed

theorem config_round_trip_witness:
  "\<exists>w'. save_to_file plain_io sample_toml sample_config ''/c/f'' (\<lparr> w_disk = Map.empty, w_outer = () \<rparr>) = (Ok (), w') \<and>
    load_from_file plain_io sample_toml None ''/c/f'' w' = Ok sample_config"
proof -
  let ?w = "\<lparr> w_disk = Map.empty, w_outer = () \<rparr>"
  have "config_validate sample_config = Ok ()"
    by (simp add: sample_config_def config_default_def sync_config_default_def default_cache_size_mb_def config_validate_def
        sync_config_validate_def conflicts_config_validate_def)
  moreover have "path_parent ''/c/f'' = Some ''/c''"
    by (simp add: path_parent_def path_components_def path_is_absolute_def starts_with_def piece_components_def
        path_collect_def path_join_def)
  moreover have "create_dir_all plain_io ''/c'' ?w = (Ok (), ?w\<lparr> w_disk := [[''c''] \<mapsto> DirN] \<rparr>)"
    by (simp add: create_dir_all_def path_components_def path_is_absolute_def starts_with_def piece_components_def plain_io_def)
  moreover have "\<exists>w'. fs_write plain_io ''/c/f'' ''x = 1'' (?w\<lparr> w_disk := [[''c''] \<mapsto> DirN] \<rparr>) = (Ok (), w')"
    by (simp add: fs_write_def file_create_def file_write_all_def plain_io_def bindS_def is_dir_at_def Let_def
        path_components_def path_is_absolute_def starts_with_def piece_components_def)
  ultimately obtain w' where save: "save_to_file plain_io sample_toml sample_config ''/c/f'' ?w = (Ok (), w')"
    by (auto simp: save_to_file_def bindS_def map_errS_def sample_toml_def)
  have "no_io_faults (plain_io :: unit io)" by (simp add: no_io_faults_def plain_io_def)
  from config_round_trip [OF this, of sample_toml sample_config "''/c/f''" ?w None] save show ?thesis
    by (auto simp: sample_toml_def utf8_text_def utf8_cont_def)
qed

end
