(* ===== verification/Daemon.thy ===== *)
theory Daemon
  imports Ipc Vfs_Metadata
begin

text \<open>
  The daemon's request handler (\<open>cloudsync-daemon/src/handler.rs\<close>): what it makes of each of
  the seven requests on the database and on the channel of the synchronisation loop, a
  specification of it over the states of the files by path, and the requests of a client
  going through the connection, the handler and the files table.
\<close>

section \<open>The handler\<close>

datatype DaemonAction =
    Force AccountId CloudPath
  | Pause "ProviderId option"
  | Resume "ProviderId option"

text \<open>A path resolver is its sync root; \<open>dh_action_tx\<close> tells whether there is a sender.\<close>

record DaemonHandler =
  dh_sync_root :: PathBuf
  dh_provider_accounts :: "(string \<times> AccountId) list"
  dh_action_tx :: bool

text \<open>
  What a request works on: the database handle and the channel, which holds what was sent. A
  full channel makes \<open>send\<close> wait until the receiver has taken something; a closed one makes it
  fail, which is ignored.
\<close>

record 's daemon_state =
  ds_db :: "'s Database"
  ds_actions :: "DaemonAction list"
  ds_receiver_open :: bool

definition lookup_account :: "DaemonHandler \<Rightarrow> string \<Rightarrow> AccountId option" where
  "lookup_account h provider_slug = map_option snd (find (\<lambda>(slug, _). slug = provider_slug) (dh_provider_accounts h))"

definition resolve_and_lookup ::
  "DaemonHandler \<Rightarrow> string \<Rightarrow> (AccountId \<times> CloudPath \<times> string, Response) outcome" where
  "resolve_and_lookup h path =
     (case resolve_local (dh_sync_root h) path of
        None \<Rightarrow> Err (RespError (''path outside sync root: '' @ path))
      | Some resolved \<Rightarrow>
          (case lookup_account h (rp_provider_slug resolved) of
             None \<Rightarrow> Err (RespError (''unknown provider: '' @ rp_provider_slug resolved))
           | Some account_id \<Rightarrow> Ok (account_id, rp_cloud_path resolved, rp_provider_slug resolved)))"

text \<open>\<open>self.db.with_conn(..)\<close> and the match on its result, whose last arm is always the same.\<close>

definition with_db ::
  "('s conn, 'a, DbError) st \<Rightarrow> ('a \<Rightarrow> ('s daemon_state, Response, IpcErr) st) \<Rightarrow> ('s daemon_state, Response, IpcErr) st" where
  "with_db f k st = (case with_conn f (ds_db st) of
     (Ok x, db) \<Rightarrow> k x (st\<lparr> ds_db := db \<rparr>)
   | (Err e, db) \<Rightarrow> (Ok (RespError (''database error: '' @ db_error_str e)), st\<lparr> ds_db := db \<rparr>)
   | (Panicked, db) \<Rightarrow> (Panicked, st\<lparr> ds_db := db \<rparr>))"

text \<open>\<open>let .. = match self.resolve_and_lookup(&path) { Ok(v) => v, Err(resp) => return resp }\<close>.\<close>

definition resolving ::
  "DaemonHandler \<Rightarrow> string \<Rightarrow> (AccountId \<Rightarrow> CloudPath \<Rightarrow> string \<Rightarrow> ('s daemon_state, Response, IpcErr) st) \<Rightarrow>
   ('s daemon_state, Response, IpcErr) st" where
  "resolving h path k = (case resolve_and_lookup h path of
     Ok (account_id, cloud_path, slug) \<Rightarrow> k account_id cloud_path slug
   | Err resp \<Rightarrow> returnS resp
   | Panicked \<Rightarrow> liftS Panicked)"

definition get_status_for_path ::
  "'s db_env \<Rightarrow> DaemonHandler \<Rightarrow> string \<Rightarrow> ('s daemon_state, Response, IpcErr) st" where
  "get_status_for_path env h path =
     resolving h path (\<lambda>account_id cloud_path provider_slug.
       with_db (get_file_by_cloud_path env account_id cloud_path) (\<lambda>file_result.
         returnS (case file_result of
            Some file \<Rightarrow> RespStatus path (f_state file) (Some provider_slug) None
          | None \<Rightarrow> RespError (''file not found: '' @ path))))"

definition send_action :: "DaemonHandler \<Rightarrow> DaemonAction \<Rightarrow> ('s daemon_state, unit, IpcErr) st" where
  "send_action h action st =
     (Ok (), if dh_action_tx h \<and> ds_receiver_open st then st\<lparr> ds_actions := ds_actions st @ [action] \<rparr> else st)"

text \<open>The entry of \<open>GetStatusBatch\<close> for a path.\<close>

definition batch_entry :: "string \<Rightarrow> Response \<Rightarrow> FileStatus" where
  "batch_entry p resp = (case resp of
     RespStatus path state provider _ \<Rightarrow> \<lparr> fst_path = path, fst_state = state, fst_provider = provider \<rparr>
   | _ \<Rightarrow> \<lparr> fst_path = p, fst_state = Error, fst_provider = None \<rparr>)"

fun status_batch ::
  "'s db_env \<Rightarrow> DaemonHandler \<Rightarrow> string list \<Rightarrow> ('s daemon_state, FileStatus list, IpcErr) st" where
  "status_batch env h [] = returnS []"
| "status_batch env h (p # paths) =
     bindS (get_status_for_path env h p) (\<lambda>resp.
     bindS (status_batch env h paths) (\<lambda>statuses. returnS (batch_entry p resp # statuses)))"

text \<open>The two closures that change a file's state: \<open>False\<close> is a file that is not in the table.\<close>

definition set_pinned_conn ::
  "'s db_env \<Rightarrow> AccountId \<Rightarrow> CloudPath \<Rightarrow> bool \<Rightarrow> ('s conn, bool, DbError) st" where
  "set_pinned_conn env account_id cloud_path pinned =
     bindS (get_file_by_cloud_path env account_id cloud_path) (\<lambda>file_opt.
     case file_opt of
       None \<Rightarrow> returnS False
     | Some fl \<Rightarrow>
         bindS (if pinned then
             (if f_state fl = CloudOnly
              then bindS (update_file env (fl\<lparr> f_state := Pending \<rparr>)) (\<lambda>_. returnS ()) else returnS ())
           else bindS (update_file env (fl\<lparr> f_state := CloudOnly \<rparr>)) (\<lambda>_. returnS ())) (\<lambda>_.
         returnS True))"

definition set_cloud_only_conn ::
  "'s db_env \<Rightarrow> AccountId \<Rightarrow> CloudPath \<Rightarrow> ('s conn, bool, DbError) st" where
  "set_cloud_only_conn env account_id cloud_path =
     bindS (get_file_by_cloud_path env account_id cloud_path) (\<lambda>file_opt.
     case file_opt of
       None \<Rightarrow> returnS False
     | Some fl \<Rightarrow> bindS (update_file env (fl\<lparr> f_state := CloudOnly \<rparr>)) (\<lambda>_. returnS True))"

fun daemon_handle :: "'s db_env \<Rightarrow> DaemonHandler \<Rightarrow> Request \<Rightarrow> ('s daemon_state, Response, IpcErr) st" where
  "daemon_handle env h (GetStatus path) = get_status_for_path env h path"
| "daemon_handle env h (GetStatusBatch paths) =
     bindS (status_batch env h paths) (\<lambda>statuses. returnS (RespStatusBatch statuses))"
| "daemon_handle env h (SetPinned path pinned) =
     resolving h path (\<lambda>account_id cloud_path _.
       with_db (set_pinned_conn env account_id cloud_path pinned) (\<lambda>found.
         if found then
           bindS (if pinned then send_action h (Force account_id cloud_path) else returnS ()) (\<lambda>_. returnS RespOk)
         else returnS (RespError (''file not found: '' @ path))))"
| "daemon_handle env h (SetCloudOnly path) =
     resolving h path (\<lambda>account_id cloud_path _.
       with_db (set_cloud_only_conn env account_id cloud_path) (\<lambda>found.
         if found then returnS RespOk else returnS (RespError (''file not found: '' @ path))))"
| "daemon_handle env h (ForceSync path) =
     resolving h path (\<lambda>account_id cloud_path _.
       bindS (send_action h (Force account_id cloud_path)) (\<lambda>_. returnS RespOk))"
| "daemon_handle env h (PauseSync provider) =
     bindS (send_action h (Pause (Option.bind provider provider_from_slug))) (\<lambda>_. returnS RespOk)"
| "daemon_handle env h (ResumeSync provider) =
     bindS (send_action h (Resume (Option.bind provider provider_from_slug))) (\<lambda>_. returnS RespOk)"

section \<open>The specification\<close>

text \<open>
  The daemon as its clients see it: the state of each file by account and path, and the
  actions the synchronisation loop was sent. \<open>live\<close> tells whether there is a loop listening.
\<close>

type_synonym daemon_view = "(AccountId \<times> CloudPath \<Rightarrow> FileState option) \<times> DaemonAction list"

definition spec_status :: "DaemonHandler \<Rightarrow> (AccountId \<times> CloudPath \<Rightarrow> FileState option) \<Rightarrow> string \<Rightarrow> Response" where
  "spec_status h m path = (case resolve_and_lookup h path of
     Ok (a, p, slug) \<Rightarrow> (case m (a, p) of
        Some s \<Rightarrow> RespStatus path s (Some slug) None
      | None \<Rightarrow> RespError (''file not found: '' @ path))
   | Err resp \<Rightarrow> resp
   | Panicked \<Rightarrow> RespOk)"

text \<open>A request that sets a file's state by \<open>f\<close> and sends \<open>acts\<close>.\<close>

definition spec_set ::
  "DaemonHandler \<Rightarrow> string \<Rightarrow> (FileState \<Rightarrow> FileState) \<Rightarrow> (AccountId \<Rightarrow> CloudPath \<Rightarrow> DaemonAction list) \<Rightarrow>
   daemon_view \<Rightarrow> Response \<times> daemon_view" where
  "spec_set h path f acts = (\<lambda>(m, sent). case resolve_and_lookup h path of
     Ok (a, p, _) \<Rightarrow> (case m (a, p) of
        Some s \<Rightarrow> (RespOk, m((a, p) \<mapsto> f s), sent @ acts a p)
      | None \<Rightarrow> (RespError (''file not found: '' @ path), m, sent))
   | Err resp \<Rightarrow> (resp, m, sent)
   | Panicked \<Rightarrow> (RespOk, m, sent))"

fun spec_handle :: "DaemonHandler \<Rightarrow> bool \<Rightarrow> Request \<Rightarrow> daemon_view \<Rightarrow> Response \<times> daemon_view" where
  "spec_handle h live (GetStatus path) (m, sent) = (spec_status h m path, m, sent)"
| "spec_handle h live (GetStatusBatch paths) (m, sent) =
     (RespStatusBatch (map (\<lambda>p. batch_entry p (spec_status h m p)) paths), m, sent)"
| "spec_handle h live (SetPinned path pinned) v =
     spec_set h path (\<lambda>s. if pinned then (if s = CloudOnly then Pending else s) else CloudOnly)
       (\<lambda>a p. if pinned \<and> live then [Force a p] else []) v"
| "spec_handle h live (SetCloudOnly path) v = spec_set h path (\<lambda>_. CloudOnly) (\<lambda>_ _. []) v"
| "spec_handle h live (ForceSync path) (m, sent) = (case resolve_and_lookup h path of
     Ok (a, p, _) \<Rightarrow> (RespOk, m, if live then sent @ [Force a p] else sent)
   | Err resp \<Rightarrow> (resp, m, sent)
   | Panicked \<Rightarrow> (RespOk, m, sent))"
| "spec_handle h live (PauseSync provider) (m, sent) =
     (RespOk, m, if live then sent @ [Pause (Option.bind provider provider_from_slug)] else sent)"
| "spec_handle h live (ResumeSync provider) (m, sent) =
     (RespOk, m, if live then sent @ [Resume (Option.bind provider provider_from_slug)] else sent)"

fun spec_run :: "DaemonHandler \<Rightarrow> bool \<Rightarrow> Request list \<Rightarrow> daemon_view \<Rightarrow> Response list \<times> daemon_view" where
  "spec_run h live [] v = ([], v)"
| "spec_run h live (req # reqs) v =
     (case spec_handle h live req v of (resp, v1) \<Rightarrow> case spec_run h live reqs v1 of (resps, v2) \<Rightarrow> (resp # resps, v2))"

section \<open>The files table follows the specification\<close>

definition path_key :: "file_row \<Rightarrow> string \<times> string" where
  "path_key r = (fr_account_id r, fr_path r)"

definition row_state :: "file_row \<Rightarrow> FileState" where
  "row_state r = (case state_of_column (fr_state r) of Ok s \<Rightarrow> s | _ \<Rightarrow> Error)"

definition file_states :: "database \<Rightarrow> AccountId \<times> CloudPath \<Rightarrow> FileState option" where
  "file_states d = (\<lambda>(a, p). map_option row_state
     (find (\<lambda>r. path_key r = (account_id_str a, cloud_path_as_str p)) (db_files d)))"

text \<open>\<open>chrono\<close> gives back the seconds an instant was made from.\<close>

definition chrono_exact :: "chrono \<Rightarrow> bool" where
  "chrono_exact ch \<longleftrightarrow> (\<forall>s t. from_timestamp ch s = Some t \<longrightarrow> timestamp ch t = s)"

lemma chrono_utc_exact [simp]: "chrono_exact chrono_utc"
  by (auto simp: chrono_exact_def chrono_utc_def)

text \<open>
  A working database whose rows can be read, with paths as \<open>CloudPath\<close> writes them and no two
  files of an account at one path.
\<close>

definition files_inv :: "'s db_env \<Rightarrow> 's conn \<Rightarrow> bool" where
  "files_inv env c \<longleftrightarrow> sqlite_works env \<and> clock_ok env \<and> chrono_exact (de_chrono env) \<and> conn_ok c \<and>
     distinct (map path_key (db_files (cn_db c))) \<and>
     (\<forall>r \<in> set (db_files (cn_db c)). row_readable (de_chrono env) r \<and>
        cloud_path_as_str (cloud_path_new (fr_path r)) = fr_path r)"

definition daemon_inv :: "'s db_env \<Rightarrow> 's daemon_state \<Rightarrow> bool" where
  "daemon_inv env st \<longleftrightarrow> \<not> dbh_poisoned (ds_db st) \<and> files_inv env (dbh_conn (ds_db st))"

definition daemon_view_of :: "'s daemon_state \<Rightarrow> daemon_view" where
  "daemon_view_of st = (file_states (cn_db (dbh_conn (ds_db st))), ds_actions st)"

lemma file_states_iff:
  assumes "distinct (map path_key (db_files d))"
  shows "file_states d (a, p) = Some s \<longleftrightarrow>
    (\<exists>r \<in> set (db_files d). path_key r = (account_id_str a, cloud_path_as_str p) \<and> row_state r = s)"
  using find_unique [OF assms, of "(account_id_str a, cloud_path_as_str p)"] by (auto simp: file_states_def)

lemma get_by_path_result:
  assumes "files_inv env c"
  shows "get_file_by_cloud_path env a p c =
    (case find (\<lambda>r. path_key r = (account_id_str a, cloud_path_as_str p)) (db_files (cn_db c)) of None \<Rightarrow> Ok None
     | Some row \<Rightarrow> map_err DbSqlite (map_ok Some (file_from_row (de_chrono env) row)), c)"
proof -
  have env: "no_faults (de_sql env)" "scans_rows (de_sql env)" "distinct (map path_key (db_files (cn_db c)))"
    using assms by (auto simp: files_inv_def sqlite_works_def)
  have "get_file_by_cloud_path env a p = query_file env ''SELECT files BY path''
      (\<lambda>r. path_key r = (account_id_str a, cloud_path_as_str p))"
    by (simp add: get_file_by_cloud_path_def path_key_def)
  then have "get_file_by_cloud_path env a p c =
    (case filter (\<lambda>r. path_key r = (account_id_str a, cloud_path_as_str p)) (db_files (cn_db c)) of [] \<Rightarrow> Ok None
     | row # _ \<Rightarrow> map_err DbSqlite (map_ok Some (file_from_row (de_chrono env) row)), c)"
    by (simp only:) (intro query_file_result [OF env(1)] scan_unique [OF env(2)] env(3))
  then show ?thesis
    by (cases "filter (\<lambda>r. path_key r = (account_id_str a, cloud_path_as_str p)) (db_files (cn_db c))")
      (simp_all add: filter_find)
qed

text \<open>The file read for a row: what an update that only sets the state writes back.\<close>

definition read_as :: "chrono \<Rightarrow> file_row \<Rightarrow> File \<Rightarrow> bool" where
  "read_as ch r f \<longleftrightarrow> f_id f = fr_id r \<and> account_id_str (f_account_id f) = fr_account_id r \<and>
     file_id_str (f_provider_file_id f) = fr_provider_file_id r \<and> cloud_path_as_str (f_path f) = fr_path r \<and>
     f_state f = row_state r \<and> timestamp ch (f_modified_at f) = fr_modified_at r"

lemma file_from_row_read_as:
  assumes "row_readable ch r" "state_check (fr_state r)" "chrono_exact ch"
    "cloud_path_as_str (cloud_path_new (fr_path r)) = fr_path r"
  shows "\<exists>f. file_from_row ch r = Ok f \<and> read_as ch r f"
proof -
  obtain s where s: "state_of_column (fr_state r) = Ok s"
    using assms(2) by (auto simp: state_check_def state_of_column_def)
  obtain a b c where "from_timestamp ch (fr_modified_at r) = Some a"
    "from_timestamp ch (fr_created_at r) = Some b" "from_timestamp ch (fr_updated_at r) = Some c"
    using assms(1) by (auto simp: row_readable_def)
  with s assms(3,4) show ?thesis by (simp add: file_from_row_def read_as_def row_state_def chrono_exact_def)
qed

lemma lookup_file:
  assumes inv: "files_inv env c"
  obtains (missing) "file_states (cn_db c) (a, p) = None" "get_file_by_cloud_path env a p c = (Ok None, c)"
  | (found) r f where "r \<in> set (db_files (cn_db c))" "path_key r = (account_id_str a, cloud_path_as_str p)"
      "file_states (cn_db c) (a, p) = Some (f_state f)" "get_file_by_cloud_path env a p c = (Ok (Some f), c)"
      "read_as (de_chrono env) r f"
proof (cases "find (\<lambda>r. path_key r = (account_id_str a, cloud_path_as_str p)) (db_files (cn_db c))")
  case None
  show ?thesis by (rule missing) (use None get_by_path_result [OF inv, of a p] in \<open>simp_all add: file_states_def\<close>)
next
  case (Some r)
  then have r: "r \<in> set (db_files (cn_db c))" "path_key r = (account_id_str a, cloud_path_as_str p)"
    by (auto simp: find_Some_iff)
  then obtain f where f: "file_from_row (de_chrono env) r = Ok f" "read_as (de_chrono env) r f"
    using inv file_from_row_read_as [of "de_chrono env" r] by (auto simp: files_inv_def conn_ok_def db_ok_def)
  show ?thesis
    by (rule found [OF r _ _ f(2)])
      (use Some f get_by_path_result [OF inv, of a p] in \<open>simp_all add: file_states_def read_as_def\<close>)
qed

lemma set_state_refines:
  assumes inv: "files_inv env c"
    and r: "r \<in> set (db_files (cn_db c))" "path_key r = (account_id_str a, cloud_path_as_str p)"
    and f: "read_as (de_chrono env) r f"
  shows "\<exists>b c'. update_file env (f\<lparr> f_state := s \<rparr>) c = (Ok b, c') \<and> files_inv env c' \<and>
    file_states (cn_db c') = (file_states (cn_db c))((a, p) \<mapsto> s)"
proof -
  let ?d = "cn_db c" and ?ch = "de_chrono env"
  define now where "now = fst (utc_now (de_sys env) (cn_sys c))"
  define new where "new = file_params ?ch (f\<lparr> f_state := s, f_updated_at := now \<rparr>)"
  define hit where "hit = (\<lambda>x :: file_row. fr_id x = fr_id r)"
  define rows where "rows = update_rows hit (set_file_row new) (db_files ?d)"
  have nf: "no_faults (de_sql env)" and ok: "conn_ok c" and dist: "distinct (map path_key (db_files ?d))"
    using inv by (auto simp: files_inv_def sqlite_works_def)
  have dk: "db_ok ?d" using ok by (simp add: conn_ok_def)
  have new: "fr_id new = fr_id r" "fr_account_id new = fr_account_id r" "fr_path new = fr_path r"
    "fr_provider_file_id new = fr_provider_file_id r" "fr_state new = state_column s"
    "fr_modified_at new = fr_modified_at r"
    using f by (simp_all add: new_def read_as_def file_params_def)
  have only: "x = r" if "x \<in> set (db_files ?d)" "hit x" for x
    using that r(1) file_row_id_eq [OF dk] by (simp add: hit_def)
  have "file_fits new (filter (\<lambda>x. \<not> hit x) (db_files ?d))"
    using new file_row_key_eq [OF dk _ r(1)] by (fastforce simp: file_fits_def hit_def)
  moreover have "account_exists (fr_account_id new) ?d" using dk r(1) new(2) by (simp add: db_ok_def)
  ultimately have row: "update_file_row new True ?d = Inr (length (filter hit (db_files ?d)), ?d\<lparr> db_files := rows \<rparr>)"
    using new(1) by (simp add: update_file_row_def Let_def rows_def hit_def)
  define c' where "c' = c\<lparr> cn_sys := snd (utc_now (de_sys env) (cn_sys c)), cn_db := ?d\<lparr> db_files := rows \<rparr> \<rparr>"
  have upd: "\<exists>b. update_file env (f\<lparr> f_state := s \<rparr>) c = (Ok b, c')"
    using update_file_result [OF nf ok, of "f\<lparr> f_state := s \<rparr>"] row by (simp add: new_def now_def c'_def)
  then have ok': "conn_ok c'" using preservesD [OF update_file_preserves ok] by blast
  have key: "path_key (set_file_row new x) = path_key x" if "x \<in> set (db_files ?d)" "hit x" for x
    using only [OF that] new by (simp add: path_key_def set_file_row_def)
  have set_rows: "set rows = {x \<in> set (db_files ?d). x \<noteq> r} \<union> {set_file_row new r}"
  proof -
    have "{x \<in> set (db_files ?d). \<not> hit x} = {x \<in> set (db_files ?d). x \<noteq> r}"
      "{x \<in> set (db_files ?d). hit x} = {r}"
      using r(1) by (auto simp: hit_def dest: only [unfolded hit_def])
    then show ?thesis by (simp add: rows_def set_update_rows)
  qed
  have "map path_key rows = map path_key (db_files ?d)"
    using key by (simp add: rows_def update_rows_def)
  then have dist': "distinct (map path_key (db_files (cn_db c')))" using dist by (simp add: c'_def)
  have "row_readable ?ch (set_file_row new r)"
    using inv r(1) new(6)
    by (auto simp: row_readable_def set_file_row_def new_def file_params_def files_inv_def clock_ok_def
        now_def dest!: stamp_ok_readable)
  moreover have "fr_path (set_file_row new r) = fr_path r" using new(3) by (simp add: set_file_row_def)
  ultimately have inv': "files_inv env c'"
    using inv ok' dist' set_rows r(1) by (auto simp: files_inv_def c'_def)
  have "file_states (cn_db c') = (file_states ?d)((a, p) \<mapsto> s)"
  proof (rule view_eqI)
    fix k :: "AccountId \<times> CloudPath" and t
    obtain b q where k: "k = (b, q)" by fastforce
    have state: "row_state (set_file_row new r) = s" using new(5) by (simp add: row_state_def)
    have "file_states (cn_db c') k = Some t \<longleftrightarrow>
        path_key r = (account_id_str b, cloud_path_as_str q) \<and> s = t \<or>
        (\<exists>x \<in> set (db_files ?d). x \<noteq> r \<and> path_key x = (account_id_str b, cloud_path_as_str q) \<and> row_state x = t)"
      using file_states_iff [OF dist', of b q t] state key r(1) set_rows by (auto simp: c'_def hit_def k)
    moreover have "(\<exists>x \<in> set (db_files ?d). x \<noteq> r \<and> path_key x = (account_id_str b, cloud_path_as_str q) \<and> row_state x = t) \<longleftrightarrow>
        k \<noteq> (a, p) \<and> file_states ?d k = Some t"
    proof (cases "k = (a, p)")
      case True
      then show ?thesis using distinct_key_eq [OF dist _ r(1)] r(2) k by auto
    next
      case False
      then have "path_key r \<noteq> (account_id_str b, cloud_path_as_str q)" using r(2) k by auto
      then show ?thesis using False file_states_iff [OF dist, of b q t] k by auto
    qed
    ultimately show "file_states (cn_db c') k = Some t \<longleftrightarrow> ((file_states ?d)((a, p) \<mapsto> s)) k = Some t"
      using r(2) k by auto
  qed
  with upd inv' show ?thesis by blast
qed

section \<open>Requests\<close>

lemma resolve_and_lookup_not_Panicked [simp]: "resolve_and_lookup h path \<noteq> Panicked"
  by (simp add: resolve_and_lookup_def split: option.splits)

text \<open>A database call of the handler that succeeds on the connection.\<close>

lemma with_db_ok:
  assumes "daemon_inv env st" and "f (dbh_conn (ds_db st)) = (Ok x, c)" and "files_inv env c"
  shows "\<exists>st'. with_db f k st = k x st' \<and> daemon_inv env st' \<and> cn_db (dbh_conn (ds_db st')) = cn_db c \<and>
    ds_actions st' = ds_actions st \<and> ds_receiver_open st' = ds_receiver_open st"
  using assms
  by (intro exI [of _ "st\<lparr> ds_db := (ds_db st)\<lparr> dbh_conn := c \<rparr> \<rparr>"]) (simp add: with_db_def with_conn_def daemon_inv_def)

lemma status_refines:
  assumes "daemon_inv env st"
  shows "\<exists>st'. get_status_for_path env h path st = (Ok (spec_status h (fst (daemon_view_of st)) path), st') \<and>
    daemon_inv env st' \<and> daemon_view_of st' = daemon_view_of st \<and> ds_receiver_open st' = ds_receiver_open st"
proof (cases "resolve_and_lookup h path")
  case (Ok v)
  obtain a p slug where v: "v = (a, p, slug)" by (cases v)
  let ?c = "dbh_conn (ds_db st)"
  have inv: "files_inv env ?c" using assms by (simp add: daemon_inv_def)
  obtain x where x: "get_file_by_cloud_path env a p ?c = (Ok x, ?c)"
    "map_option f_state x = file_states (cn_db ?c) (a, p)"
    by (rule lookup_file [OF inv, of a p]) (force+)
  from with_db_ok [where f = "get_file_by_cloud_path env a p", OF assms x(1) inv, of "\<lambda>file_result. returnS (case file_result of
      Some file \<Rightarrow> RespStatus path (f_state file) (Some slug) None | None \<Rightarrow> RespError (''file not found: '' @ path))"]
  show ?thesis using x(2) [symmetric] Ok v
    by (cases x) (auto simp: get_status_for_path_def resolving_def spec_status_def daemon_view_of_def)
next
  case (Err resp)
  then show ?thesis using assms by (auto simp: get_status_for_path_def resolving_def spec_status_def)
qed simp

lemma status_batch_refines:
  assumes "daemon_inv env st"
  shows "\<exists>st'. status_batch env h paths st =
      (Ok (map (\<lambda>p. batch_entry p (spec_status h (fst (daemon_view_of st)) p)) paths), st') \<and>
    daemon_inv env st' \<and> daemon_view_of st' = daemon_view_of st \<and> ds_receiver_open st' = ds_receiver_open st"
  using assms
proof (induction paths arbitrary: st)
  case (Cons p paths)
  obtain st1 where 1: "get_status_for_path env h p st = (Ok (spec_status h (fst (daemon_view_of st)) p), st1)"
    "daemon_inv env st1" "daemon_view_of st1 = daemon_view_of st" "ds_receiver_open st1 = ds_receiver_open st"
    using status_refines [OF Cons.prems] by blast
  from Cons.IH [OF 1(2)] 1 show ?case by (auto simp: bindS_def)
qed simp

text \<open>Both requests that set a state run a closure of this shape.\<close>

lemma set_conn_refines:
  fixes a p
  assumes inv: "files_inv env c"
    and closure: "\<And>f. m f = (if g (f_state f) = f_state f \<and> quiet then returnS True
      else bindS (update_file env (f\<lparr> f_state := g (f_state f) \<rparr>)) (\<lambda>_. returnS True))"
  defines "body \<equiv> bindS (get_file_by_cloud_path env a p) (\<lambda>file_opt. case file_opt of None \<Rightarrow> returnS False | Some f \<Rightarrow> m f)"
  shows "\<exists>c'. body c = (Ok (file_states (cn_db c) (a, p) \<noteq> None), c') \<and> files_inv env c' \<and>
    file_states (cn_db c') = (case file_states (cn_db c) (a, p) of None \<Rightarrow> file_states (cn_db c)
      | Some s \<Rightarrow> (file_states (cn_db c))((a, p) \<mapsto> g s))"
proof (rule lookup_file [OF inv, of a p])
  assume "file_states (cn_db c) (a, p) = None" "get_file_by_cloud_path env a p c = (Ok None, c)"
  then show ?thesis using inv by (simp add: body_def bindS_def)
next
  fix r f
  assume found: "r \<in> set (db_files (cn_db c))" "path_key r = (account_id_str a, cloud_path_as_str p)"
      "file_states (cn_db c) (a, p) = Some (f_state f)" "get_file_by_cloud_path env a p c = (Ok (Some f), c)"
      "read_as (de_chrono env) r f"
  show ?thesis
  proof (cases "g (f_state f) = f_state f \<and> quiet")
    case True
    then show ?thesis using found inv closure [of f] by (auto simp: body_def bindS_def)
  next
    case False
    from set_state_refines [OF inv found(1,2,5), of "g (f_state f)"] obtain b c' where
      "update_file env (f\<lparr> f_state := g (f_state f) \<rparr>) c = (Ok b, c')" "files_inv env c'"
      "file_states (cn_db c') = (file_states (cn_db c))((a, p) \<mapsto> g (f_state f))" by blast
    then show ?thesis using False found closure [of f] by (auto simp: body_def bindS_def)
  qed
qed

lemma set_pinned_refines:
  assumes "files_inv env c"
  shows "\<exists>c'. set_pinned_conn env a p pinned c = (Ok (file_states (cn_db c) (a, p) \<noteq> None), c') \<and> files_inv env c' \<and>
    file_states (cn_db c') = (case file_states (cn_db c) (a, p) of None \<Rightarrow> file_states (cn_db c)
      | Some s \<Rightarrow> (file_states (cn_db c))((a, p) \<mapsto>
          (if pinned then (if s = CloudOnly then Pending else s) else CloudOnly)))"
  unfolding set_pinned_conn_def
  by (rule set_conn_refines [OF assms, where quiet = pinned and g = "\<lambda>s. if pinned then (if s = CloudOnly then Pending else s) else CloudOnly"])
    (auto simp: bindS_assoc returnS_def bindS_Pair)

lemma set_cloud_only_refines:
  assumes "files_inv env c"
  shows "\<exists>c'. set_cloud_only_conn env a p c = (Ok (file_states (cn_db c) (a, p) \<noteq> None), c') \<and> files_inv env c' \<and>
    file_states (cn_db c') = (case file_states (cn_db c) (a, p) of None \<Rightarrow> file_states (cn_db c)
      | Some s \<Rightarrow> (file_states (cn_db c))((a, p) \<mapsto> CloudOnly))"
  unfolding set_cloud_only_conn_def
  by (rule set_conn_refines [OF assms, where quiet = False and g = "\<lambda>_. CloudOnly"]) simp

definition live :: "DaemonHandler \<Rightarrow> 's daemon_state \<Rightarrow> bool" where
  "live h st \<longleftrightarrow> dh_action_tx h \<and> ds_receiver_open st"

lemma send_action_refines:
  assumes "daemon_inv env st"
  shows "\<exists>st'. send_action h action st = (Ok (), st') \<and> daemon_inv env st' \<and> live h st' = live h st \<and>
    daemon_view_of st' = (fst (daemon_view_of st), snd (daemon_view_of st) @ (if live h st then [action] else []))"
  using assms by (auto simp: send_action_def live_def daemon_inv_def daemon_view_of_def)

text \<open>What it means for a call to do what the specification says.\<close>

definition refines ::
  "'s db_env \<Rightarrow> DaemonHandler \<Rightarrow> ('s daemon_state, Response, IpcErr) st \<Rightarrow> (daemon_view \<Rightarrow> Response \<times> daemon_view) \<Rightarrow>
   's daemon_state \<Rightarrow> bool" where
  "refines env h m spec st \<longleftrightarrow> (\<exists>st'. m st = (Ok (fst (spec (daemon_view_of st))), st') \<and> daemon_inv env st' \<and>
     daemon_view_of st' = snd (spec (daemon_view_of st)) \<and> live h st' = live h st)"

lemma set_request_refines:
  assumes inv: "daemon_inv env st"
    and conn: "\<And>a p c. files_inv env c \<Longrightarrow> \<exists>c'. f a p c = (Ok (file_states (cn_db c) (a, p) \<noteq> None), c') \<and> files_inv env c' \<and>
      file_states (cn_db c') = (case file_states (cn_db c) (a, p) of None \<Rightarrow> file_states (cn_db c)
        | Some s \<Rightarrow> (file_states (cn_db c))((a, p) \<mapsto> g s))"
    and sends: "\<And>a p st. daemon_inv env st \<Longrightarrow> \<exists>st'. k a p st = (Ok RespOk, st') \<and> daemon_inv env st' \<and> live h st' = live h st \<and>
      daemon_view_of st' = (fst (daemon_view_of st), snd (daemon_view_of st) @ acts (live h st) a p)"
  shows "refines env h (resolving h path (\<lambda>a p _. with_db (f a p) (\<lambda>found.
      if found then k a p else returnS (RespError (''file not found: '' @ path)))))
    (spec_set h path g (acts (live h st))) st"
proof (cases "resolve_and_lookup h path")
  case (Ok v)
  obtain a p slug where v: "v = (a, p, slug)" by (cases v)
  let ?c = "dbh_conn (ds_db st)"
  have "files_inv env ?c" using inv by (simp add: daemon_inv_def)
  from conn [OF this, of a p] obtain c' where
    c': "f a p ?c = (Ok (file_states (cn_db ?c) (a, p) \<noteq> None), c')" "files_inv env c'"
    "file_states (cn_db c') = (case file_states (cn_db ?c) (a, p) of None \<Rightarrow> file_states (cn_db ?c)
        | Some s \<Rightarrow> (file_states (cn_db ?c))((a, p) \<mapsto> g s))" by blast
  from with_db_ok [where f = "f a p", OF inv c'(1,2), of "\<lambda>found.
      if found then k a p else returnS (RespError (''file not found: '' @ path))"]
  obtain st' where st': "with_db (f a p) (\<lambda>found. if found then k a p else returnS (RespError (''file not found: '' @ path))) st =
      (if file_states (cn_db ?c) (a, p) \<noteq> None then k a p else returnS (RespError (''file not found: '' @ path))) st'"
    "daemon_inv env st'" "cn_db (dbh_conn (ds_db st')) = cn_db c'" "ds_actions st' = ds_actions st"
    "ds_receiver_open st' = ds_receiver_open st" by blast
  from sends [OF st'(2), of a p] st' c'(3) Ok v show ?thesis
    by (cases "file_states (cn_db ?c) (a, p)")
      (auto simp: refines_def resolving_def spec_set_def daemon_view_of_def live_def)
next
  case (Err resp)
  then show ?thesis using inv by (auto simp: refines_def resolving_def spec_set_def daemon_view_of_def)
qed simp

lemma daemon_handle_spec:
  assumes inv: "daemon_inv env st"
  shows "refines env h (daemon_handle env h req) (spec_handle h (live h st) req) st"
proof (cases req)
  case (GetStatus path)
  then show ?thesis using status_refines [OF inv, of h path]
    by (auto simp: refines_def live_def daemon_view_of_def)
next
  case (GetStatusBatch paths)
  then show ?thesis using status_batch_refines [OF inv, of h paths]
    by (auto simp: refines_def live_def daemon_view_of_def bindS_def)
next
  case (SetPinned path pinned)
  have "\<exists>st'. bindS (if pinned then send_action h (Force a p) else returnS ()) (\<lambda>_. returnS RespOk) st = (Ok RespOk, st') \<and>
      daemon_inv env st' \<and> live h st' = live h st \<and>
      daemon_view_of st' = (fst (daemon_view_of st), snd (daemon_view_of st) @ (if pinned \<and> live h st then [Force a p] else []))"
    if "daemon_inv env st" for a p and st :: "'a daemon_state"
    using send_action_refines [OF that, of h "Force a p"] that by (auto simp: bindS_def)
  from set_request_refines [where h = h and path = path and acts = "\<lambda>l a p. if pinned \<and> l then [Force a p] else []" and
      k = "\<lambda>a p. bindS (if pinned then send_action h (Force a p) else returnS ()) (\<lambda>_. returnS RespOk)",
      OF inv set_pinned_refines this] SetPinned
  show ?thesis by (simp add: refines_def)
next
  case (SetCloudOnly path)
  have "\<exists>st'. returnS RespOk st = (Ok RespOk, st') \<and> daemon_inv env st' \<and> live h st' = live h st \<and>
      daemon_view_of st' = (fst (daemon_view_of st), snd (daemon_view_of st) @ [])"
    if "daemon_inv env st" for st :: "'a daemon_state" using that by simp
  from set_request_refines [where h = h and path = path and k = "\<lambda>_ _. returnS RespOk" and acts = "\<lambda>_ _ _. []",
      OF inv set_cloud_only_refines this]
    SetCloudOnly
  show ?thesis by (simp add: refines_def)
next
  case (ForceSync path)
  show ?thesis
  proof (cases "resolve_and_lookup h path")
    case (Ok v)
    obtain a p slug where v: "v = (a, p, slug)" by (cases v)
    from send_action_refines [OF inv, of h "Force a p"] ForceSync Ok v show ?thesis
      by (auto simp: refines_def resolving_def bindS_def daemon_view_of_def)
  next
    case (Err resp)
    then show ?thesis using ForceSync inv by (auto simp: refines_def resolving_def daemon_view_of_def)
  qed simp
next
  case (PauseSync provider)
  then show ?thesis using send_action_refines [OF inv, of h "Pause (Option.bind provider provider_from_slug)"]
    by (auto simp: refines_def bindS_def daemon_view_of_def)
next
  case (ResumeSync provider)
  then show ?thesis using send_action_refines [OF inv, of h "Resume (Option.bind provider provider_from_slug)"]
    by (auto simp: refines_def bindS_def daemon_view_of_def)
qed

lemma daemon_answers_spec:
  assumes "daemon_inv env st" and "spec_run h (live h st) reqs (daemon_view_of st) = (resps, v)"
  shows "\<exists>st'. answers (daemon_handle env h) reqs st = (map Ok resps, st') \<and> daemon_inv env st' \<and>
    daemon_view_of st' = v \<and> live h st' = live h st"
  using assms
proof (induction reqs arbitrary: st resps)
  case (Cons req reqs)
  from daemon_handle_spec [OF Cons.prems(1), of h req] obtain st1 where 1:
    "daemon_handle env h req st = (Ok (fst (spec_handle h (live h st) req (daemon_view_of st))), st1)"
    "daemon_inv env st1" "daemon_view_of st1 = snd (spec_handle h (live h st) req (daemon_view_of st))"
    "live h st1 = live h st" by (auto simp: refines_def)
  obtain rest where rest: "spec_run h (live h st1) reqs (daemon_view_of st1) = (rest, v)"
    "resps = fst (spec_handle h (live h st) req (daemon_view_of st)) # rest"
    using Cons.prems(2) 1(3,4) by (auto split: prod.splits)
  from Cons.IH [OF 1(2) rest(1)] 1 rest(2) show ?case by auto
qed simp

section \<open>Properties of the daemon's handler\<close>

definition sample_daemon :: DaemonHandler where
  "sample_daemon = \<lparr> dh_sync_root = ''/r'', dh_provider_accounts = [(''gdrive'', AccountId ''acc'')], dh_action_tx = True \<rparr>"

definition sample_daemon_state :: "nat daemon_state" where
  "sample_daemon_state = \<lparr> ds_db = \<lparr> dbh_conn = sample_conn sample_db, dbh_poisoned = False \<rparr>, ds_actions = [],
     ds_receiver_open = True \<rparr>"

lemma sample_daemon_ok [simp]: "daemon_inv sample_env sample_daemon_state" "live sample_daemon sample_daemon_state"
proof -
  have "cloud_path_as_str (cloud_path_new (cloud_path_as_str (cloud_path_new ''/docs/a''))) =
      cloud_path_as_str (cloud_path_new ''/docs/a'')"
    by (simp add: cloud_path_new_id normal_path_new)
  then have "files_inv sample_env (sample_conn sample_db)"
    using sample_meta_inv by (simp add: handle_inv_def meta_inv_def sample_meta_def files_inv_def)
      (simp add: sample_conn_def sample_db_def sample_file_def)
  then show "daemon_inv sample_env sample_daemon_state"
    by (simp add: daemon_inv_def sample_daemon_state_def)
  show "live sample_daemon sample_daemon_state"
    by (simp add: live_def sample_daemon_def sample_daemon_state_def)
qed

lemma sample_daemon_view [simp]:
  "file_states sample_db (AccountId ''acc'', cloud_path_new ''/docs/a'') = Some Pending"
  by (simp add: file_states_def sample_db_def empty_db_def path_key_def sample_file_def row_state_def state_of_column_def)

lemma sample_daemon_resolves [simp]:
  "resolve_and_lookup sample_daemon ''/r/gdrive/docs/a'' = Ok (AccountId ''acc'', cloud_path_new ''/docs/a'', ''gdrive'')"
  "resolve_and_lookup sample_daemon ''/r/x'' = Err (RespError ''unknown provider: x'')"
  by (simp_all add: resolve_and_lookup_def sample_daemon_def lookup_account_def resolve_local_def path_strip_prefix_def
      path_components_def piece_components_def path_is_absolute_def starts_with_def path_collect_def path_join_def)

text \<open>
  C3: On a working database whose files have distinct paths, any sequence of requests is answered as
  the specification says, on every branch: the state a file is reported in, the two requests
  that set it, the actions sent to the synchronisation loop and the error messages for paths
  outside the root, unknown providers and unknown files. No request fails or panics, and the
  table holds the states of the specification afterwards.
\<close>

theorem daemon_requests_refine:
  assumes "daemon_inv env st"
  shows "\<exists>st'. answers (daemon_handle env h) reqs st =
      (map Ok (fst (spec_run h (live h st) reqs (daemon_view_of st))), st') \<and>
    daemon_inv env st' \<and> daemon_view_of st' = snd (spec_run h (live h st) reqs (daemon_view_of st))"
  using daemon_answers_spec [OF assms, of h reqs] by (metis prod.collapse)

theorem daemon_requests_refine_witness:
  "\<exists>st'. answers (daemon_handle sample_env sample_daemon)
      [SetPinned ''/r/gdrive/docs/a'' True, SetCloudOnly ''/r/gdrive/docs/a'', GetStatusBatch [''/r/gdrive/docs/a'', ''/r/x''],
       PauseSync (Some ''nowhere'')] sample_daemon_state =
    (map Ok [RespOk, RespOk, RespStatusBatch
        [\<lparr> fst_path = ''/r/gdrive/docs/a'', fst_state = CloudOnly, fst_provider = Some ''gdrive'' \<rparr>,
         \<lparr> fst_path = ''/r/x'', fst_state = Error, fst_provider = None \<rparr>], RespOk], st') \<and>
    ds_actions st' = [Force (AccountId ''acc'') (cloud_path_new ''/docs/a''), Pause None]"
proof -
  have "cn_db (dbh_conn (ds_db sample_daemon_state)) = sample_db" "ds_actions sample_daemon_state = []"
    by (simp_all add: sample_daemon_state_def sample_conn_def)
  then show ?thesis
    using daemon_requests_refine [OF sample_daemon_ok(1), of sample_daemon "[SetPinned ''/r/gdrive/docs/a'' True,
      SetCloudOnly ''/r/gdrive/docs/a'', GetStatusBatch [''/r/gdrive/docs/a'', ''/r/x''], PauseSync (Some ''nowhere'')]"]
    by (auto simp: daemon_view_of_def spec_set_def spec_status_def batch_entry_def provider_from_slug_def)
qed

text \<open>Codecs for two of the requests and their responses.\<close>

definition daemon_rq :: "Request codec" where
  "daemon_rq = \<lparr> to_json = (\<lambda>m. case m of GetStatus p \<Rightarrow> Ok (''{g'' @ p @ ''}'') | SetCloudOnly p \<Rightarrow> Ok (''{c'' @ p @ ''}'')
       | _ \<Rightarrow> Err ''unsupported''),
     from_json = (\<lambda>t. if t ! 1 = CHR ''g'' then Ok (GetStatus (tl (tl (butlast t)))) else Ok (SetCloudOnly (tl (tl (butlast t))))) \<rparr>"

definition daemon_rs :: "Response codec" where
  "daemon_rs = \<lparr> to_json = (\<lambda>m. case m of RespOk \<Rightarrow> Ok ''{}'' | RespStatus p s q e \<Rightarrow> Ok (''{'' @ p @ ''}'') | _ \<Rightarrow> Err ''unsupported''),
     from_json = (\<lambda>t. if t = ''{}'' then Ok RespOk else Ok (RespStatus (tl (butlast t)) CloudOnly (Some ''gdrive'') None)) \<rparr>"

definition sample_daemon_conn :: "nat daemon_state conn_state" where
  "sample_daemon_conn = \<lparr> cs_reader = \<lparr> rd_bytes = [], rd_error = None \<rparr>, cs_writer = \<lparr> wr_sent = [], wr_fault = (\<lambda>_ _. None) \<rparr>,
     cs_handler = sample_daemon_state \<rparr>"

text \<open>
  C14: A client of a running daemon, over a connection without faults, is told for every request, in
  order, what the specification of the daemon says: after \<open>SetCloudOnly\<close> the status of the
  file is \<open>CloudOnly\<close>, and so on; the requests leave the files table as the specification says. The messages are
  within the size limit (\<open>codec_ok\<close>).
\<close>

theorem clients_see_the_specification:
  assumes "link_idle [] (c, s)" and "\<forall>req \<in> set reqs. codec_ok rq req" and "daemon_inv env (cs_handler s)"
    and "spec_run h (live h (cs_handler s)) reqs (daemon_view_of (cs_handler s)) = (resps, v)"
    and "\<forall>r \<in> set resps. codec_ok rs r"
  shows "\<exists>st'. calls rq rs (daemon_handle env h) reqs (c, s) = (Ok resps, (c, s\<lparr> cs_handler := st' \<rparr>)) \<and>
    daemon_inv env st' \<and> daemon_view_of st' = v"
proof -
  obtain st' where st': "answers (daemon_handle env h) reqs (cs_handler s) = (map Ok resps, st')"
    "daemon_inv env st'" "daemon_view_of st' = v"
    using daemon_answers_spec [OF assms(3,4)] by blast
  have a: "answer (Ok r) = r" for r by (simp add: answer_def)
  have "\<forall>r \<in> set (map Ok resps). r \<noteq> Panicked \<and> codec_ok rs (answer r)" using assms(5) a by auto
  from calls_answered [where handler = "daemon_handle env h", OF assms(1,2) st'(1) this] st'(2,3) a
  show ?thesis by (auto simp: comp_def)
qed

theorem clients_see_the_specification_witness:
  "\<exists>st'. calls daemon_rq daemon_rs (daemon_handle sample_env sample_daemon)
      [SetCloudOnly ''/r/gdrive/docs/a'', GetStatus ''/r/gdrive/docs/a''] (sample_client, sample_daemon_conn) =
    (Ok [RespOk, RespStatus ''/r/gdrive/docs/a'' CloudOnly (Some ''gdrive'') None],
     (sample_client, sample_daemon_conn\<lparr> cs_handler := st' \<rparr>)) \<and> ds_actions st' = []"
proof -
  let ?reqs = "[SetCloudOnly ''/r/gdrive/docs/a'', GetStatus ''/r/gdrive/docs/a'']"
    and ?resps = "[RespOk, RespStatus ''/r/gdrive/docs/a'' CloudOnly (Some ''gdrive'') None]"
  have st: "cs_handler sample_daemon_conn = sample_daemon_state" by (simp add: sample_daemon_conn_def)
  have view: "daemon_view_of sample_daemon_state = (file_states sample_db, [])"
    by (simp add: daemon_view_of_def sample_daemon_state_def sample_conn_def)
  have link: "link_idle [] (sample_client, sample_daemon_conn)"
    by (simp add: link_idle_def sample_client_def sample_daemon_conn_def writes_ok_def)
  have rq: "\<forall>req \<in> set ?reqs. codec_ok daemon_rq req"
    by (simp add: codec_ok_def daemon_rq_def MAX_MESSAGE_SIZE_def utf8_cont_def)
  have rs: "\<forall>r \<in> set ?resps. codec_ok daemon_rs r"
    by (simp add: codec_ok_def daemon_rs_def MAX_MESSAGE_SIZE_def utf8_cont_def)
  have run: "spec_run sample_daemon True ?reqs (file_states sample_db, []) = (?resps,
      (file_states sample_db)((AccountId ''acc'', cloud_path_new ''/docs/a'') \<mapsto> CloudOnly), [])"
    by (simp add: spec_set_def spec_status_def)
  from clients_see_the_specification [where env = sample_env and h = sample_daemon, OF link rq _ _ rs] st view run
  show ?thesis by (fastforce simp: daemon_view_of_def)
qed

end
