(* ===== verification/Daemon_Main.thy ===== *)
theory Daemon_Main
  imports Daemon Gdrive Config
begin

text \<open>
  The daemon's \<open>main\<close> (\<open>cloudsync-daemon/src/main.rs\<close>): what it opens at the start, the
  initial synchronisation and the endless refresh loop, and what the loop does on the Google
  Drive provider. Logging and the parsing of arguments are left out; the steps that fail end
  the program with their message.
\<close>

section \<open>Starting\<close>

record Args =
  args_verbose :: bool
  args_foreground :: bool
  args_config :: "string option"
  args_skip_initial_sync :: bool
  args_refresh_interval :: u64

definition daemon_migrations :: "string \<Rightarrow> string \<Rightarrow> Migrator" where
  "daemon_migrations accounts_migration files_migration =
     [\<lparr> mg_version = 1, mg_description = ''Create accounts table'', mg_sql = accounts_migration \<rparr>,
      \<lparr> mg_version = 2, mg_description = ''Create files table'', mg_sql = files_migration \<rparr>]"

text \<open>Paths, configuration, the provider's directory and the database, in this order.\<close>

record 's daemon_parts =
  dp_config :: Config
  dp_provider_root :: PathBuf
  dp_db :: "'s Database"

definition daemon_open ::
  "'s db_env \<Rightarrow> 'w io \<Rightarrow> toml \<Rightarrow> PathBuf option \<Rightarrow> CloudSyncPaths option \<Rightarrow> Migrator \<Rightarrow>
   (string \<Rightarrow> database option) \<Rightarrow> 's \<Rightarrow> ('w world, 's daemon_parts, string) st" where
  "daemon_open env io toml home_dir paths migrations store sys =
     bindS (liftS (ok_or ''Failed to determine CloudSync directory paths'' paths)) (\<lambda>paths.
     bindS (\<lambda>w. (map_err (\<lambda>e. ''Failed to load config: '' @ config_error_str e)
        (load_from_file io toml home_dir (config_file paths) w), w)) (\<lambda>config.
     bindS (map_errS (\<lambda>e. ''Failed to create provider root: '' @ e)
        (ensure_provider_root io (cfg_sync config) ''gdrive'')) (\<lambda>provider_root.
     bindS (liftS (map_err (\<lambda>e. ''Failed to open database: '' @ db_error_str e)
        (database_open env (database_path paths) migrations store sys))) (\<lambda>db.
     returnS \<lparr> dp_config = config, dp_provider_root = provider_root, dp_db = db \<rparr>))))"

text \<open>\<open>unwrap_or_default\<close>: when the accounts cannot be listed there are none.\<close>

definition provider_accounts :: "'s db_env \<Rightarrow> 's Database \<Rightarrow> ((string \<times> AccountId) list, string) outcome \<times> 's Database" where
  "provider_accounts env db = (case with_conn (list_accounts env True) db of
     (Ok accounts, db') \<Rightarrow> (Ok (map (\<lambda>a. (provider_as_str (acc_provider a), acc_id a)) accounts), db')
   | (Err _, db') \<Rightarrow> (Ok [], db')
   | (Panicked, db') \<Rightarrow> (Panicked, db'))"

text \<open>The handler is built without a sender for its actions.\<close>

definition daemon_handler_new :: "PathBuf \<Rightarrow> (string \<times> AccountId) list \<Rightarrow> DaemonHandler" where
  "daemon_handler_new sync_root accounts =
     \<lparr> dh_sync_root = sync_root, dh_provider_accounts = accounts, dh_action_tx = False \<rparr>"

section \<open>Synchronising\<close>

text \<open>An error of the engine is logged; a panic ends the program.\<close>

definition logged :: "('s, 'a, 'e) st \<Rightarrow> ('s, unit, 'e) st" where
  "logged m s = (case m s of (Ok _, s') \<Rightarrow> (Ok (), s') | (Err _, s') \<Rightarrow> (Ok (), s') | (Panicked, s') \<Rightarrow> (Panicked, s'))"

definition startup_sync ::
  "'s sys \<Rightarrow> 'w io \<Rightarrow> 'w SyncEngine \<Rightarrow> PathBuf \<Rightarrow> bool \<Rightarrow> (('s, 'w) engine_state, unit, SyncError) st" where
  "startup_sync env io eg root skip_initial_sync =
     (if \<not> skip_initial_sync then
        bindS (logged (initial_sync env eg cloud_path_root)) (\<lambda>_.
        logged (execute_operations io eg root None))
      else returnS ())"

text \<open>One turn of the loop; \<open>None\<close> is a refresh that never returns. The cursor is always \<open>None\<close>.\<close>

definition refresh_round ::
  "'s sys \<Rightarrow> 'w io \<Rightarrow> 'w SyncEngine \<Rightarrow> PathBuf \<Rightarrow> ('s, 'w) engine_state \<Rightarrow>
   ((unit, SyncError) outcome \<times> ('s, 'w) engine_state) option" where
  "refresh_round env io eg root st =
     (let cursor = None
      in case refresh_sync env eg cursor st of
           None \<Rightarrow> None
         | Some (r, st1) \<Rightarrow> Some (bindS (logged (\<lambda>s. (r, s))) (\<lambda>_. logged (execute_operations io eg root None)) st1))"

text \<open>The first \<open>n\<close> turns of the endless loop, between which the program only sleeps.\<close>

fun refresh_rounds ::
  "'s sys \<Rightarrow> 'w io \<Rightarrow> 'w SyncEngine \<Rightarrow> PathBuf \<Rightarrow> nat \<Rightarrow> ('s, 'w) engine_state \<Rightarrow>
   ((unit, SyncError) outcome \<times> ('s, 'w) engine_state) option" where
  "refresh_rounds env io eg root 0 st = Some (Ok (), st)"
| "refresh_rounds env io eg root (Suc n) st = (case refresh_round env io eg root st of
     None \<Rightarrow> None
   | Some (Ok _, st') \<Rightarrow> refresh_rounds env io eg root n st'
   | Some (r, st') \<Rightarrow> Some (r, st'))"

text \<open>\<open>tokio::time::interval\<close> panics when its period is zero, which the arguments allow.\<close>

definition daemon_sync ::
  "'s sys \<Rightarrow> 'w io \<Rightarrow> 'w SyncEngine \<Rightarrow> PathBuf \<Rightarrow> Args \<Rightarrow> nat \<Rightarrow> ('s, 'w) engine_state \<Rightarrow>
   ((unit, SyncError) outcome \<times> ('s, 'w) engine_state) option" where
  "daemon_sync env io eg root args n st =
     (case startup_sync env io eg root (args_skip_initial_sync args) st of
        (Ok _, st') \<Rightarrow> if args_refresh_interval args = 0 then Some (Panicked, st') else refresh_rounds env io eg root n st'
      | (r, st') \<Rightarrow> Some (r, st'))"

section \<open>The queue after a turn\<close>

lemma execute_all:
  assumes "execute_operations io eg root None st = (r, st')" and "length (es_queue st) < 2 ^ 64 - 1"
  shows "r = Panicked \<or> (\<exists>n. r = Ok n) \<and> es_queue st' = []"
proof -
  obtain xs where xs: "pops (length (es_queue st)) (es_queue st) = (xs, [])"
    using queue_order.hq.pop_n_all [of "es_queue st" "length (es_queue st)"] by (metis mset_zero_iff order_refl size_mset surj_pair)
  from queue_order.hq.pop_n_contents [OF xs] have len: "length xs = length (es_queue st)"
    by (metis add.right_neutral mset.simps(1) size_mset)
  from execute_loop_runs [OF xs, of io eg root "2 ^ 64 - 1" 0 r st'] assms(1) obtain rest where
    rest: "run_operations io eg root (2 ^ 64 - 1) 0 xs (es_world st) = (r, rest, es_world st')"
      "pops (length (es_queue st')) (es_queue st') = (rest, [])"
    by (auto simp: execute_operations_def)
  have "length (filter (\<lambda>x. op_type x = Download) xs) < 2 ^ 64 - 1"
    using assms(2) len length_filter_le [of "\<lambda>x. op_type x = Download" xs] by linarith
  then have "r = Panicked \<or> (\<exists>n. r = Ok n) \<and> rest = []" using run_operations_result [OF rest(1)] by (cases r) auto
  then show ?thesis using queue_order.hq.pop_n_contents [OF rest(2)] by auto
qed

lemma execute_empty:
  "es_queue st = [] \<Longrightarrow> execute_operations io eg root m st = (Ok 0, st)"
  by (simp add: execute_operations_def execute_loop.simps queue_pop_def)

text \<open>The initial listing queues at most what was listed.\<close>

lemma initial_sync_queue:
  assumes "initial_sync env eg root st = (r, st')" and "es_queue st = []"
    and "\<And>items w. cp_list_folder (eg_provider eg) root (es_world st) = (Ok items, w) \<Longrightarrow> length items < k" and "0 < k"
  shows "length (es_queue st') < k"
proof -
  obtain lr w1 where l: "cp_list_folder (eg_provider eg) root (es_world st) = (lr, w1)" by fastforce
  show ?thesis
  proof (cases lr)
    case (Ok items)
    obtain ops s' where q: "queue_items env eg items 0 (st\<lparr> es_world := w1 \<rparr>) =
        (0 + length ops, st\<lparr> es_world := w1, es_queue := push_all ops (es_queue st), es_sys := s' \<rparr>)"
      "list_all2 (downloads_item High (eg_account_id eg)) (filter (\<lambda>i. \<not> ci_is_folder i) items) ops"
      using queue_items_spec [of env eg items 0 "st\<lparr> es_world := w1 \<rparr>"] by auto
    obtain cr w2 where c: "cp_get_changes (eg_provider eg) None w1 = (cr, w2)" by fastforce
    have "es_queue st' = push_all ops []"
      using assms(1,2) l Ok q(1) c by (cases cr) (auto simp: initial_sync_def st_defs on_world_def)
    moreover have "length (push_all ops []) = length ops" by (metis mset_push_all size_mset add.right_neutral mset.simps(1))
    moreover have "length ops \<le> length items"
      using list_all2_lengthD [OF q(2)] length_filter_le [of "\<lambda>i. \<not> ci_is_folder i" items] by simp
    moreover have "length items < k" using assms(3) l Ok by simp
    ultimately show ?thesis by simp
  qed (use assms l in \<open>auto simp: initial_sync_def st_defs on_world_def\<close>)
qed

lemma startup_drains:
  assumes "startup_sync env io eg root skip st = (Ok (), st')" and "es_queue st = []"
    and "\<And>items w. cp_list_folder (eg_provider eg) cloud_path_root (es_world st) = (Ok items, w) \<Longrightarrow> length items < 2 ^ 64 - 1"
  shows "es_queue st' = []"
proof (cases skip)
  case True
  with assms show ?thesis by (simp add: startup_sync_def)
next
  case False
  obtain r st1 where init: "initial_sync env eg cloud_path_root st = (r, st1)" by fastforce
  obtain q st2 where ex: "execute_operations io eg root None st1 = (q, st2)" by fastforce
  have len: "length (es_queue st1) < 2 ^ 64 - 1" by (rule initial_sync_queue [OF init assms(2,3)]) simp_all
  from execute_all [OF ex len] assms(1) False init ex show ?thesis
    by (cases r; cases q) (auto simp: startup_sync_def logged_def bindS_def)
qed

section \<open>The loop on Google Drive\<close>

text \<open>
  Without a cursor the provider only asks for a token, so a turn that starts with an empty
  queue queues nothing and executes nothing.
\<close>

lemma gdrive_round:
  assumes "eg_provider eg = gdrive_provider hub io' parse" and "es_queue st = []"
    and "fst (hub_start_page_token hub (es_world st)) \<noteq> Panicked"
  shows "refresh_round env io eg root st =
    Some (Ok (), st\<lparr> es_world := snd (hub_start_page_token hub (es_world st)) \<rparr>)"
proof -
  obtain r w where r: "hub_start_page_token hub (es_world st) = (r, w)" by fastforce
  let ?st = "st\<lparr> es_world := w \<rparr>"
  have "\<exists>q. refresh_sync env eg None st = Some (q, ?st) \<and> q \<noteq> Panicked"
    using assms r
    by (cases r; cases "case r of Ok t \<Rightarrow> t | _ \<Rightarrow> None")
      (auto simp: refresh_sync_def refresh_loop.simps on_world_def gdrive_provider_def gdrive_get_changes_def bindS_def
        map_errS_def)
  moreover have "execute_operations io eg root None ?st = (Ok 0, ?st)" using assms(2) by (intro execute_empty) simp
  ultimately show ?thesis using r
    by (auto simp: refresh_round_def logged_def bindS_def split: outcome.splits)
qed

text \<open>Queues of one operation.\<close>

lemma push_single: "queue_push x [] = [x]"
  unfolding queue_push_def by (metis mset_heap_push mset.simps(1) mset_single_iff)

lemma pop_single: "queue_pop [x] = (Ok x, [])"
proof -
  obtain y ys where y: "heap_pop queued_cmp [x] = Some (y, ys)"
    using heap_pop_None_iff [of queued_cmp "[x]"] by fastforce
  from heap_pop_length [OF y] have "ys = []" by simp
  moreover have "y = x" using heap_pop_mset [OF y] \<open>ys = []\<close> by simp
  ultimately show ?thesis using y by (simp add: queue_pop_def)
qed

text \<open>
  After the start, with or without the initial synchronisation, the queue is empty, and every
  turn of the refresh loop ends, asks for a fresh start token and does nothing else.
\<close>

lemma daemon_sync_idle:
  assumes "eg_provider eg = gdrive_provider hub io' parse" and "es_queue st = []"
    and "\<forall>items w. cp_list_folder (eg_provider eg) cloud_path_root (es_world st) = (Ok items, w) \<longrightarrow> length items < 2 ^ 64 - 1"
    and "\<forall>w. fst (hub_start_page_token hub w) \<noteq> Panicked"
    and "startup_sync env io eg root (args_skip_initial_sync args) st = (Ok (), st1)"
  shows "daemon_sync env io eg root args n st =
      Some (if args_refresh_interval args = 0 then (Panicked, st1)
        else (Ok (), st1\<lparr> es_world := ((\<lambda>w. snd (hub_start_page_token hub w)) ^^ n) (es_world st1) \<rparr>)) \<and>
    es_queue st1 = []"
proof -
  have queue: "es_queue st1 = []" using startup_drains [OF assms(5,2)] assms(3) by blast
  have "refresh_rounds env io eg root n s =
      Some (Ok (), s\<lparr> es_world := ((\<lambda>w. snd (hub_start_page_token hub w)) ^^ n) (es_world s) \<rparr>)" if "es_queue s = []" for s
    using that
  proof (induction n arbitrary: s)
    case (Suc n)
    from gdrive_round [OF assms(1) Suc.prems] assms(4)
    have "refresh_rounds env io eg root (Suc n) s =
        refresh_rounds env io eg root n (s\<lparr> es_world := snd (hub_start_page_token hub (es_world s)) \<rparr>)" by simp
    with Suc show ?case by (simp add: funpow_Suc_right del: refresh_rounds.simps funpow.simps)
  qed simp
  with queue assms(5) show ?thesis by (simp add: daemon_sync_def)
qed

text \<open>The start on the sample drive: one file is listed, and its download breaks off.\<close>

lemma sample_startup:
  fixes w :: "unit world"
  assumes eg: "eg_provider eg = gdrive_provider sample_hub plain_io (\<lambda>u. Some u)" and dir: "is_dir_at (w_disk w) [''u'']" "is_dir_at (w_disk w) [''u'', ''UniCloudST'']"
      "is_dir_at (w_disk w) [''u'', ''UniCloudST'', ''gdrive'']"
    and absent: "\<not> is_dir_at (w_disk w) [''u'', ''UniCloudST'', ''gdrive'', ''x'']"
  shows "\<exists>st1. startup_sync env plain_io eg ''/u/UniCloudST/gdrive'' False \<lparr> es_queue = [], es_sys = k, es_world = w \<rparr> = (Ok (), st1) \<and>
    w_disk (es_world st1) [''u'', ''UniCloudST'', ''gdrive'', ''x''] = Some (FileN [1, 2, 3])"
proof -
  have root: "is_dir_at (w_disk w) []" by (simp add: is_dir_at_def)
  let ?acc = "eg_account_id eg"
  define mk where "mk = download_high_priority env ?acc (FileId ''a'') (cloud_path_new ''/x'') (Some (as_u64 3)) k"
  let ?st = "\<lparr> es_queue = [fst mk], es_sys = snd mk, es_world = w \<rparr>"
  have init: "initial_sync env eg cloud_path_root \<lparr> es_queue = [], es_sys = k, es_world = w \<rparr> = (Ok 1, ?st)"
    by (simp add: initial_sync_def eg gdrive_provider_def gdrive_list_folder_def cloud_path_is_root_def
        cloud_path_root_def sample_hub_def on_world_def bindS_def map_errS_def file_to_cloud_item_def
        sample_gfile_def gdrive_get_changes_def push_new_def push_single mk_def split: prod.splits)
  have op: "op_type (fst mk) = Download" "op_path (fst mk) = cloud_path_new ''/x''" "op_file_id (fst mk) = FileId ''a''"
    using download_priority_item(1) [of env ?acc "\<lparr> ci_id = FileId ''a'', ci_name = ''x'', ci_path = cloud_path_new ''/x'',
       ci_is_folder = False, ci_size = Some (as_u64 3), ci_content_hash = None, ci_modified = 0, ci_created = None, ci_mime_type = None \<rparr>"
       k "fst mk" "snd mk"]
    by (simp_all add: mk_def downloads_item_def)
  have target: "download_target ''/u/UniCloudST/gdrive'' (fst mk) = ''/u/UniCloudST/gdrive/x''"
    using op(2) by (simp add: download_target_def cloud_path_new_def starts_with_def replace_char_def trim_start_matches_def
        path_join_def path_is_absolute_def Let_def)
  let ?w2 = "w\<lparr> w_disk := (w_disk w)([''u'', ''UniCloudST'', ''gdrive'', ''x''] \<mapsto> FileN [1, 2, 3]) \<rparr>"
  have parent: "path_parent ''/u/UniCloudST/gdrive/x'' = Some ''/u/UniCloudST/gdrive''"
    by (simp add: path_parent_def path_components_def path_is_absolute_def starts_with_def piece_components_def
        path_collect_def path_join_def)
  have dirs: "create_dir_all plain_io ''/u/UniCloudST/gdrive'' w = (Ok (), w)"
    using dir by (auto simp: create_dir_all_def path_components_def path_is_absolute_def starts_with_def piece_components_def
        plain_io_def is_dir_at_def)
  have "cp_download (eg_provider eg) (FileId ''a'') ''/u/UniCloudST/gdrive/x'' w =
      (Err (gdrive_error ''Failed to read response chunk: reset''), ?w2)"
    using root dir absent by (simp add: eg gdrive_provider_def gdrive_download_def sample_hub_def bindS_def map_errS_def in_dl_def
        native_url_def sample_gfile_def is_cloud_native_def starts_with_def file_create_def plain_io_def path_components_def
        path_is_absolute_def piece_components_def send_progress_def file_write_all_def file_bytes_def Let_def)
  then have "\<exists>e. execute_download plain_io eg (fst mk) ''/u/UniCloudST/gdrive'' w = (Err e, ?w2)"
    using op(3) target parent dirs by (simp add: execute_download_def bindS_def map_errS_def Let_def del: fun_upd_apply)
  then obtain e where "execute_download plain_io eg (fst mk) ''/u/UniCloudST/gdrive'' (es_world ?st) = (Err e, ?w2)"
    by auto
  then have "execute_operations plain_io eg ''/u/UniCloudST/gdrive'' None ?st =
      (Ok 0, ?st\<lparr> es_queue := [], es_world := ?w2 \<rparr>)"
    using op(1) execute_empty [of "?st\<lparr> es_queue := [], es_world := ?w2 \<rparr>" plain_io eg "''/u/UniCloudST/gdrive''" None]
    by (simp add: execute_operations_def execute_loop.simps [of _ _ _ _ _ ?st] pop_single del: fun_upd_apply)
  with init show ?thesis
    by (simp add: startup_sync_def logged_def bindS_def del: fun_upd_apply) simp
qed

end
