(* ===== verification/Daemon_Start.thy ===== *)
theory Daemon_Start
  imports Daemon_Main Gdrive_Auth
begin

text \<open>
  The daemon's start as a whole (\<open>cloudsync-daemon/src/main.rs\<close>): the Google Drive client and
  provider, the engine, the accounts, the request handler and the IPC server, after what
  \<open>Daemon_Main\<close> opens, and what follows for the requests the daemon then answers.
\<close>

section \<open>The steps of the start\<close>

text \<open>\<open>env_var\<close> is \<open>std::env::var\<close>, after the \<open>.env\<close> file was loaded.\<close>

definition create_gdrive_client ::
  "('t, 'a, 'w) yup \<Rightarrow> (string \<Rightarrow> string option) \<Rightarrow> PathBuf \<Rightarrow> ('w world, 'a GoogleDriveClient, string) st" where
  "create_gdrive_client yup env_var cache =
     bindS (liftS (ok_or ''GOOGLE_CLIENT_ID environment variable not set'' (env_var ''GOOGLE_CLIENT_ID''))) (\<lambda>client_id.
     bindS (liftS (ok_or ''GOOGLE_CLIENT_SECRET environment variable not set'' (env_var ''GOOGLE_CLIENT_SECRET'')))
       (\<lambda>client_secret.
     map_errS (\<lambda>e. ''Failed to create Google Drive client: '' @ oauth_error_str e)
       (gdrive_client_new yup (default_gdrive client_id client_secret) (Some cache) HTTPRedirect)))"

text \<open>
  What the program gets from outside: the system, the libraries and the environment.
\<close>

record ('s, 't, 'a, 'w) daemon_env =
  dn_db :: "'s db_env"
  dn_io :: "'w io"
  dn_toml :: toml
  dn_home :: "PathBuf option"
  dn_paths :: "CloudSyncPaths option"
  dn_os :: os_env
  dn_vars :: "string \<Rightarrow> string option"
  dn_yup :: "('t, 'a, 'w) yup"
  dn_native_roots :: "(unit, string) outcome"
  dn_drive_hub :: "'a \<Rightarrow> 'w hub"
  dn_parse_url :: "string \<Rightarrow> string option"
  dn_sock :: "'w sock_api"
  dn_accounts_migration :: string
  dn_files_migration :: string

record ('s, 'w) daemon_ready =
  dr_provider_root :: PathBuf
  dr_engine :: "'w SyncEngine"
  dr_handler :: DaemonHandler
  dr_db :: "'s Database"
  dr_server :: "IpcServer option"
  dr_sys :: 's

text \<open>A server that cannot be bound is logged and left out.\<close>

definition start_server :: "'w io \<Rightarrow> 'w sock_api \<Rightarrow> PathBuf \<Rightarrow> ('w world, IpcServer option, string) st" where
  "start_server io api path w = (case server_bind io api path w of
     (Ok server, w') \<Rightarrow> (Ok (Some server), w')
   | (Err _, w') \<Rightarrow> (Ok None, w')
   | (Panicked, w') \<Rightarrow> (Panicked, w'))"

text \<open>
  The start up to the synchronisation, with \<open>store\<close> the databases on disk and \<open>sys\<close> the state
  of the clock and the identifiers.
\<close>

definition daemon_start ::
  "('s, 't, 'a, 'w) daemon_env \<Rightarrow> (string \<Rightarrow> database option) \<Rightarrow> 's \<Rightarrow> ('w world, ('s, 'w) daemon_ready, string) st" where
  "daemon_start dn store sys =
     bindS (daemon_open (dn_db dn) (dn_io dn) (dn_toml dn) (dn_home dn) (dn_paths dn)
        (daemon_migrations (dn_accounts_migration dn) (dn_files_migration dn)) store sys) (\<lambda>parts.
     bindS (create_gdrive_client (dn_yup dn) (dn_vars dn) (case dn_paths dn of Some p \<Rightarrow> token_cache_path p | None \<Rightarrow> []))
       (\<lambda>client.
     bindS (liftS (map_err (\<lambda>e. ''Failed to create Google Drive provider: '' @ core_error_str e)
        (gdrive_provider_new (dn_native_roots dn) (dn_drive_hub dn) client))) (\<lambda>provider.
     let (account_id, sys) = account_id_new (de_sys (dn_db dn)) sys;
         engine = \<lparr> eg_provider = gdrive_provider (gp_hub provider) (dn_io dn) (dn_parse_url dn),
           eg_account_id = account_id \<rparr>;
         sync_root = syn_root_folder (cfg_sync (dp_config parts));
         (accounts, db) = provider_accounts (dn_db dn) (dp_db parts)
     in bindS (liftS accounts) (\<lambda>accounts.
        let handler = daemon_handler_new sync_root accounts
        in bindS (start_server (dn_io dn) (dn_sock dn) (ipc_socket (dn_os dn))) (\<lambda>server.
           returnS \<lparr> dr_provider_root = dp_provider_root parts, dr_engine = engine, dr_handler = handler, dr_db = db,
             dr_server = server, dr_sys = sys \<rparr>)))))"

text \<open>
  The program: the start and, with the first \<open>n\<close> turns of the refresh loop, the
  synchronisation, which begins with an empty queue. \<open>None\<close> is a refresh that never returns.
\<close>

definition daemon_main ::
  "('s, 't, 'a, 'w) daemon_env \<Rightarrow> (string \<Rightarrow> database option) \<Rightarrow> 's \<Rightarrow> Args \<Rightarrow> nat \<Rightarrow> 'w world \<Rightarrow>
   ((unit, string) outcome \<times> 'w world) option" where
  "daemon_main dn store sys args n w = (case daemon_start dn store sys w of
     (Err e, w') \<Rightarrow> Some (Err e, w')
   | (Panicked, w') \<Rightarrow> Some (Panicked, w')
   | (Ok ready, w') \<Rightarrow>
       map_option (\<lambda>(r, st). (map_err sync_error_str r, es_world st))
         (daemon_sync (de_sys (dn_db dn)) (dn_io dn) (dr_engine ready) (dr_provider_root ready) args n
            \<lparr> es_queue = [], es_sys = dr_sys ready, es_world = w' \<rparr>))"

section \<open>Requests to a daemon that was started\<close>

text \<open>What the handler says to a path when there is no account for it.\<close>

definition refusal :: "PathBuf \<Rightarrow> string \<Rightarrow> Response" where
  "refusal sync_root path = (case resolve_local sync_root path of
     None \<Rightarrow> RespError (''path outside sync root: '' @ path)
   | Some r \<Rightarrow> RespError (''unknown provider: '' @ rp_provider_slug r))"

fun accountless_answer :: "PathBuf \<Rightarrow> Request \<Rightarrow> Response" where
  "accountless_answer root (GetStatus path) = refusal root path"
| "accountless_answer root (GetStatusBatch paths) =
     RespStatusBatch (map (\<lambda>p. \<lparr> fst_path = p, fst_state = Error, fst_provider = None \<rparr>) paths)"
| "accountless_answer root (SetPinned path pinned) = refusal root path"
| "accountless_answer root (SetCloudOnly path) = refusal root path"
| "accountless_answer root (ForceSync path) = refusal root path"
| "accountless_answer root (PauseSync provider) = RespOk"
| "accountless_answer root (ResumeSync provider) = RespOk"

lemma resolve_without_accounts:
  "resolve_and_lookup (daemon_handler_new root []) path = Err (refusal root path)"
  by (simp add: resolve_and_lookup_def refusal_def daemon_handler_new_def lookup_account_def split: option.splits)

lemma resolving_without_accounts [simp]:
  "resolving (daemon_handler_new root []) path k st = (Ok (refusal root path), st)"
  by (simp add: resolving_def resolve_without_accounts)

lemma send_action_unwired [simp]: "send_action (daemon_handler_new root accounts) action st = (Ok (), st)"
  by (simp add: send_action_def daemon_handler_new_def)

lemma status_batch_without_accounts:
  "status_batch env (daemon_handler_new root []) paths st =
    (Ok (map (\<lambda>p. \<lparr> fst_path = p, fst_state = Error, fst_provider = None \<rparr>) paths), st)"
proof (induction paths)
  case (Cons p paths)
  have "batch_entry p (refusal root p) = \<lparr> fst_path = p, fst_state = Error, fst_provider = None \<rparr>"
    by (simp add: refusal_def batch_entry_def split: option.splits)
  with Cons show ?case by (simp add: get_status_for_path_def bindS_def)
qed simp

lemma handle_without_accounts:
  "daemon_handle env (daemon_handler_new root []) req st = (Ok (accountless_answer root req), st)"
  by (cases req) (simp_all add: get_status_for_path_def bindS_def status_batch_without_accounts)

lemma answers_without_accounts:
  "answers (daemon_handle env (daemon_handler_new root [])) reqs st = (map (Ok \<circ> accountless_answer root) reqs, st)"
  by (induction reqs) (simp_all add: handle_without_accounts)

section \<open>A database without accounts\<close>

text \<open>
  What the daemon relies on in its migrations' statements, which only create tables, indexes
  and triggers: they put nothing into the accounts table; and queries make no rows up.
\<close>

definition batches_add_no_account :: "sqlite \<Rightarrow> bool" where
  "batches_add_no_account sq \<longleftrightarrow>
     (\<forall>sql d d'. sq_batch sq sql d = Inr d' \<longrightarrow> db_accounts d = [] \<longrightarrow> db_accounts d' = [])"

lemma run_migrations_no_account:
  "batches_add_no_account sq \<Longrightarrow> db_accounts d = [] \<Longrightarrow> run_migrations sq ms d = Inr d' \<Longrightarrow> db_accounts d' = []"
proof (induction ms arbitrary: d)
  case (Cons m ms)
  then obtain d1 where d1: "sq_batch sq (mg_sql m) d = Inr d1"
    "run_migrations sq ms (d1\<lparr> db_user_version := mg_version m \<rparr>) = Inr d'"
    by (auto split: sum.splits)
  then have "db_accounts (d1\<lparr> db_user_version := mg_version m \<rparr>) = []"
    using Cons.prems(1,2) by (auto simp: batches_add_no_account_def)
  from Cons.IH [OF Cons.prems(1) this d1(2)] show ?case .
qed simp

lemma apply_pragmas_data: "cn_db (snd (apply_pragmas env config c)) = cn_db c"
  by (simp add: apply_pragmas_def bindS_def pragma_def split: option.splits)

lemma open_without_file:
  assumes "connection_open env (file_with_wal path) store s = Ok c" and "store path = None"
  shows "cn_db c = empty_db"
proof -
  let ?c0 = "\<lparr> cn_db = empty_db, cn_foreign_keys = False, cn_read_only = False, cn_cache_size = - 2000, cn_wal = False,
    cn_sys = s \<rparr>"
  have "apply_pragmas env (file_with_wal path) ?c0 = (Ok (), c)"
    using assms
    by (auto simp: connection_open_def Let_def split: if_splits option.splits prod.splits outcome.splits)
      (simp_all add: file_with_wal_def)
  with apply_pragmas_data [of env "file_with_wal path" ?c0] show ?thesis by simp
qed

lemma fresh_database_has_no_account:
  assumes "database_open env path ms store s = Ok db" and "store path = None" and "batches_add_no_account (de_sql env)"
  shows "db_accounts (cn_db (dbh_conn db)) = []"
proof -
  obtain c where c: "connection_open env (file_with_wal path) store s = Ok c" "migrate_opened env ms c = Ok db"
    using assms(1) by (cases "connection_open env (file_with_wal path) store s") (auto simp: database_open_def)
  have empty: "db_accounts (cn_db c) = []" using open_without_file [OF c(1) assms(2)] by (simp add: empty_db_def)
  show ?thesis
  proof (cases "ms = []")
    case True
    with c(2) empty show ?thesis by (auto simp: migrate_opened_def)
  next
    case False
    then obtain v c' where m: "migrate env ms c = (Ok v, c')" "db = \<lparr> dbh_conn = c', dbh_poisoned = False \<rparr>"
      using c(2) by (auto simp: migrate_opened_def split: prod.splits outcome.splits)
    from migrate_cases [OF m(1)] empty run_migrations_no_account [OF assms(3) empty] m(2) show ?thesis by auto
  qed
qed

lemma no_rows_no_accounts:
  assumes "scans_rows (de_sql env)" and "db_accounts (cn_db (dbh_conn db)) = []" and "provider_accounts env db = (Ok accounts, db')"
  shows "accounts = []"
proof -
  have "sq_scan_accounts (de_sql env) q [] = []" for q
    using assms(1) by (metis mset_zero_iff scans_rows_def)
  then show ?thesis
    using assms(2,3)
    by (auto simp: provider_accounts_def with_conn_def list_accounts_def sql_query_map_def map_errS_def
        split: if_splits option.splits prod.splits outcome.splits)
qed

section \<open>The actions of the daemon's clients\<close>

lemma preserves_with_db [preserve_intros]:
  assumes "\<And>st db. P (st\<lparr> ds_db := db \<rparr>) \<longleftrightarrow> P st" and "\<And>x. preserves P (k x)"
  shows "preserves P (with_db f k)"
proof (rule preservesI)
  fix st assume "P st"
  then show "P (snd (with_db f k st))"
    using assms preservesD [OF assms(2)]
    by (auto simp: with_db_def preserves_def split: prod.splits outcome.splits)
qed

lemma preserves_resolving [preserve_intros]:
  "(\<And>a p slug. preserves P (k a p slug)) \<Longrightarrow> preserves P (resolving h path k)"
  by (auto simp: preserves_def resolving_def split: outcome.splits)

lemma preserves_unwired_send [preserve_intros]: "preserves P (send_action (daemon_handler_new root accounts) action)"
  by (simp add: preserves_def)

lemma preserves_Pair [preserve_intros]: "preserves P (Pair r)"
  by (simp add: preserves_def)

lemma status_keeps_actions: "preserves (\<lambda>st. ds_actions st = acts) (get_status_for_path env h path)"
  unfolding get_status_for_path_def by (intro preserve_intros) simp_all

lemma status_batch_keeps_actions: "preserves (\<lambda>st. ds_actions st = acts) (status_batch env h paths)"
  by (induction paths) (auto intro!: preserve_intros status_keeps_actions)

lemma unwired_keeps_actions:
  "preserves (\<lambda>st. ds_actions st = acts) (daemon_handle env (daemon_handler_new root accounts) req)"
  by (cases req)
    (auto intro!: preserve_intros status_keeps_actions status_batch_keeps_actions)

lemma answers_keep_actions:
  "ds_actions (snd (answers (daemon_handle env (daemon_handler_new root accounts)) reqs st)) = ds_actions st"
proof (induction reqs arbitrary: st)
  case (Cons req reqs)
  have "ds_actions (snd (daemon_handle env (daemon_handler_new root accounts) req st)) = ds_actions st"
    using unwired_keeps_actions [of "ds_actions st" env root accounts req] by (simp add: preserves_def)
  with Cons show ?case by (simp split: prod.splits) (metis snd_conv)
qed simp

lemma started_handler:
  assumes "daemon_start dn store sys w = (Ok ready, w')"
  shows "\<exists>p config_root accounts db db'. dn_paths dn = Some p \<and>
    database_open (dn_db dn) (database_path p) (daemon_migrations (dn_accounts_migration dn) (dn_files_migration dn)) store sys = Ok db \<and>
    provider_accounts (dn_db dn) db = (Ok accounts, db') \<and> dr_handler ready = daemon_handler_new config_root accounts \<and>
    dr_db ready = db'"
proof (cases "dn_paths dn")
  case (Some p)
  from assms Some obtain parts w1 where opened:
    "daemon_open (dn_db dn) (dn_io dn) (dn_toml dn) (dn_home dn) (Some p)
        (daemon_migrations (dn_accounts_migration dn) (dn_files_migration dn)) store sys w = (Ok parts, w1)"
    by (auto simp: daemon_start_def bindS_eq_Ok)
  obtain accounts' db where listed: "provider_accounts (dn_db dn) (dp_db parts) = (accounts', db)" by fastforce
  from assms Some opened listed obtain accounts where *:
    "accounts' = Ok accounts" "dr_db ready = db"
    "dr_handler ready = daemon_handler_new (syn_root_folder (cfg_sync (dp_config parts))) accounts"
    by (auto simp: daemon_start_def bindS_eq_Ok Let_def liftS_def split_beta)
  from opened have "database_open (dn_db dn) (database_path p)
      (daemon_migrations (dn_accounts_migration dn) (dn_files_migration dn)) store sys = Ok (dp_db parts)"
    by (auto simp: daemon_open_def bindS_eq_Ok liftS_def)
  with * listed Some show ?thesis by blast
next
  case None
  with assms show ?thesis by (simp add: daemon_start_def daemon_open_def bindS_def)
qed

text \<open>The engine of a daemon that was started runs on the Google Drive provider.\<close>

lemma started_engine:
  assumes "daemon_start dn store sys w = (Ok ready, w')"
  shows "\<exists>a. eg_provider (dr_engine ready) = gdrive_provider (dn_drive_hub dn a) (dn_io dn) (dn_parse_url dn)"
  using assms
  by (auto simp: daemon_start_def bindS_eq_Ok Let_def liftS_def gdrive_provider_new_def bindO_Ok_iff split_beta)

section \<open>Properties of the start\<close>

text \<open>
  C19: A daemon that was started never passes a client's action on to its synchronisation loop: any
  sequence of requests leaves the actions sent as they were, and pausing is acknowledged all
  the same. Started without a database, which nothing in the daemon fills with accounts, it
  refuses every request for a path, whatever is synchronised meanwhile, and changes nothing.
\<close>

theorem started_daemon_drops_actions:
  assumes "daemon_start dn store sys w = (Ok ready, w')"
  shows "ds_actions (snd (answers (daemon_handle env (dr_handler ready)) reqs st)) = ds_actions st \<and>
    daemon_handle env (dr_handler ready) (PauseSync provider) st = (Ok RespOk, st) \<and>
    (scans_rows (de_sql (dn_db dn)) \<and> batches_add_no_account (de_sql (dn_db dn)) \<and>
       (\<forall>p. dn_paths dn = Some p \<longrightarrow> store (database_path p) = None) \<longrightarrow>
     answers (daemon_handle env (dr_handler ready)) reqs st =
       (map (Ok \<circ> accountless_answer (dh_sync_root (dr_handler ready))) reqs, st))"
proof -
  obtain p root accounts db db' where *: "dn_paths dn = Some p"
    "database_open (dn_db dn) (database_path p) (daemon_migrations (dn_accounts_migration dn) (dn_files_migration dn)) store sys = Ok db"
    "provider_accounts (dn_db dn) db = (Ok accounts, db')" "dr_handler ready = daemon_handler_new root accounts"
    using started_handler [OF assms] by blast
  have "accounts = []" if "scans_rows (de_sql (dn_db dn))" "batches_add_no_account (de_sql (dn_db dn))"
    "store (database_path p) = None"
    using no_rows_no_accounts [OF that(1) fresh_database_has_no_account [OF *(2) that(3,2)] *(3)] .
  moreover have "dh_sync_root (daemon_handler_new root accounts) = root" by (simp add: daemon_handler_new_def)
  ultimately show ?thesis
    using * answers_keep_actions answers_without_accounts by (auto simp: bindS_def)
qed

text \<open>A daemon on an empty disk, with simple functions for the libraries.\<close>

definition sample_paths :: CloudSyncPaths where
  "sample_paths = \<lparr> pd_config_dir = ''/c'', pd_data_dir = ''/d'', pd_cache_dir = ''/k'' \<rparr>"

definition sample_daemon_env :: "(nat, unit, unit, unit) daemon_env" where
  "sample_daemon_env = \<lparr> dn_db = sample_env, dn_io = plain_io, dn_toml = sample_toml, dn_home = Some ''/u'',
     dn_paths = Some sample_paths, dn_os = \<lparr> ev_runtime_dir = Some ''/run'', ev_uid = 0 \<rparr>, dn_vars = (\<lambda>_. Some ''x''),
     dn_yup = \<lparr> yup_read_secret = (\<lambda>_ w. (Err ''none'', w)), yup_build = (\<lambda>_ _ _ w. (Ok (), w)),
       yup_token = (\<lambda>_ _ w. (Ok ''t'', w)) \<rparr>,
     dn_native_roots = Ok (), dn_drive_hub = (\<lambda>_. sample_hub), dn_parse_url = (\<lambda>u. Some u),
     dn_sock = \<lparr> sk_listening = (\<lambda>_ _. False), sk_bind = (\<lambda>_ w. (Ok (), w)), sk_set_owner_only = (\<lambda>_ w. (Ok (), w)) \<rparr>,
     dn_accounts_migration = ''a'', dn_files_migration = ''f'' \<rparr>"

abbreviation sample_disk :: "location \<Rightarrow> node option" where
  "sample_disk \<equiv> [[''u''] \<mapsto> DirN, [''u'', ''UniCloudST''] \<mapsto> DirN, [''u'', ''UniCloudST'', ''gdrive''] \<mapsto> DirN]"

definition empty_world :: "unit world" where
  "empty_world = \<lparr> w_disk = Map.empty, w_outer = () \<rparr>"

lemma sample_database_opens:
  "database_open sample_env path (daemon_migrations ''a'' ''f'') (\<lambda>_. None) 0 =
    Ok \<lparr> dbh_conn = (sample_conn (empty_db\<lparr> db_user_version := 2, db_schema := [''a'', ''f''] \<rparr>))\<lparr> cn_wal := path \<noteq> '':memory:'' \<rparr>,
      dbh_poisoned = False \<rparr>"
  by (simp add: database_open_def connection_open_def file_with_wal_def apply_pragmas_def pragma_def bindS_def Let_def
      sample_env_def plain_sqlite_def migrate_opened_def daemon_migrations_def migrate_def current_version_def
      pending_migrations_def empty_db_def transaction_def apply_migration_def execute_batch_def set_user_version_def
      sample_conn_def)

lemma sample_daemon_opens:
  "\<exists>w'. daemon_open sample_env plain_io sample_toml (Some ''/u'') (Some sample_paths) (daemon_migrations ''a'' ''f'')
      (\<lambda>_. None) 0 empty_world =
    (Ok \<lparr> dp_config = config_default (Some ''/u''), dp_provider_root = ''/u/UniCloudST/gdrive'',
       dp_db = \<lparr> dbh_conn = sample_conn (empty_db\<lparr> db_user_version := 2, db_schema := [''a'', ''f''] \<rparr>), dbh_poisoned = False \<rparr> \<rparr>, w') \<and>
    w_disk w' = sample_disk"
proof -
  have config: "load_from_file plain_io sample_toml (Some ''/u'') (config_file sample_paths) empty_world = Ok (config_default (Some ''/u''))"
    by (simp add: load_from_file_def path_exists_def node_at_def config_file_def sample_paths_def path_join_def plain_io_def
        path_components_def path_is_absolute_def starts_with_def piece_components_def empty_world_def is_dir_at_def)
  have root: "ensure_provider_root plain_io (cfg_sync (config_default (Some ''/u''))) ''gdrive'' empty_world =
      (Ok ''/u/UniCloudST/gdrive'', empty_world\<lparr> w_disk := sample_disk \<rparr>)"
    by (simp add: ensure_provider_root_def provider_root_def config_default_def sync_config_default_def default_root_folder_def
        path_join_def path_is_absolute_def starts_with_def create_dir_all_def path_components_def piece_components_def
        plain_io_def empty_world_def bindS_def Let_def)
  have "database_path sample_paths \<noteq> '':memory:''"
    by (simp add: database_path_def database_file_def sample_paths_def path_join_def path_is_absolute_def starts_with_def)
  then have db: "database_open sample_env (database_path sample_paths) (daemon_migrations ''a'' ''f'') (\<lambda>_. None) 0 =
      Ok \<lparr> dbh_conn = sample_conn (empty_db\<lparr> db_user_version := 2, db_schema := [''a'', ''f''] \<rparr>), dbh_poisoned = False \<rparr>"
    by (simp add: sample_database_opens) (simp add: sample_conn_def)
  show ?thesis by (simp add: daemon_open_def bindS_def map_errS_def config root db)
qed

lemma sample_daemon_starts:
  "\<exists>ready w'. daemon_start sample_daemon_env (\<lambda>_. None) 0 empty_world = (Ok ready, w') \<and>
    dh_sync_root (dr_handler ready) = ''/u/UniCloudST'' \<and> dr_provider_root ready = ''/u/UniCloudST/gdrive'' \<and>
    eg_provider (dr_engine ready) = gdrive_provider sample_hub plain_io (\<lambda>u. Some u) \<and> w_disk w' = sample_disk"
proof -
  obtain w' where opened: "daemon_open sample_env plain_io sample_toml (Some ''/u'') (Some sample_paths) (daemon_migrations ''a'' ''f'')
      (\<lambda>_. None) 0 empty_world =
    (Ok \<lparr> dp_config = config_default (Some ''/u''), dp_provider_root = ''/u/UniCloudST/gdrive'',
       dp_db = \<lparr> dbh_conn = sample_conn (empty_db\<lparr> db_user_version := 2, db_schema := [''a'', ''f''] \<rparr>), dbh_poisoned = False \<rparr> \<rparr>, w')"
    "w_disk w' = sample_disk" using sample_daemon_opens by blast
  have client: "create_gdrive_client (dn_yup sample_daemon_env) (\<lambda>_. Some ''x'') cache w' =
      (Ok \<lparr> gc_authenticator = (), gc_scopes = drive_scopes \<rparr>, w')" for cache
    by (simp add: create_gdrive_client_def sample_daemon_env_def gdrive_client_new_def oauth_build_def map_errS_def bindS_def
        default_gdrive_def Let_def)
  have listed: "provider_accounts sample_env
      \<lparr> dbh_conn = sample_conn (empty_db\<lparr> db_user_version := 2, db_schema := [''a'', ''f''] \<rparr>), dbh_poisoned = False \<rparr> =
    (Ok [], \<lparr> dbh_conn = sample_conn (empty_db\<lparr> db_user_version := 2, db_schema := [''a'', ''f''] \<rparr>), dbh_poisoned = False \<rparr>)"
    by (simp add: provider_accounts_def with_conn_def list_accounts_def sql_query_map_def map_errS_def sample_env_def
        plain_sqlite_def sample_conn_def empty_db_def)
  have "\<not> path_exists plain_io ''/run/cloudsync.sock'' w'"
    using opened(2) by (simp add: path_exists_def node_at_def path_components_def path_is_absolute_def starts_with_def
        piece_components_def plain_io_def is_dir_at_def)
  then have "start_server plain_io (dn_sock sample_daemon_env) (ipc_socket (dn_os sample_daemon_env)) w' =
      (Ok (Some \<lparr> is_socket_path = ''/run/cloudsync.sock'', is_shutdown = False \<rparr>), w')"
    by (simp add: start_server_def server_bind_def sample_daemon_env_def ipc_socket_def path_join_def path_is_absolute_def
        starts_with_def bindS_def)
  with opened client listed show ?thesis
    by (simp add: daemon_start_def bindS_def sample_daemon_env_def gdrive_provider_new_def Let_def daemon_handler_new_def split_beta
        config_default_def sync_config_default_def default_root_folder_def path_join_def path_is_absolute_def starts_with_def)
qed

theorem started_daemon_drops_actions_witness:
  "\<exists>ready w'. daemon_start sample_daemon_env (\<lambda>_. None) 0 empty_world = (Ok ready, w') \<and>
    answers (daemon_handle sample_env (dr_handler ready))
      [GetStatus ''/u/UniCloudST/gdrive/x'', ForceSync ''/u/UniCloudST/gdrive/x'', PauseSync None] sample_daemon_state =
    ([Ok (RespError ''unknown provider: gdrive''), Ok (RespError ''unknown provider: gdrive''), Ok RespOk], sample_daemon_state)"
proof -
  obtain ready w' where r: "daemon_start sample_daemon_env (\<lambda>_. None) 0 empty_world = (Ok ready, w')"
    "dh_sync_root (dr_handler ready) = ''/u/UniCloudST''" using sample_daemon_starts by blast
  have "scans_rows (de_sql (dn_db sample_daemon_env))" "batches_add_no_account (de_sql (dn_db sample_daemon_env))"
    by (simp_all add: sample_daemon_env_def sample_env_def batches_add_no_account_def) (simp_all add: plain_sqlite_def)
  moreover have "refusal ''/u/UniCloudST'' ''/u/UniCloudST/gdrive/x'' = RespError ''unknown provider: gdrive''"
    by (simp add: refusal_def resolve_local_def path_strip_prefix_def path_components_def piece_components_def
        path_is_absolute_def starts_with_def path_collect_def path_join_def)
  ultimately show ?thesis
    using r started_daemon_drops_actions [OF r(1), of sample_env "[GetStatus ''/u/UniCloudST/gdrive/x'',
        ForceSync ''/u/UniCloudST/gdrive/x'', PauseSync None]" sample_daemon_state None] by auto
qed

text \<open>
  C17: The daemon synchronises once. After a start on Google Drive, with or without the initial
  synchronisation, the queue is empty, and every turn of the refresh loop, forever, ends, asks
  the provider for a fresh start token and does nothing else: whatever changes in the cloud
  meanwhile, no download is queued or executed. With a refresh interval of zero the program
  panics before the first turn.
\<close>

theorem daemon_syncs_only_once:
  assumes "daemon_start dn store sys w = (Ok ready, w1)"
    and "\<forall>items w2. cp_list_folder (eg_provider (dr_engine ready)) cloud_path_root w1 = (Ok items, w2) \<longrightarrow> length items < 2 ^ 64 - 1"
    and "\<forall>a w. fst (hub_start_page_token (dn_drive_hub dn a) w) \<noteq> Panicked"
    and "startup_sync (de_sys (dn_db dn)) (dn_io dn) (dr_engine ready) (dr_provider_root ready) (args_skip_initial_sync args)
      \<lparr> es_queue = [], es_sys = dr_sys ready, es_world = w1 \<rparr> = (Ok (), st1)"
  shows "es_queue st1 = [] \<and> (\<exists>a. \<forall>n. daemon_main dn store sys args n w =
    Some (if args_refresh_interval args = 0 then (Panicked, es_world st1)
      else (Ok (), ((\<lambda>w. snd (hub_start_page_token (dn_drive_hub dn a) w)) ^^ n) (es_world st1))))"
proof -
  obtain a where a: "eg_provider (dr_engine ready) = gdrive_provider (dn_drive_hub dn a) (dn_io dn) (dn_parse_url dn)"
    using started_engine [OF assms(1)] by blast
  from daemon_sync_idle [OF a _ _ _ assms(4)] assms(1-3) show ?thesis
    by (auto simp: daemon_main_def intro!: exI [of _ a])
qed

theorem daemon_syncs_only_once_witness:
  "\<exists>w1. w_disk w1 [''u'', ''UniCloudST'', ''gdrive'', ''x''] = Some (FileN [1, 2, 3]) \<and>
    daemon_main sample_daemon_env (\<lambda>_. None) 0 \<lparr> args_verbose = False, args_foreground = False, args_config = None,
      args_skip_initial_sync = False, args_refresh_interval = 60 \<rparr> 1000 empty_world = Some (Ok (), w1)"
proof -
  let ?args = "\<lparr> args_verbose = False, args_foreground = False, args_config = None, args_skip_initial_sync = False,
    args_refresh_interval = 60 \<rparr>"
  obtain ready w1 where r: "daemon_start sample_daemon_env (\<lambda>_. None) 0 empty_world = (Ok ready, w1)"
    "dr_provider_root ready = ''/u/UniCloudST/gdrive''"
    "eg_provider (dr_engine ready) = gdrive_provider sample_hub plain_io (\<lambda>u. Some u)" "w_disk w1 = sample_disk"
    using sample_daemon_starts by blast
  have env: "de_sys (dn_db sample_daemon_env) = de_sys sample_env" "dn_io sample_daemon_env = plain_io"
    "dn_drive_hub sample_daemon_env a = sample_hub" for a
    by (simp_all add: sample_daemon_env_def)
  obtain st1 where st1: "startup_sync (de_sys sample_env) plain_io (dr_engine ready) ''/u/UniCloudST/gdrive'' False
      \<lparr> es_queue = [], es_sys = dr_sys ready, es_world = w1 \<rparr> = (Ok (), st1)"
    "w_disk (es_world st1) [''u'', ''UniCloudST'', ''gdrive'', ''x''] = Some (FileN [1, 2, 3])"
    using sample_startup [OF r(3), of w1 "de_sys sample_env" "dr_sys ready"] r(4) by (auto simp: is_dir_at_def)
  have items: "\<forall>items w2. cp_list_folder (eg_provider (dr_engine ready)) cloud_path_root w1 = (Ok items, w2) \<longrightarrow>
      length items < 2 ^ 64 - 1"
    by (simp add: r(3) gdrive_provider_def gdrive_list_folder_def cloud_path_is_root_def cloud_path_root_def sample_hub_def
        bindS_def map_errS_def file_to_cloud_item_def sample_gfile_def)
  have token: "hub_start_page_token sample_hub w = (Ok (Some ''1''), w)" for w by (simp add: sample_hub_def)
  have idle: "((\<lambda>w. snd (hub_start_page_token sample_hub w)) ^^ n) w = w" for n w by (induction n) (simp_all add: token)
  have "daemon_main sample_daemon_env (\<lambda>_. None) 0 ?args 1000 empty_world = Some (Ok (), es_world st1)"
    using daemon_syncs_only_once [OF r(1) items, of ?args st1] st1(1) r(2) idle by (simp add: env token)
  with st1(2) show ?thesis by blast
qed

end
