(* ===== verification/Vfs_Frames.thy ===== *)
theory Vfs_Frames
  imports Vfs_Metadata
begin

text \<open>
  Frames: which parts of the database the synchroniser and the files table's operations leave
  alone, on every path, errors and panics included.
\<close>

section \<open>A sync leaves the inodes alone\<close>

definition inodes_are :: "inode_row list \<Rightarrow> 's conn \<Rightarrow> bool" where
  "inodes_are rows c \<longleftrightarrow> db_inodes (cn_db c) = rows"

lemma inodes_sql_execute [preserve_intros]:
  fixes env :: "'s db_env"
  assumes "\<And>fk d n d'. f fk d = Inr (n, d') \<Longrightarrow> db_inodes d' = db_inodes d"
  shows "preserves (inodes_are rows) (sql_execute env stmt f)"
proof (rule preservesI)
  fix c :: "'s conn" assume "inodes_are rows c"
  then show "inodes_are rows (snd (sql_execute env stmt f c))"
    using assms [of "cn_foreign_keys c" "cn_db c"]
    by (cases "f (cn_foreign_keys c) (cn_db c)") (auto simp: sql_execute_def inodes_are_def split: option.splits)
qed

lemma inodes_now [preserve_intros]: "preserves (inodes_are rows) (now_st env)"
  by (auto simp: preserves_def now_st_def inodes_are_def split: prod.splits)

lemma inodes_files [preserve_intros]:
  "preserves (inodes_are rows) (create_file env f)" "preserves (inodes_are rows) (update_file env f)"
  "preserves (inodes_are rows) (delete_file env i)" "preserves (inodes_are rows) (query_file env stmt cond)"
  "preserves (inodes_are rows) (cloud_item_to_db_file env acc item)"
  "preserves (inodes_are rows) (upsert_cursor env a cur)"
proof -
  show "preserves (inodes_are rows) (create_file env f)" unfolding create_file_def
    by (intro preserve_intros) (auto simp: insert_file_row_def Let_def split: if_splits)
  show "preserves (inodes_are rows) (update_file env f)" unfolding update_file_def
    by (intro preserve_intros) (auto simp: update_file_row_def Let_def split: if_splits)
  show "preserves (inodes_are rows) (delete_file env i)" unfolding delete_file_def
    by (intro preserve_intros) (auto simp: delete_file_rows_def)
  show "preserves (inodes_are rows) (query_file env stmt cond)" by (simp add: preserves_def)
  show "preserves (inodes_are rows) (cloud_item_to_db_file env acc item)"
    by (auto simp: preserves_def cloud_item_to_db_file_def inodes_are_def split: prod.splits)
  show "preserves (inodes_are rows) (upsert_cursor env a cur)" unfolding upsert_cursor_def
    by (intro preserve_intros) (auto simp: upsert_cursor_row_def Let_def split: if_splits)
qed

lemma inodes_found [preserve_intros]:
  assumes "preserves P m" "\<And>x. preserves P (f x)" "preserves P g"
  shows "preserves P (bindS m (\<lambda>existing. case existing of Some x \<Rightarrow> f x | None \<Rightarrow> g))"
  using assms by (intro preserve_intros) (auto split: option.splits)

lemma inodes_with_conn:
  "preserves (inodes_are rows) m \<Longrightarrow> preserves (\<lambda>db. inodes_are rows (dbh_conn db)) (with_conn m)"
  by (auto simp: preserves_def with_conn_def split: prod.splits outcome.splits)

lemma inodes_upsert_cloud_item: "preserves (\<lambda>db. inodes_are rows (dbh_conn db)) (upsert_cloud_item env acc item)"
  unfolding upsert_cloud_item_def upsert_item_conn_def get_file_by_provider_id_def
  by (intro inodes_with_conn preserve_intros)

lemma inodes_apply_change: "preserves (\<lambda>db. inodes_are rows (dbh_conn db)) (apply_change env acc change)"
proof -
  have "preserves (inodes_are rows) (delete_change_conn env acc f)" for f
    unfolding delete_change_conn_def get_file_by_provider_id_def by (intro preserve_intros)
  then show ?thesis
    by (auto simp: apply_change_def intro: inodes_with_conn inodes_upsert_cloud_item preserve_intros split: option.split)
qed

lemma inodes_on_db:
  "preserves (\<lambda>db. inodes_are rows (dbh_conn db)) m \<Longrightarrow> preserves (\<lambda>st. inodes_are rows (dbh_conn (fst st))) (on_db m)"
  by (auto simp: preserves_def on_db_def on_fst_def map_errS_def split: prod.splits)

lemma inodes_on_provider: "preserves (\<lambda>st. inodes_are rows (dbh_conn (fst st))) (on_provider ctx m)"
  by (auto simp: preserves_def on_provider_def on_snd_def split: prod.splits)

lemmas inodes_sync [preserve_intros] =
  inodes_on_provider inodes_on_db [OF inodes_apply_change] inodes_on_db [OF inodes_with_conn]

lemma incremental_loop_inodes:
  "incremental_loop env prov acc cursor n st = Some y \<Longrightarrow>
   inodes_are rows (dbh_conn (fst st)) \<Longrightarrow> inodes_are rows (dbh_conn (fst (snd y)))"
proof (induction rule: incremental_loop.raw_induct [rotated, consumes 1, case_names step])
  case (step rec env prov acc cursor n st y)
  let ?P = "\<lambda>st. inodes_are rows (dbh_conn (fst st))"
  let ?page = "bindS (on_provider ''Failed to get changes'' (cp_get_changes prov (Some cursor))) (\<lambda>change_list.
           bindS (for_eachS (\<lambda>change. on_db (apply_change env acc change)) (cl_changes change_list)) (\<lambda>_.
           bindS (on_db (with_conn (upsert_cursor env (account_id_str acc) (cl_cursor change_list)))) (\<lambda>_.
           returnS change_list)))"
  obtain r st2 where page: "?page st = (r, st2)" by (rule prod.exhaust)
  have "preserves ?P ?page" by (intro preserve_intros)
  from preservesD [OF this step.prems page] have keep: "?P st2" .
  show ?case
  proof (cases r)
    case (Ok change_list)
    then show ?thesis using step.hyps page keep step.IH by (auto split: if_splits)
  qed (use step.hyps page keep in auto)
qed

end
