(* ===== verification/Vfs_Drive.thy ===== *)
theory Vfs_Drive
  imports Filesystem Gdrive Vfs_Frames
begin

text \<open>
  The virtual filesystem on the Google Drive provider: what the metadata synchroniser makes of
  Drive's pages of changes, and what a process reads of a file that is downloaded when it is
  opened.
\<close>

section \<open>Changes of the drive in the files table\<close>

text \<open>
  What a change means for the files known by their identifiers: without a file identifier, or
  with a file that cannot be read, nothing; a removal and a trashed file delete it.
\<close>

definition spec_drive_change :: "chrono \<Rightarrow> GChange \<Rightarrow> (FileId \<Rightarrow> file_meta option) \<Rightarrow> FileId \<Rightarrow> file_meta option" where
  "spec_drive_change ch change m = (case gc_file_id change of
     None \<Rightarrow> m
   | Some i \<Rightarrow>
       if gc_removed change = Some True \<or> (case gc_file change of Some fl \<Rightarrow> gf_trashed fl = Some True | None \<Rightarrow> False)
       then m(FileId i := None)
       else case gc_file change of
         Some fl \<Rightarrow> (case file_to_cloud_item fl of Ok item \<Rightarrow> spec_upsert ch item m | _ \<Rightarrow> m)
       | None \<Rightarrow> m)"

text \<open>The changes the provider passes on, which are the ones the synchroniser counts.\<close>

definition passed_on :: "GChange \<Rightarrow> bool" where
  "passed_on change \<longleftrightarrow> gc_file_id change \<noteq> None \<and> change_item change \<noteq> None"

definition drive_stamps_ok :: "chrono \<Rightarrow> GChange \<Rightarrow> bool" where
  "drive_stamps_ok ch change \<longleftrightarrow>
     (case gc_file change of Some fl \<Rightarrow> (case gf_modified_time fl of Some t \<Rightarrow> stamp_ok ch t | None \<Rightarrow> True) | None \<Rightarrow> True)"

lemma file_to_cloud_item_modified:
  "file_to_cloud_item fl = Ok item \<Longrightarrow> gf_modified_time fl = Some (ci_modified item)"
  by (auto simp: file_to_cloud_item_def Let_def bindO_Ok_iff)

lemma change_item_spec:
  assumes "gc_file_id change = Some i" and "change_item change = Some item"
  shows "spec_change ch \<lparr> ch_item = item, ch_file_id = FileId i, ch_deleted = change_is_deleted change, ch_timestamp = t \<rparr> m =
    spec_drive_change ch change m"
  using assms
  by (auto simp: spec_change_def spec_drive_change_def change_item_def change_is_deleted_def
      split: if_splits option.splits outcome.splits)

lemma skipped_change_spec: "\<not> passed_on change \<Longrightarrow> spec_drive_change ch change m = m"
  by (auto simp: passed_on_def spec_drive_change_def change_item_def change_is_deleted_def
      split: if_splits option.splits outcome.splits)

lemma convert_changes_Cons:
  obtains (skipped) "\<not> passed_on change" "convert_changes hub (change # changes) w = convert_changes hub changes w"
  | (passed) i item t w1 where "passed_on change" "gc_file_id change = Some i" "change_item change = Some item"
      "fst (convert_changes hub (change # changes) w) =
        \<lparr> ch_item = item, ch_file_id = FileId i, ch_deleted = change_is_deleted change, ch_timestamp = t \<rparr> #
        fst (convert_changes hub changes w1)"
proof (cases "passed_on change")
  case False
  then show thesis by (intro skipped) (auto simp: passed_on_def split: option.splits)
next
  case True
  then obtain i item where c: "gc_file_id change = Some i" "change_item change = Some item" by (auto simp: passed_on_def)
  obtain t w1 where "(case gc_time change of Some t \<Rightarrow> (t, w) | None \<Rightarrow> hub_now hub w) = (t, w1)" by fastforce
  with c show thesis by (intro passed [OF True, of i item t w1]) (simp_all split: prod.splits)
qed

lemma converted_changes:
  "fold (spec_change ch) (fst (convert_changes hub changes w)) m = fold (spec_drive_change ch) changes m"
  "length (fst (convert_changes hub changes w)) = length (filter passed_on changes)"
proof (induction changes arbitrary: m w)
  case (Cons change changes)
  { case 1 show ?case
      by (cases rule: convert_changes_Cons [of change hub changes w])
        (simp_all add: skipped_change_spec change_item_spec Cons.IH) }
  { case 2 show ?case
      by (cases rule: convert_changes_Cons [of change hub changes w]) (simp_all add: Cons.IH) }
qed simp_all

lemma change_item_stamp:
  assumes "drive_stamps_ok ch change" and "change_item change = Some item"
  shows "change_stamps_ok ch \<lparr> ch_item = item, ch_file_id = i, ch_deleted = d, ch_timestamp = t \<rparr>"
  using assms
  by (auto simp: change_stamps_ok_def drive_stamps_ok_def change_item_def
      split: if_splits option.splits outcome.splits dest!: file_to_cloud_item_modified)

lemma converted_stamps:
  "\<forall>change \<in> set changes. drive_stamps_ok ch change \<Longrightarrow>
   \<forall>c \<in> set (fst (convert_changes hub changes w)). change_stamps_ok ch c"
proof (induction changes arbitrary: w)
  case (Cons change changes)
  then show ?case
    by (cases rule: convert_changes_Cons [of change hub changes w]) (auto intro: change_item_stamp)
qed simp

lemma converted_pages:
  assumes "list_all2 (converted_page hub) pages pgs"
  shows "fold (spec_change ch) (concat (map cl_changes pages)) m = fold (spec_drive_change ch) (concat (map page_changes pgs)) m"
    and "length (concat (map cl_changes pages)) = length (filter passed_on (concat (map page_changes pgs)))"
    and "\<forall>change \<in> set (concat (map page_changes pgs)). drive_stamps_ok ch change \<Longrightarrow>
      \<forall>c \<in> set (concat (map cl_changes pages)). change_stamps_ok ch c"
  using assms
proof (induction arbitrary: m rule: list_all2_induct)
  case (Cons page pages pg pgs)
  then obtain w where w: "cl_changes page = fst (convert_changes hub (page_changes pg) w)" by (auto simp: converted_page_def)
  { case 1 show ?case by (simp add: w converted_changes Cons.IH(1)) }
  { case 2 show ?case by (simp add: w converted_changes Cons.IH(2)) }
  { case 3 then show ?case using Cons.IH(3) converted_stamps by (simp add: w ball_Un) blast }
qed simp_all

section \<open>Files that are opened\<close>

text \<open>The node at a path that was walked to.\<close>

lemma written_file_open:
  assumes "no_io_faults io" and "walk d (io_cwd io) (path_components p) = Some l" and "\<not> is_dir_at d l"
  shows "file_open io p (w\<lparr> w_disk := d(l \<mapsto> FileN b) \<rparr>) = Ok (l, FileN b)"
    and "path_exists io p (w\<lparr> w_disk := d(l \<mapsto> FileN b) \<rparr>)"
proof -
  have fault: "io_fault io c m u = None" for c m u using assms(1) by (simp add: no_io_faults_def)
  have walk: "walk (d(l \<mapsto> FileN b)) (io_cwd io) (path_components p) = Some l"
    using walk_file_upd [OF assms(3)] assms(2) by simp
  have "l \<noteq> []" using assms(3) by (auto simp: is_dir_at_def)
  then have node: "node_at io (d(l \<mapsto> FileN b)) p = Some (FileN b)" using walk by (simp add: node_at_def)
  show "file_open io p (w\<lparr> w_disk := d(l \<mapsto> FileN b) \<rparr>) = Ok (l, FileN b)"
    using walk node by (simp add: file_open_def fault)
  show "path_exists io p (w\<lparr> w_disk := d(l \<mapsto> FileN b) \<rparr>)"
    using node by (simp add: path_exists_def fault)
qed

lemma cached_file_kind:
  assumes "handle_inv env acc db"
  shows "map_option cf_is_directory (cached_file env acc db f) = view_kinds acc (cn_db (dbh_conn db)) f"
proof -
  have m: "meta_inv env acc (dbh_conn db)" and np: "\<not> dbh_poisoned db" using assms by (auto simp: handle_inv_def)
  from get_existing [OF m, of f] show ?thesis
  proof
    assume "handle_view acc db f = None \<and> get_file_by_provider_id env acc f (dbh_conn db) = (Ok None, dbh_conn db)"
    then show ?thesis using np by (simp add: cached_file_def cache_get_def with_conn_def view_kinds_def)
  next
    assume "\<exists>r x. r \<in> set (db_files (cn_db (dbh_conn db))) \<and> fr_account_id r = account_id_str acc \<and>
       fr_provider_file_id r = file_id_str f \<and> handle_view acc db f = Some (row_meta r) \<and>
       get_file_by_provider_id env acc f (dbh_conn db) = (Ok (Some x), dbh_conn db) \<and>
       f_id x = fr_id r \<and> f_account_id x = acc \<and> f_provider_file_id x = f \<and> state_column (f_state x) = fr_state r"
    then obtain x where x: "get_file_by_provider_id env acc f (dbh_conn db) = (Ok (Some x), dbh_conn db)" by blast
    then show ?thesis using np found_kind [OF m x]
      by (simp add: cached_file_def cache_get_def with_conn_def db_file_to_cached_file_def)
  qed
qed

lemma same_tree_file_id:
  assumes "sqlite_works env" "\<not> dbh_poisoned db" "\<not> dbh_poisoned db'" "same_tree acc db db'"
    and "get_file_id env ino db = (Ok (Some f), db)"
  shows "get_file_id env ino db' = (Ok (Some f), db')"
  using assms by (simp add: get_file_id_result same_tree_def file_of_def)

text \<open>A file whose content is in the cache opens without the provider, and reads as it is cached.\<close>

lemma cached_file_reads:
  assumes h: "handle_inv env (fs_account_id fs) (fs_db st)" and cc: "fs_content_cache fs = Some cc"
    and ino: "get_file_id env ino (fs_db st) = (Ok (Some f), fs_db st)"
    and kind: "view_kinds (fs_account_id fs) (cn_db (dbh_conn (fs_db st))) f = Some False"
    and io: "path_exists io (cached_path cc f) (fs_world st)" "file_open io (cached_path cc f) (fs_world st) = Ok (l, FileN b)"
      "reads_fully io"
    and offset: "0 \<le> offset" "offset < 2 ^ 63"
  shows "\<exists>st'. fs_open io env fs ino st = (Ok (ReplyOpened (fs_next_fh st) 0), st') \<and>
    fs_read io fs (fs_next_fh st) offset sz st' = (Ok (ReplyData (take (unat sz) (drop (nat offset) b))), st')"
proof -
  obtain cf where cf: "cached_file env (fs_account_id fs) (fs_db st) f = Some cf" "\<not> cf_is_directory cf"
    using cached_file_kind [OF h, of f] kind by auto
  have "fs_on_cache (ensure_downloaded io env cc f) st = (Ok (cached_path cc f), st)"
    using io(1) by (simp add: fs_on_cache_def ensure_downloaded_def)
  from opened_file_reads [OF h cc ino cf this io(2,3) offset] show ?thesis by blast
qed

lemma failed_open:
  assumes h: "handle_inv env (fs_account_id fs) (fs_db st)" and cc: "fs_content_cache fs = Some cc"
    and ino: "get_file_id env ino (fs_db st) = (Ok (Some f), fs_db st)"
    and cf: "cached_file env (fs_account_id fs) (fs_db st) f = Some cf" "\<not> cf_is_directory cf"
    and dl: "fs_on_cache (ensure_downloaded io env cc f) st = (Err e, st1)"
  shows "fs_open io env fs ino st = (Err e, st1)"
proof -
  have 1: "fs_found (get_file_id env ino) ENOENT st = (Ok f, st)"
    using fs_found_result [where m = "get_file_id env ino" and e = ENOENT, OF ino] by simp
  have 2: "fs_found (cache_get env (fs_account_id fs) f) ENOENT st = (Ok cf, st)"
    using fs_found_result [where m = "cache_get env (fs_account_id fs) f" and e = ENOENT, OF cache_get_result [OF h]] cf(1) by simp
  show ?thesis using 1 2 cf(2) cc dl by (simp add: fs_open_def)
qed

section \<open>Properties of the filesystem on the drive\<close>

text \<open>
  C9: Opening a file of the drive that is not in the cache downloads it. When the body of the
  response arrives to its end, the file is recorded as synced and reading through the handle
  gives the bytes that arrived, from the offset on. When the body breaks off, the open fails
  with \<open>EIO\<close> and the file is recorded as erroneous; yet opening it again succeeds at once,
  without asking the drive, and reading gives the bytes of the broken transfer.
\<close>

theorem drive_file_reads_as_received:
  assumes inv: "fs_inv env (fs_account_id fs) st" and ch: "seconds_exact (de_chrono env)"
    and cc: "fs_content_cache fs = Some cc" "cc_account_id cc = fs_account_id fs" "cc_provider cc = gdrive_provider hub io parse"
    and ino: "get_file_id env ino (fs_db st) = (Ok (Some f), fs_db st)"
    and cf: "cached_file env (fs_account_id fs) (fs_db st) f = Some cf" "\<not> cf_is_directory cf"
    and absent: "\<not> path_exists io (cached_path cc f) (fs_world st)" "fs_locks st (file_id_str f) = None"
    and io: "no_io_faults io" "reads_fully io"
    and meta: "hub_get_metadata hub (file_id_str f) ''size,mimeType'' (fs_world st) = (Ok meta, w1)" "native_url parse f meta = None"
    and media: "hub_get_media hub (file_id_str f) w1 = (Ok frames, w2)"
    and dest: "walk (w_disk w2) (io_cwd io) (path_components (cached_path cc f)) = Some l" "\<not> is_dir_at (w_disk w2) l"
    and offset: "0 \<le> offset" "offset < 2 ^ 63"
  shows "case received frames of
      (chunks, None) \<Rightarrow> \<exists>st1. fs_open io env fs ino st = (Ok (ReplyOpened (fs_next_fh st) 0), st1) \<and>
        view_states (fs_account_id fs) (fs_db st1) f = Some ''synced'' \<and>
        fs_read io fs (fs_next_fh st) offset sz st1 = (Ok (ReplyData (take (unat sz) (drop (nat offset) (concat chunks)))), st1)
    | (chunks, Some e) \<Rightarrow> \<exists>st1 st2. fs_open io env fs ino st = (Err EIO, st1) \<and>
        view_states (fs_account_id fs) (fs_db st1) f = Some ''error'' \<and>
        fs_open io env fs ino st1 = (Ok (ReplyOpened (fs_next_fh st) 0), st2) \<and>
        fs_read io fs (fs_next_fh st) offset sz st2 = (Ok (ReplyData (take (unat sz) (drop (nat offset) (concat chunks)))), st2)"
proof -
  let ?acc = "fs_account_id fs" and ?p = "cached_path cc f" and ?b = "concat (fst (received frames))"
  let ?w = "w2\<lparr> w_disk := (w_disk w2)(l \<mapsto> FileN ?b) \<rparr>"
  let ?r = "case snd (received frames) of None \<Rightarrow> Ok () | Some e \<Rightarrow> Err (gdrive_error (''Failed to read response chunk: '' @ e))"
  let ?cst = "\<lparr> cc_db = fs_db st, cc_world = fs_world st, cc_locks = fs_locks st \<rparr>"
  have h: "handle_inv env ?acc (fs_db st)" using inv by (simp add: fs_inv_def)
  have works: "sqlite_works env" using h by (simp add: handle_inv_def meta_inv_def)
  have dl: "cp_download (cc_provider cc) f ?p (fs_world st) = (?r, ?w)"
    using gdrive_download_result [OF io(1) _ media dest, of "\<lparr> dl_world = fs_world st, dl_progress = None \<rparr>" meta parse] meta
    by (simp add: cc(3) gdrive_provider_def split: option.splits)
  have r: "?r \<noteq> Panicked" by (simp split: option.splits)
  obtain cst where cst: "ensure_downloaded io env cc f ?cst =
      (case ?r of Err (CloudNativeFileError _) \<Rightarrow> Err ENOTSUP | Err _ \<Rightarrow> Err EIO | _ \<Rightarrow> Ok ?p, cst)"
    "cc_world cst = ?w" "handle_inv env ?acc (cc_db cst)"
    "view_states ?acc (cc_db cst) = set_state f (case ?r of Err (CloudNativeFileError _) \<Rightarrow> ''syncing'' | Err _ \<Rightarrow> ''error'' | _ \<Rightarrow> ''synced'')
      (view_states ?acc (fs_db st))"
    "same_tree ?acc (fs_db st) (cc_db cst)"
    using first_download [of env cc ?cst io f ?r ?w] h ch absent dl r cc(2) by auto
  let ?st1 = "st\<lparr> fs_db := cc_db cst, fs_world := ?w, fs_locks := cc_locks cst \<rparr>"
  have opened: "file_open io ?p ?w = Ok (l, FileN ?b)" "path_exists io ?p ?w"
    by (rule written_file_open [OF io(1) dest])+
  have kind: "view_kinds ?acc (cn_db (dbh_conn (fs_db st))) f = Some False"
    using cached_file_kind [OF h, of f] cf by simp
  have known: "view_states ?acc (fs_db st) f \<noteq> None" "view_kinds ?acc (cn_db (dbh_conn (cc_db cst))) f = Some False"
    using kind cst(5) by (auto simp: view_states_def view_kinds_def same_tree_def)
  show ?thesis
  proof (cases "snd (received frames)")
    case None
    then have "fs_on_cache (ensure_downloaded io env cc f) st = (Ok ?p, ?st1)" using cst(1,2) by (simp add: fs_on_cache_def)
    from opened_file_reads [OF h cc(1) ino cf this _ io(2) offset, of l ?b] opened(1)
    obtain st2 where "fs_open io env fs ino st = (Ok (ReplyOpened (fs_next_fh st) 0), st2)" "fs_db st2 = cc_db cst"
      "fs_read io fs (fs_next_fh st) offset sz st2 = (Ok (ReplyData (take (unat sz) (drop (nat offset) ?b))), st2)"
      by auto
    with None known(1) cst(4) show ?thesis by (cases "received frames") auto
  next
    case (Some e)
    then have "fs_on_cache (ensure_downloaded io env cc f) st = (Err EIO, ?st1)"
      using cst(1,2) by (simp add: fs_on_cache_def gdrive_error_def)
    from failed_open [OF h cc(1) ino cf this] have "fs_open io env fs ino st = (Err EIO, ?st1)" .
    moreover have "get_file_id env ino (fs_db ?st1) = (Ok (Some f), fs_db ?st1)"
      using same_tree_file_id [OF works _ _ cst(5) ino] h cst(3) by (simp add: handle_inv_def)
    from cached_file_reads [of env fs ?st1, OF _ cc(1) this _ _ _ io(2) offset, of l ?b] cst(3) known(2) opened
    obtain st2 where "fs_open io env fs ino ?st1 = (Ok (ReplyOpened (fs_next_fh st) 0), st2)"
      "fs_read io fs (fs_next_fh st) offset sz st2 = (Ok (ReplyData (take (unat sz) (drop (nat offset) ?b))), st2)"
      by auto
    ultimately show ?thesis using Some known(1) cst(4)
      by (cases "received frames") (auto simp: gdrive_error_def)
  qed
qed

text \<open>A filesystem on the sample drive, whose bodies break off after three bytes.\<close>

definition drive_cache :: "unit ContentCache" where
  "drive_cache = (sample_cache (Ok ()))\<lparr> cc_provider := gdrive_provider sample_hub plain_io (\<lambda>u. Some u) \<rparr>"

definition drive_fs :: "unit CloudSyncFS" where
  "drive_fs = sample_fs\<lparr> fs_content_cache := Some drive_cache \<rparr>"

lemma drive_cached_path: "cached_path drive_cache (FileId ''f1'') = ''/cache/f1''"
  using sample_cached_path [of "Ok ()"] by (simp add: cached_path_def drive_cache_def)

theorem drive_file_reads_as_received_witness:
  "\<exists>st st1 st2. fs_open plain_io sample_env drive_fs 2 st = (Err EIO, st1) \<and>
     fs_open plain_io sample_env drive_fs 2 st1 = (Ok (ReplyOpened 1 0), st2) \<and>
     fs_read plain_io drive_fs 1 1 5 st2 = (Ok (ReplyData [2, 3]), st2)"
proof -
  obtain db k where st: "fs_inv sample_env (AccountId ''acc'') (sample_fs_state\<lparr> fs_db := db, fs_next_inode := k \<rparr>)"
    "get_file_id sample_env 2 db = (Ok (Some (FileId ''f1'')), db)"
    "cached_file sample_env (AccountId ''acc'') db (FileId ''f1'') = Some sample_child"
    using sample_inode by blast
  let ?st = "sample_fs_state\<lparr> fs_db := db, fs_next_inode := k, fs_world := cc_world sample_cc \<rparr>"
  let ?frames = "[DataFrame [1, 2], TrailersFrame, DataFrame [3], BrokenFrame ''reset'', DataFrame [4]]"
  have acc: "fs_account_id drive_fs = AccountId ''acc''" by (simp add: drive_fs_def sample_fs_def)
  have "fs_inv sample_env (fs_account_id drive_fs) ?st" using st(1) acc by (simp add: fs_inv_def)
  moreover have "seconds_exact (de_chrono sample_env)" by simp
  moreover have "fs_content_cache drive_fs = Some drive_cache" "cc_account_id drive_cache = fs_account_id drive_fs"
    "cc_provider drive_cache = gdrive_provider sample_hub plain_io (\<lambda>u. Some u)"
    by (simp_all add: drive_fs_def drive_cache_def sample_fs_def sample_cache_def)
  moreover have "get_file_id sample_env 2 (fs_db ?st) = (Ok (Some (FileId ''f1'')), fs_db ?st)" using st(2) by simp
  moreover have "cached_file sample_env (fs_account_id drive_fs) (fs_db ?st) (FileId ''f1'') = Some sample_child"
    "\<not> cf_is_directory sample_child" using st(3) acc by (simp_all add: sample_child_def)
  moreover have "\<not> path_exists plain_io (cached_path drive_cache (FileId ''f1'')) (fs_world ?st)"
    "fs_locks ?st (file_id_str (FileId ''f1'')) = None"
    using sample_absent by (simp_all add: drive_cached_path sample_fs_state_def)
  moreover have "no_io_faults (plain_io :: unit io)" "reads_fully (plain_io :: unit io)"
    by (simp_all add: no_io_faults_def reads_fully_def plain_io_def)
  moreover have "hub_get_metadata sample_hub (file_id_str (FileId ''f1'')) ''size,mimeType'' (fs_world ?st) =
      (Ok (sample_gfile ''f1'' ''x''), fs_world ?st)"
    "native_url (\<lambda>u. Some u) (FileId ''f1'') (sample_gfile ''f1'' ''x'') = None"
    by (simp_all add: sample_hub_def native_url_def sample_gfile_def is_cloud_native_def starts_with_def)
  moreover have "hub_get_media sample_hub (file_id_str (FileId ''f1'')) (fs_world ?st) = (Ok ?frames, fs_world ?st)"
    by (simp add: sample_hub_def)
  moreover have "walk (w_disk (fs_world ?st)) (io_cwd (plain_io :: unit io)) (path_components (cached_path drive_cache (FileId ''f1''))) =
      Some [''cache'', ''f1'']" "\<not> is_dir_at (w_disk (fs_world ?st)) [''cache'', ''f1'']"
    by (simp_all add: drive_cached_path sample_components sample_cc_def plain_io_def is_dir_at_def)
  moreover have "(0 :: int) \<le> 1" "(1 :: int) < 2 ^ 63" by simp_all
  ultimately have "case received ?frames of
      (chunks, None) \<Rightarrow> \<exists>st1. fs_open plain_io sample_env drive_fs 2 ?st = (Ok (ReplyOpened (fs_next_fh ?st) 0), st1) \<and>
        view_states (fs_account_id drive_fs) (fs_db st1) (FileId ''f1'') = Some ''synced'' \<and>
        fs_read plain_io drive_fs (fs_next_fh ?st) 1 5 st1 = (Ok (ReplyData (take (unat (5 :: u32)) (drop (nat 1) (concat chunks)))), st1)
    | (chunks, Some e) \<Rightarrow> \<exists>st1 st2. fs_open plain_io sample_env drive_fs 2 ?st = (Err EIO, st1) \<and>
        view_states (fs_account_id drive_fs) (fs_db st1) (FileId ''f1'') = Some ''error'' \<and>
        fs_open plain_io sample_env drive_fs 2 st1 = (Ok (ReplyOpened (fs_next_fh ?st) 0), st2) \<and>
        fs_read plain_io drive_fs (fs_next_fh ?st) 1 5 st2 = (Ok (ReplyData (take (unat (5 :: u32)) (drop (nat 1) (concat chunks)))), st2)"
    by (rule drive_file_reads_as_received)
  then obtain st1 st2 where "fs_open plain_io sample_env drive_fs 2 ?st = (Err EIO, st1)"
    "fs_open plain_io sample_env drive_fs 2 st1 = (Ok (ReplyOpened (fs_next_fh ?st) 0), st2)"
    "fs_read plain_io drive_fs (fs_next_fh ?st) 1 5 st2 = (Ok (ReplyData (take (unat (5 :: u32)) (drop (nat 1) (concat [[1, 2], [3]])))), st2)"
    by auto
  moreover have "fs_next_fh ?st = 1" by (simp add: sample_fs_state_def)
  ultimately show ?thesis by (intro exI [of _ ?st] exI [of _ st1] exI [of _ st2]) simp
qed

text \<open>
  C10: One incremental round on Google Drive, from the stored token to the last page, counts the
  changes the provider passes on, leaves in the files table what folding the meaning of Drive's
  changes over it gives, and stores the start token of the last page. The content cache takes
  no notice: when an inode known before belongs to a file that the changes leave in the table,
  and its content was cached, then after the round it opens without a download and reads as
  the old bytes, whatever size and hash the table now has for it.
\<close>

theorem drive_sync_keeps_cached_content:
  assumes "handle_inv env acc db" and "stored_cursor acc db = Some token" and "drive_pages hub token w pgs start w'"
    and "\<forall>change \<in> set (concat (map page_changes pgs)). drive_stamps_ok (de_chrono env) change"
    and "handle_seq db + int (length (filter passed_on (concat (map page_changes pgs)))) < 2 ^ 63"
    and "fs_account_id fs = acc" "fs_content_cache fs = Some cc" and "reads_fully io" and "0 \<le> offset" "offset < 2 ^ 63"
  shows "\<exists>db'. incremental_sync env (gdrive_provider hub io parse) acc (db, w) =
      Some (Ok (length (filter passed_on (concat (map page_changes pgs)))), (db', w')) \<and>
    handle_inv env acc db' \<and>
    handle_view acc db' = fold (spec_drive_change (de_chrono env)) (concat (map page_changes pgs)) (handle_view acc db) \<and>
    stored_cursor acc db' = Some start \<and>
    (\<forall>st ino f m l b. fs_db st = db' \<and> fs_world st = w' \<and> get_file_id env ino db = (Ok (Some f), db) \<and>
        handle_view acc db' f = Some m \<and> mt_folder m = 0 \<and> path_exists io (cached_path cc f) w' \<and>
        file_open io (cached_path cc f) w' = Ok (l, FileN b) \<longrightarrow>
      (\<exists>st'. fs_open io env fs ino st = (Ok (ReplyOpened (fs_next_fh st) 0), st') \<and>
         fs_read io fs (fs_next_fh st) offset sz st' = (Ok (ReplyData (take (unat sz) (drop (nat offset) b))), st')))"
proof -
  obtain pages where pages: "change_feed (gdrive_provider hub io parse) (Some token) w pages (Ok start) w'"
    "list_all2 (converted_page hub) pages pgs"
    using drive_pages_feed [OF assms(3)] by blast
  note conv = converted_pages [OF pages(2)]
  obtain db' where db': "incremental_sync env (gdrive_provider hub io parse) acc (db, w) =
      Some (Ok (length (concat (map cl_changes pages))), (db', w'))" "handle_inv env acc db'"
    "handle_view acc db' = fold (spec_change (de_chrono env)) (concat (map cl_changes pages)) (handle_view acc db)"
    "stored_cursor acc db' = Some start"
    using incremental_round_follows [OF assms(1,2) pages(1) conv(3) [OF assms(4)]] assms(5) conv(2) by auto
  have inodes: "db_inodes (cn_db (dbh_conn db')) = db_inodes (cn_db (dbh_conn db))"
    using incremental_loop_inodes [of env "gdrive_provider hub io parse" acc token 0 "(db, w)" _ "db_inodes (cn_db (dbh_conn db))"]
      db'(1) get_cursor_result [OF assms(1)] assms(2)
    by (simp add: incremental_sync_def on_db_def on_fst_def map_errS_def inodes_are_def)
  have "\<exists>st'. fs_open io env fs ino st = (Ok (ReplyOpened (fs_next_fh st) 0), st') \<and>
      fs_read io fs (fs_next_fh st) offset sz st' = (Ok (ReplyData (take (unat sz) (drop (nat offset) b))), st')"
    if "fs_db st = db'" "fs_world st = w'" "get_file_id env ino db = (Ok (Some f), db)"
      "handle_view acc db' f = Some m" "mt_folder m = 0" "path_exists io (cached_path cc f) w'"
      "file_open io (cached_path cc f) w' = Ok (l, FileN b)" for st ino f m l b
  proof -
    have "get_file_id env ino db' = (Ok (Some f), db')"
      using that(3) inodes assms(1) db'(2) by (simp add: get_file_id_result handle_inv_def meta_inv_def file_of_def)
    moreover have "view_kinds acc (cn_db (dbh_conn db')) f = Some False" using that(4,5) by (simp add: view_kinds_def)
    ultimately show ?thesis
      using cached_file_reads [of env fs st cc ino f io l b offset sz] that db'(2) assms(6-10) by simp
  qed
  then show ?thesis using db' conv(1,2) by (intro exI [of _ db']) auto
qed

text \<open>A drive on which the cached file of the sample filesystem was changed.\<close>

definition changed_page :: GChangeList where
  "changed_page = \<lparr> gcl_changes = Some [\<lparr> gc_file_id = Some ''f1'', gc_removed = None,
       gc_file = Some ((sample_gfile ''f1'' ''a'')\<lparr> gf_size := Some 9 \<rparr>), gc_time = Some 0 \<rparr>],
     gcl_next_page_token = None, gcl_new_start_page_token = Some ''9'' \<rparr>"

definition changed_hub :: "unit hub" where
  "changed_hub = sample_hub\<lparr> hub_list_changes := (\<lambda>token w. (Ok changed_page, w)) \<rparr>"

definition cached_tree :: "nat Database" where
  "cached_tree = \<lparr> dbh_conn = sample_conn (sample_db\<lparr> db_files := [sample_row],
     db_inodes := [\<lparr> ir_inode = 1, ir_file_id = ''root'', ir_created_at = 0 \<rparr>,
       \<lparr> ir_inode = 2, ir_file_id = ''f1'', ir_created_at = 0 \<rparr>] \<rparr>), dbh_poisoned = False \<rparr>"

lemma cached_tree_facts:
  "handle_inv sample_env (AccountId ''acc'') cached_tree" "stored_cursor (AccountId ''acc'') cached_tree = Some ''7''"
  "handle_seq cached_tree = 1" "get_file_id sample_env 2 cached_tree = (Ok (Some (FileId ''f1'')), cached_tree)"
  "handle_view (AccountId ''acc'') cached_tree (FileId ''f1'') = Some (row_meta sample_row)"
proof -
  have "conn_ok (dbh_conn cached_tree)"
    by (simp add: conn_ok_def cached_tree_def sample_conn_def sample_db_def empty_db_def db_ok_def account_exists_def
      account_params_def sample_account_def sample_file_def provider_check_def state_check_def sample_row_def)
  then show h: "handle_inv sample_env (AccountId ''acc'') cached_tree"
    using sample_handle_inv
    by (simp add: handle_inv_def meta_inv_def account_exists_def)
      (simp add: sample_tree_def cached_tree_def sample_conn_def)
  show "get_file_id sample_env 2 cached_tree = (Ok (Some (FileId ''f1'')), cached_tree)"
    using get_file_id_result [of sample_env cached_tree 2]
    by (simp add: cached_tree_def sample_conn_def file_of_def as_i64_def)
qed (simp_all add: stored_cursor_def cached_tree_def sample_conn_def sample_db_def cloud_view_def sample_row_def sample_file_def)

theorem drive_sync_keeps_cached_content_witness:
  "\<exists>db' st' m. incremental_sync sample_env (gdrive_provider changed_hub plain_io (\<lambda>u. Some u)) (AccountId ''acc'')
       (cached_tree, cc_world sample_cached) = Some (Ok 1, (db', cc_world sample_cached)) \<and>
     stored_cursor (AccountId ''acc'') db' = Some ''9'' \<and>
     handle_view (AccountId ''acc'') db' (FileId ''f1'') = Some m \<and> mt_size m = Some 9 \<and>
     fs_open plain_io sample_env sample_fs 2 (sample_fs_state\<lparr> fs_db := db' \<rparr>) = (Ok (ReplyOpened 1 0), st') \<and>
     fs_read plain_io sample_fs 1 0 9 st' = (Ok (ReplyData [1, 2, 3]), st')"
proof -
  let ?w = "cc_world sample_cached" and ?acc = "AccountId ''acc''" and ?path = "cached_path (sample_cache (Ok ()))"
  obtain c where c: "page_changes changed_page = [c]" "passed_on c" "drive_stamps_ok chrono_utc c"
    "c = \<lparr> gc_file_id = Some ''f1'', gc_removed = None, gc_file = Some ((sample_gfile ''f1'' ''a'')\<lparr> gf_size := Some 9 \<rparr>), gc_time = Some 0 \<rparr>"
    by (simp add: page_changes_def changed_page_def passed_on_def change_item_def change_is_deleted_def sample_gfile_def
        file_to_cloud_item_def drive_stamps_ok_def stamp_ok_utc)
  have io: "reads_fully (plain_io :: unit io)" by (simp add: reads_fully_def plain_io_def)
  have "drive_pages changed_hub ''7'' ?w [changed_page] ''9'' (snd (convert_changes changed_hub (page_changes changed_page) ?w))"
    by (rule drive_pages.final_page) (simp_all add: changed_hub_def changed_page_def)
  moreover have "snd (convert_changes changed_hub (page_changes changed_page) ?w) = ?w"
    by (simp add: page_changes_def changed_page_def split: option.splits)
  ultimately have pages: "drive_pages changed_hub ''7'' ?w [changed_page] ''9'' ?w" by simp
  have "\<forall>change \<in> set (concat (map page_changes [changed_page])). drive_stamps_ok (de_chrono sample_env) change"
    "handle_seq cached_tree + int (length (filter passed_on (concat (map page_changes [changed_page])))) < 2 ^ 63"
    using c(1-3) cached_tree_facts(3) by simp_all
  from drive_sync_keeps_cached_content [OF cached_tree_facts(1,2) pages this sample_fs_simps(1,2) io, of 0 "\<lambda>u. Some u" 9]
  obtain db' where db': "incremental_sync sample_env (gdrive_provider changed_hub plain_io (\<lambda>u. Some u)) ?acc (cached_tree, ?w) =
      Some (Ok (length (filter passed_on (concat (map page_changes [changed_page])))), (db', ?w))" "stored_cursor ?acc db' = Some ''9''"
    "handle_view ?acc db' = fold (spec_drive_change chrono_utc) (concat (map page_changes [changed_page])) (handle_view ?acc cached_tree)"
    and stale: "\<forall>st ino f m l b. fs_db st = db' \<and> fs_world st = ?w \<and> get_file_id sample_env ino cached_tree = (Ok (Some f), cached_tree) \<and>
        handle_view ?acc db' f = Some m \<and> mt_folder m = 0 \<and> path_exists plain_io (?path f) ?w \<and>
        file_open plain_io (?path f) ?w = Ok (l, FileN b) \<longrightarrow>
      (\<exists>st'. fs_open plain_io sample_env sample_fs ino st = (Ok (ReplyOpened (fs_next_fh st) 0), st') \<and>
         fs_read plain_io sample_fs (fs_next_fh st) 0 9 st' = (Ok (ReplyData (take (unat (9 :: u32)) (drop (nat 0) b))), st'))"
    by (auto simp del: fold_append concat.simps list.map)
  obtain m where m: "handle_view ?acc db' (FileId ''f1'') = Some m" "mt_folder m = 0" "mt_size m = Some 9"
    by (simp add: db'(3) c(1) c(4) spec_drive_change_def sample_gfile_def file_to_cloud_item_def spec_upsert_def
        item_meta_def as_i64_def as_u64_def)
  have "file_open plain_io ''/cache/f1'' ?w = Ok ([''cache'', ''f1''], FileN [1, 2, 3])"
    by (simp add: file_open_def node_at_def sample_components sample_cached_def is_dir_at_def plain_io_def)
  then obtain st' where "fs_open plain_io sample_env sample_fs 2 (sample_fs_state\<lparr> fs_db := db' \<rparr>) = (Ok (ReplyOpened 1 0), st')"
    "fs_read plain_io sample_fs 1 0 9 st' = (Ok (ReplyData [1, 2, 3]), st')"
    using stale [rule_format, of "sample_fs_state\<lparr> fs_db := db' \<rparr>" 2 "FileId ''f1''" m "[''cache'', ''f1'']" "[1, 2, 3]"] m(1,2)
      cached_tree_facts(4) sample_present by (auto simp: sample_cached_path)
  then show ?thesis using db'(1,2) m c(1,2) by (intro exI [of _ db'] exI [of _ st'] exI [of _ m]) simp
qed

end
