(* ===== verification/Vfs_Threads.thy ===== *)
theory Vfs_Threads
  imports Filesystem Vfs_Frames
begin

text \<open>
  A mounted filesystem as a program of threads. The FUSE session runs the handlers, the
  background synchroniser its rounds, and both work on one database handle, whose mutex makes
  each \<open>with_conn\<close> a critical section. The sections of the threads may follow each other in any
  order; each thread's own code is a sequence of them.
\<close>

section \<open>Critical sections\<close>

text \<open>
  The queries of the handlers and of the synchroniser, the allocation of an inode, the records
  the content cache makes, and the writes of the synchroniser.
\<close>

datatype vfs_section =
    FindInode u64
  | FindFile FileId
  | FindChildren string
  | FindCursor
  | Allocate FileId
  | RecordState FileId FileState
  | RecordSynced FileId
  | ApplyChange Change
  | StoreItem CloudItem
  | StoreCursor string

fun db_section :: "'s db_env \<Rightarrow> AccountId \<Rightarrow> vfs_section \<Rightarrow> 's Database \<Rightarrow> 's Database" where
  "db_section env acc (FindInode ino) db = snd (get_file_id env ino db)"
| "db_section env acc (FindFile f) db = snd (cache_get env acc f db)"
| "db_section env acc (FindChildren p) db = snd (get_children env acc p db)"
| "db_section env acc FindCursor db = snd (with_conn (get_cursor env (account_id_str acc)) db)"
| "db_section env acc (Allocate f) db = db"
| "db_section env acc (RecordState f s) db = snd (with_conn (record_state_conn env acc f s) db)"
| "db_section env acc (RecordSynced f) db = snd (with_conn (record_synced_conn env acc f) db)"
| "db_section env acc (ApplyChange c) db = snd (apply_change env acc c db)"
| "db_section env acc (StoreItem item) db = snd (upsert_cloud_item env acc item db)"
| "db_section env acc (StoreCursor cur) db = snd (with_conn (upsert_cursor env (account_id_str acc) cur) db)"

text \<open>What the threads share is the handle and the counter of the inode manager.\<close>

fun run_section :: "'s db_env \<Rightarrow> bool \<Rightarrow> AccountId \<Rightarrow> vfs_section \<Rightarrow> 's Database \<times> u64 \<Rightarrow> 's Database \<times> u64" where
  "run_section env chk acc (Allocate f) x = snd (get_or_allocate env chk f x)"
| "run_section env chk acc sec (db, k) = (db_section env acc sec db, k)"

definition run_sections :: "'s db_env \<Rightarrow> bool \<Rightarrow> AccountId \<Rightarrow> vfs_section list \<Rightarrow> 's Database \<times> u64 \<Rightarrow> 's Database \<times> u64" where
  "run_sections env chk acc secs x = fold (run_section env chk acc) secs x"

definition shared :: "('s, 'w) fs_state \<Rightarrow> 's Database \<times> u64" where
  "shared st = (fs_db st, fs_next_inode st)"

section \<open>The threads' code consists of sections\<close>

text \<open>\<open>within\<close>: what a thread reaches from \<open>x\<close> with sections of its kind.\<close>

definition within :: "'s db_env \<Rightarrow> bool \<Rightarrow> AccountId \<Rightarrow> vfs_section set \<Rightarrow> 's Database \<times> u64 \<Rightarrow> 's Database \<times> u64 \<Rightarrow> bool" where
  "within env chk acc A x y \<longleftrightarrow> (\<exists>secs. set secs \<subseteq> A \<and> y = run_sections env chk acc secs x)"

lemma within_refl [simp, intro]: "within env chk acc A x x"
  unfolding within_def by (intro exI [of _ "[]"]) (simp add: run_sections_def)

lemma within_section:
  assumes "within env chk acc A x y" and "sec \<in> A"
  shows "within env chk acc A x (run_section env chk acc sec y)"
proof -
  obtain secs where "set secs \<subseteq> A" "y = run_sections env chk acc secs x" using assms(1) by (auto simp: within_def)
  then show ?thesis
    unfolding within_def using assms(2) by (intro exI [of _ "secs @ [sec]"]) (simp add: run_sections_def)
qed

definition handler_sections :: "vfs_section set" where
  "handler_sections = range FindInode \<union> range FindFile \<union> range FindChildren \<union> range Allocate \<union>
     range (\<lambda>(f, s). RecordState f s) \<union> range RecordSynced"

definition sync_sections :: "vfs_section set" where
  "sync_sections = {FindCursor} \<union> range ApplyChange \<union> range StoreItem \<union> range StoreCursor"

lemma handler_sectionsI [simp, intro]:
  "FindInode ino \<in> handler_sections" "FindFile f \<in> handler_sections" "FindChildren p \<in> handler_sections"
  "Allocate f \<in> handler_sections" "RecordState f s \<in> handler_sections" "RecordSynced f \<in> handler_sections"
  by (auto simp: handler_sections_def image_iff)

lemma sync_sectionsI [simp, intro]:
  "FindCursor \<in> sync_sections" "ApplyChange c \<in> sync_sections" "StoreItem item \<in> sync_sections" "StoreCursor cur \<in> sync_sections"
  by (auto simp: sync_sections_def)

text \<open>A handler stays within its sections when each of its calls does.\<close>

abbreviation handles :: "'s db_env \<Rightarrow> bool \<Rightarrow> AccountId \<Rightarrow> 's Database \<times> u64 \<Rightarrow> (('s, 'w) fs_state, 'a, 'e) st \<Rightarrow> bool" where
  "handles env chk acc x \<equiv> preserves (\<lambda>st. within env chk acc handler_sections x (shared st))"

lemma handles_fs_on_db:
  fixes env :: "'s db_env" and m :: "('s Database, 'a, DbError) st"
  assumes "\<And>db. snd (m db) = db_section env acc sec db" and "sec \<in> handler_sections" and "\<And>f. sec \<noteq> Allocate f"
  shows "handles env chk acc x (fs_on_db m err :: (('s, 'w) fs_state, 'a, errno) st)"
proof (rule preservesI)
  fix st :: "('s, 'w) fs_state" assume st: "within env chk acc handler_sections x (shared st)"
  have "shared (snd (fs_on_db m err st)) = run_section env chk acc sec (shared st)"
    using assms(1) [of "fs_db st"] assms(3) by (cases sec) (auto simp: fs_on_db_def shared_def split: prod.splits)
  then show "within env chk acc handler_sections x (shared (snd (fs_on_db m err st)))"
    using within_section [OF st assms(2)] by simp
qed

lemma handles_fs_allocate [preserve_intros]:
  fixes env :: "'s db_env"
  shows "handles env chk acc x (fs_allocate env chk f :: (('s, 'w) fs_state, u64, errno) st)"
proof (rule preservesI)
  fix st :: "('s, 'w) fs_state" assume st: "within env chk acc handler_sections x (shared st)"
  have "shared (snd (fs_allocate env chk f st)) = run_section env chk acc (Allocate f) (shared st)"
    by (auto simp: fs_allocate_def shared_def split: prod.splits)
  then show "within env chk acc handler_sections x (shared (snd (fs_allocate env chk f st)))"
    using within_section [OF st, of "Allocate f"] by simp
qed

lemma handles_get_file_id [preserve_intros]: "handles env chk acc x (fs_on_db (get_file_id env ino) err)"
  by (rule handles_fs_on_db [where sec = "FindInode ino"]) simp_all

lemma handles_cache_get [preserve_intros]: "handles env chk acc x (fs_on_db (cache_get env acc f) err)"
  by (rule handles_fs_on_db [where sec = "FindFile f"]) simp_all

lemma handles_get_children [preserve_intros]: "handles env chk acc x (fs_on_db (get_children env acc p) err)"
  by (rule handles_fs_on_db [where sec = "FindChildren p"]) simp_all

lemma handles_found [preserve_intros]:
  fixes m :: "('s Database, 'a option, DbError) st"
  assumes "handles env chk acc x (fs_on_db m (\<lambda>_. e) :: (('s, 'w) fs_state, 'a option, errno) st)"
  shows "handles env chk acc x (fs_found m e :: (('s, 'w) fs_state, 'a, errno) st)"
  using assms
  unfolding fs_found_def by (intro preserve_intros) (auto intro: preserve_intros split: option.split)

lemma handles_option [preserve_intros]:
  "(\<And>v. preserves P (f v)) \<Longrightarrow> preserves P g \<Longrightarrow> preserves P (case r of None \<Rightarrow> g | Some v \<Rightarrow> f v)"
  by (simp split: option.split)

lemma handles_if [preserve_intros]: "preserves P m \<Longrightarrow> preserves P n \<Longrightarrow> preserves P (if b then m else n)"
  by simp

lemma handles_parent_path [preserve_intros]:
  fixes env :: "'s db_env" and fs :: "'w CloudSyncFS"
  shows "handles env chk (fs_account_id fs) x (parent_path env fs parent f)"
proof (rule preservesI)
  fix st :: "('s, 'w) fs_state" assume st: "within env chk (fs_account_id fs) handler_sections x (shared st)"
  have "shared (snd (parent_path env fs parent f st)) = run_section env chk (fs_account_id fs) (FindFile f) (shared st)"
    by (auto simp: parent_path_def shared_def split: prod.splits outcome.splits option.splits)
  then show "within env chk (fs_account_id fs) handler_sections x (shared (snd (parent_path env fs parent f st)))"
    using within_section [OF st, of "FindFile f"] by simp
qed

lemma handles_child_entries [preserve_intros]:
  fixes env :: "'s db_env"
  shows "handles env chk acc x (child_entries env chk children :: (('s, 'w) fs_state, _, errno) st)"
proof (induction children)
  case (Cons child children)
  show ?case
  proof (rule preservesI)
    fix st :: "('s, 'w) fs_state" assume st: "within env chk acc handler_sections x (shared st)"
    obtain r st1 where al: "fs_allocate env chk (cf_file_id child) st = (r, st1)" by fastforce
    have st1: "within env chk acc handler_sections x (shared st1)" using preservesD [OF handles_fs_allocate st al] .
    have rest: "handles env chk acc x (bindS (child_entries env chk children) (\<lambda>rest. returnS (e # rest)) :: (('s, 'w) fs_state, _, errno) st)" for e
      by (intro preserve_intros Cons.IH)
    show "within env chk acc handler_sections x (shared (snd (child_entries env chk (child # children) st)))"
      using al st1 Cons.IH rest by (cases r) (auto simp: preserves_def)
  qed
qed (simp add: preserves_def)

text \<open>The records of the content cache.\<close>

abbreviation records :: "'s db_env \<Rightarrow> bool \<Rightarrow> AccountId \<Rightarrow> 's Database \<times> u64 \<Rightarrow> u64 \<Rightarrow> (('s, 'w) cc_state, 'a, 'e) st \<Rightarrow> bool" where
  "records env chk acc x k \<equiv> preserves (\<lambda>st. within env chk acc handler_sections x (cc_db st, k))"

lemma cc_db_updates [simp]:
  "cc_db (set_status f s st) = cc_db st" "cc_db (poison f st) = cc_db st" "cc_db (acquire_lock f st) = cc_db st"
  by (simp_all add: set_status_def poison_def acquire_lock_def)

lemma logged_update_db: "cc_db (snd (logged_update m st)) = snd (with_conn m (cc_db st))"
  by (auto simp: logged_update_def split: prod.splits outcome.splits)

lemma records_update_state [preserve_intros]:
  fixes env :: "'s db_env" and cc :: "'w ContentCache"
  assumes "cc_account_id cc = acc"
  shows "records env chk acc x k (update_file_state env cc f s)"
proof (rule preservesI)
  fix st :: "('s, 'w) cc_state" assume st: "within env chk acc handler_sections x (cc_db st, k)"
  have "update_file_state env cc f s = logged_update (record_state_conn env acc f s)"
    by (simp add: update_file_state_def assms)
  then show "within env chk acc handler_sections x (cc_db (snd (update_file_state env cc f s st)), k)"
    using within_section [OF st, of "RecordState f s"] by (simp add: logged_update_db)
qed

lemma records_update_synced [preserve_intros]:
  fixes env :: "'s db_env" and cc :: "'w ContentCache"
  assumes "cc_account_id cc = acc"
  shows "records env chk acc x k (update_synced_at env cc f)"
proof (rule preservesI)
  fix st :: "('s, 'w) cc_state" assume st: "within env chk acc handler_sections x (cc_db st, k)"
  have "update_synced_at env cc f = logged_update (record_synced_conn env acc f)"
    by (simp add: update_synced_at_def assms)
  then show "within env chk acc handler_sections x (cc_db (snd (update_synced_at env cc f st)), k)"
    using within_section [OF st, of "RecordSynced f"] by (simp add: logged_update_db)
qed

lemma records_holding [preserve_intros]:
  fixes env :: "'s db_env" and m :: "(('s, 'w) cc_state, 'a, 'e) st"
  assumes "records env chk acc x k m"
  shows "records env chk acc x k (holding f m)"
proof (rule preservesI)
  fix st :: "('s, 'w) cc_state" assume st: "within env chk acc handler_sections x (cc_db st, k)"
  obtain r st' where m: "m st = (r, st')" by fastforce
  from preservesD [OF assms st m] m show "within env chk acc handler_sections x (cc_db (snd (holding f m st)), k)"
    by (cases r) (simp_all add: holding_def)
qed

lemma records_finish:
  fixes env :: "'s db_env" and cc :: "'w ContentCache"
  assumes "cc_account_id cc = acc"
  shows "records env chk acc x k (finish_download env cc f r)"
proof (rule preservesI)
  fix st :: "('s, 'w) cc_state" assume st: "within env chk acc handler_sections x (cc_db st, k)"
  have err: "records env chk acc x k (holding f (bindS (update_file_state env cc f Error) (\<lambda>_. failS EIO) :: (('s, 'w) cc_state, PathBuf, errno) st))"
    and ok: "records env chk acc x k (holding f (bindS (update_file_state env cc f Synced) (\<lambda>_.
            bindS (update_synced_at env cc f) (\<lambda>_. returnS (cached_path cc f)))))"
    by (intro preserve_intros assms)+
  show "within env chk acc handler_sections x (cc_db (snd (finish_download env cc f r st)), k)"
    using st err ok
    by (auto simp: finish_download_def preserves_def split: outcome.splits CoreError.splits)
qed

lemma records_ensure_downloaded:
  fixes env :: "'s db_env" and cc :: "'w ContentCache"
  assumes "cc_account_id cc = acc"
  shows "records env chk acc x k (ensure_downloaded io env cc f)"
proof (rule preservesI)
  fix st :: "('s, 'w) cc_state" assume st: "within env chk acc handler_sections x (cc_db st, k)"
  obtain e st1 where e: "enter_download io cc f (acquire_lock f st) = (e, st1)" by fastforce
  have db1: "cc_db st1 = cc_db st" using e by (auto simp: enter_download_def split: if_splits DownloadStatus.splits)
  have go: "records env chk acc x k (\<lambda>s. case run_download cc f s of (r, s') \<Rightarrow> finish_download env cc f r s')"
    by (rule preservesI) (use records_finish [OF assms, of env chk x k f] in \<open>auto simp: run_download_def preserves_def split: prod.splits\<close>)
  have "records env chk acc x k (bindS (update_file_state env cc f Syncing)
      (\<lambda>_ s. case run_download cc f s of (r, s') \<Rightarrow> finish_download env cc f r s'))"
    by (intro preserve_intros assms go)
  then show "within env chk acc handler_sections x (cc_db (snd (ensure_downloaded io env cc f st)), k)"
    using st e db1 by (auto simp: ensure_downloaded_def preserves_def split: option.splits)
qed

lemma handles_on_cache [preserve_intros]:
  fixes env :: "'s db_env" and cc :: "'w ContentCache"
  assumes "cc_account_id cc = acc"
  shows "handles env chk acc x (fs_on_cache (ensure_downloaded io env cc f))"
proof (rule preservesI)
  fix st :: "('s, 'w) fs_state" assume st: "within env chk acc handler_sections x (shared st)"
  let ?s = "\<lparr> cc_db = fs_db st, cc_world = fs_world st, cc_locks = fs_locks st \<rparr>"
  obtain r s' where e: "ensure_downloaded io env cc f ?s = (r, s')" by fastforce
  have "within env chk acc handler_sections x (cc_db s', fs_next_inode st)"
    by (rule preservesD [OF records_ensure_downloaded [OF assms, of env chk x "fs_next_inode st"] _ e])
      (use st in \<open>simp add: shared_def\<close>)
  then show "within env chk acc handler_sections x (shared (snd (fs_on_cache (ensure_downloaded io env cc f) st)))"
    using e by (simp add: fs_on_cache_def shared_def)
qed

text \<open>So each handler stays within its sections.\<close>

lemma handles_lookup_child [preserve_intros]:
  "handles env chk (fs_account_id fs) x (lookup_child env chk fs path name)"
  unfolding lookup_child_def by (intro preserve_intros)

lemma handles_lookup: "handles env chk (fs_account_id fs) x (lookup env chk fs parent name)"
  unfolding lookup_def by (intro preserve_intros)

lemma handles_getattr: "handles env chk (fs_account_id fs) x (getattr env clock fs ino)"
proof (cases "ino = FUSE_ROOT_INODE")
  case True
  then show ?thesis by (auto simp: getattr_def preserves_def shared_def split: prod.splits)
next
  case False
  then show ?thesis unfolding getattr_def by (simp only: if_False) (intro preserve_intros)
qed

lemma handles_readdir: "handles env chk (fs_account_id fs) x (readdir env chk fits fs ino offset)"
  unfolding readdir_def dir_path_def by (intro preserve_intros)

lemma handles_open:
  assumes "\<And>cc. fs_content_cache fs = Some cc \<Longrightarrow> cc_account_id cc = fs_account_id fs"
  shows "handles env chk (fs_account_id fs) x (fs_open io env fs ino)"
proof -
  have fin: "handles env chk (fs_account_id fs) x
      (\<lambda>st. let fh = fs_next_fh st in (Ok (ReplyOpened fh 0), st\<lparr> fs_next_fh := fh + 1, fs_open_files := (fs_open_files st)(fh \<mapsto> p) \<rparr>))" for p
    by (auto simp: preserves_def shared_def Let_def)
  show ?thesis
  proof (cases "fs_content_cache fs")
    case None
    then show ?thesis unfolding fs_open_def by (simp only: option.case) (intro preserve_intros)
  next
    case (Some cc)
    then show ?thesis unfolding fs_open_def by (simp only: option.case) (intro preserve_intros fin assms)
  qed
qed

lemma handles_read: "handles env chk acc x (fs_read io fs fh offset sz)"
  by (auto simp: preserves_def fs_read_def split: option.splits)

lemma handles_release: "handles env chk acc x (fs_release fh)"
  by (auto simp: preserves_def fs_release_def shared_def)

text \<open>And so does each round of the synchroniser, which never allocates.\<close>

abbreviation syncs :: "'s db_env \<Rightarrow> bool \<Rightarrow> AccountId \<Rightarrow> 's Database \<times> u64 \<Rightarrow> u64 \<Rightarrow> ('s Database \<times> 'w world, 'a, 'e) st \<Rightarrow> bool" where
  "syncs env chk acc x k \<equiv> preserves (\<lambda>st. within env chk acc sync_sections x (fst st, k))"

lemma syncs_on_db:
  fixes env :: "'s db_env" and m :: "('s Database, 'a, DbError) st"
  assumes "\<And>db. snd (m db) = db_section env acc sec db" and "sec \<in> sync_sections" and "\<And>f. sec \<noteq> Allocate f"
  shows "syncs env chk acc x k (on_db m :: ('s Database \<times> 'w world, 'a, VfsError) st)"
proof (rule preservesI)
  fix st :: "'s Database \<times> 'w world" assume st: "within env chk acc sync_sections x (fst st, k)"
  have "fst (snd (on_db m st)) = snd (m (fst st))"
    by (cases st) (auto simp: on_db_def on_fst_def map_errS_def split: prod.splits)
  then have "(fst (snd (on_db m st)), k) = run_section env chk acc sec (fst st, k)"
    using assms(1) [of "fst st"] assms(3) by (cases sec) auto
  then show "within env chk acc sync_sections x (fst (snd (on_db m st)), k)"
    using within_section [OF st assms(2)] by simp
qed

lemma syncs_on_provider [preserve_intros]: "syncs env chk acc x k (on_provider ctx m)"
  by (auto simp: preserves_def on_provider_def on_snd_def split: prod.splits)

lemmas syncs_writes [preserve_intros] =
  syncs_on_db [where m = "apply_change env acc c" and sec = "ApplyChange c" and env = env and acc = acc for env acc c, simplified]
  syncs_on_db [where m = "upsert_cloud_item env acc i" and sec = "StoreItem i" and env = env and acc = acc for env acc i, simplified]
  syncs_on_db [where m = "with_conn (upsert_cursor env (account_id_str acc) cur)" and sec = "StoreCursor cur"
    and env = env and acc = acc for env acc cur, simplified]
  syncs_on_db [where m = "with_conn (get_cursor env (account_id_str acc))" and sec = FindCursor
    and env = env and acc = acc for env acc, simplified]

lemma syncs_initial: "syncs env chk acc x k (meta_initial_sync env prov acc)"
  unfolding meta_initial_sync_def by (intro preserve_intros)

lemma syncs_incremental_loop:
  "incremental_loop env prov acc cursor n st = Some y \<Longrightarrow>
   within env chk acc sync_sections x (fst st, k) \<Longrightarrow> within env chk acc sync_sections x (fst (snd y), k)"
proof (induction rule: incremental_loop.raw_induct [rotated, consumes 1, case_names step])
  case (step rec env prov acc cursor n st y)
  let ?page = "bindS (on_provider ''Failed to get changes'' (cp_get_changes prov (Some cursor))) (\<lambda>change_list.
           bindS (for_eachS (\<lambda>change. on_db (apply_change env acc change)) (cl_changes change_list)) (\<lambda>_.
           bindS (on_db (with_conn (upsert_cursor env (account_id_str acc) (cl_cursor change_list)))) (\<lambda>_.
           returnS change_list)))"
  obtain r st2 where page: "?page st = (r, st2)" by (rule prod.exhaust)
  have "syncs env chk acc x k ?page" by (intro preserve_intros)
  from preservesD [OF this step.prems page] have keep: "within env chk acc sync_sections x (fst st2, k)" .
  show ?case
  proof (cases r)
    case (Ok change_list)
    then show ?thesis using step.hyps page keep step.IH by (auto split: if_splits)
  qed (use step.hyps page keep in auto)
qed

lemma syncs_incremental:
  assumes "incremental_sync env prov acc st = Some (r, st')" and "within env chk acc sync_sections x (fst st, k)"
  shows "within env chk acc sync_sections x (fst st', k)"
proof -
  let ?get = "on_db (with_conn (get_cursor env (account_id_str acc)))"
  obtain r1 st1 where g: "?get st = (r1, st1)" by (rule prod.exhaust)
  have "syncs env chk acc x k ?get" by (intro preserve_intros)
  from preservesD [OF this assms(2) g] have st1: "within env chk acc sync_sections x (fst st1, k)" .
  have init: "within env chk acc sync_sections x (fst (snd (meta_initial_sync env prov acc st1)), k)"
    using preservesD [OF syncs_initial st1 surjective_pairing] .
  have loop: "within env chk acc sync_sections x (fst st', k)"
    if "incremental_loop env prov acc cursor 0 st1 = Some (r, st')" for cursor
    using syncs_incremental_loop [OF that st1] by simp
  show ?thesis
    using assms(1) g st1 init loop by (auto simp: incremental_sync_def split: outcome.splits option.splits)
qed

lemma syncs_background_rounds:
  "background_rounds env prov acc n st = Some st' \<Longrightarrow>
   within env chk acc sync_sections x (fst st, k) \<Longrightarrow> within env chk acc sync_sections x (fst st', k)"
proof (induction n arbitrary: st)
  case (Suc n)
  then obtain r st1 where i: "incremental_sync env prov acc st = Some (r, st1)"
    by (cases "incremental_sync env prov acc st") auto
  from Suc.IH [of st1] syncs_incremental [OF i Suc.prems(2)] Suc.prems(1) i show ?case
    by (cases r) (auto split: if_splits)
qed simp

lemma syncs_background:
  assumes "background_sync env prov acc n st = Some st'"
  shows "within env chk acc sync_sections (fst st, k) (fst st', k)"
proof -
  obtain r st1 where i: "meta_initial_sync env prov acc st = (r, st1)" by (rule prod.exhaust)
  from preservesD [OF syncs_initial within_refl i] have st1: "within env chk acc sync_sections (fst st, k) (fst st1, k)" .
  from syncs_background_rounds [OF _ st1] assms i show ?thesis
    by (cases r) (use st1 in \<open>auto simp: background_sync_def\<close>)
qed

section \<open>The contract of a step\<close>

text \<open>
  Steps on a shared state: each keeps the invariant, follows a specification on what the state
  stands for, uses up one unit of room at most and only extends what was promised before. Then
  so does every sequence of steps the room suffices for.
\<close>

locale section_steps =
  fixes step :: "'sec \<Rightarrow> 'st \<Rightarrow> 'st"
    and ok :: "'sec \<Rightarrow> bool"
    and invar :: "'st \<Rightarrow> bool"
    and room :: "'st \<Rightarrow> nat"
    and abs :: "'st \<Rightarrow> 'abs"
    and spec :: "'sec \<Rightarrow> 'abs \<Rightarrow> 'abs"
    and ext :: "'st \<Rightarrow> 'st \<Rightarrow> bool"
  assumes step_law: "invar x \<Longrightarrow> ok sec \<Longrightarrow> 0 < room x \<Longrightarrow>
      invar (step sec x) \<and> abs (step sec x) = spec sec (abs x) \<and> room x \<le> Suc (room (step sec x)) \<and> ext x (step sec x)"
    and ext_refl: "ext x x"
    and ext_trans: "ext x y \<Longrightarrow> ext y z \<Longrightarrow> ext x z"
begin

lemma steps_law:
  "invar x \<Longrightarrow> \<forall>sec \<in> set secs. ok sec \<Longrightarrow> length secs \<le> room x \<Longrightarrow>
   invar (fold step secs x) \<and> abs (fold step secs x) = fold spec secs (abs x) \<and> ext x (fold step secs x)"
proof (induction secs arbitrary: x)
  case Nil
  then show ?case by (simp add: ext_refl)
next
  case (Cons sec secs)
  then have law: "invar (step sec x)" "abs (step sec x) = spec sec (abs x)" "room x \<le> Suc (room (step sec x))" "ext x (step sec x)"
    using step_law [of x sec] by auto
  from Cons.IH [OF law(1)] Cons.prems law(3) have
    "invar (fold step secs (step sec x)) \<and> abs (fold step secs (step sec x)) = fold spec secs (abs (step sec x)) \<and>
     ext (step sec x) (fold step secs (step sec x))" by auto
  with law show ?case using ext_trans by auto
qed

end

section \<open>What the sections do, in any order\<close>

text \<open>
  The specification: of each known file its state and whether it is a folder. A synchroniser's
  write keeps the state the content cache gave a file, and no query changes anything.
\<close>

definition entries :: "AccountId \<Rightarrow> 's Database \<Rightarrow> FileId \<Rightarrow> (string \<times> bool) option" where
  "entries acc db f = map_option (\<lambda>m. (mt_state m, mt_folder m \<noteq> 0)) (handle_view acc db f)"

definition spec_store :: "CloudItem \<Rightarrow> (FileId \<Rightarrow> (string \<times> bool) option) \<Rightarrow> FileId \<Rightarrow> (string \<times> bool) option" where
  "spec_store item m = m(ci_id item \<mapsto>
     (case m (ci_id item) of None \<Rightarrow> ''cloud_only'' | Some (s, _) \<Rightarrow> s, ci_is_folder item))"

definition spec_section :: "vfs_section \<Rightarrow> (FileId \<Rightarrow> (string \<times> bool) option) \<Rightarrow> FileId \<Rightarrow> (string \<times> bool) option" where
  "spec_section sec m =
     (case sec of
        RecordState f s \<Rightarrow> (case m f of None \<Rightarrow> m | Some (_, k) \<Rightarrow> m(f \<mapsto> (state_column s, k)))
      | ApplyChange c \<Rightarrow> (if ch_deleted c then m(ch_file_id c := None)
          else case ch_item c of Some item \<Rightarrow> spec_store item m | None \<Rightarrow> m)
      | StoreItem item \<Rightarrow> spec_store item m
      | _ \<Rightarrow> m)"

definition allocated_by :: "vfs_section \<Rightarrow> FileId set" where
  "allocated_by sec = (case sec of Allocate f \<Rightarrow> {f} | _ \<Rightarrow> {})"

definition section_ok :: "chrono \<Rightarrow> vfs_section \<Rightarrow> bool" where
  "section_ok ch sec \<longleftrightarrow>
     (case sec of ApplyChange c \<Rightarrow> change_stamps_ok ch c | StoreItem item \<Rightarrow> stamp_ok ch (ci_modified item) | _ \<Rightarrow> True)"

definition shared_inv :: "'s db_env \<Rightarrow> AccountId \<Rightarrow> 's Database \<times> u64 \<Rightarrow> bool" where
  "shared_inv env acc x \<longleftrightarrow> seconds_exact (de_chrono env) \<and> handle_inv env acc (fst x) \<and> mgr_inv (env, x)"

abbreviation numbers :: "'s db_env \<Rightarrow> 's Database \<times> u64 \<Rightarrow> FileId \<Rightarrow> u64 option" where
  "numbers env x \<equiv> mgr_num (env, x)"

lemma entries_upsert:
  assumes "handle_view acc db' = spec_upsert ch item (handle_view acc db)"
  shows "entries acc db' = spec_store item (entries acc db)"
  using assms by (auto simp: entries_def fun_eq_iff spec_upsert_def spec_store_def item_meta_def split: option.splits)

lemma entries_change:
  assumes "handle_view acc db' = spec_change ch c (handle_view acc db)"
  shows "entries acc db' = spec_section (ApplyChange c) (entries acc db)"
proof (cases "\<not> ch_deleted c \<and> ch_item c \<noteq> None")
  case True
  then obtain item where "\<not> ch_deleted c" "ch_item c = Some item" by blast
  then show ?thesis
    using assms entries_upsert [of acc db' ch item db] by (simp add: spec_change_def spec_section_def)
next
  case False
  then show ?thesis using assms by (auto simp: spec_change_def spec_section_def entries_def fun_eq_iff)
qed

lemma entries_states:
  "entries acc db f = (case view_states acc db f of None \<Rightarrow> None
     | Some s \<Rightarrow> Some (s, the (view_kinds acc (cn_db (dbh_conn db)) f)))"
  by (auto simp: entries_def view_states_def view_kinds_def split: option.splits)

lemma shared_inv_same_inodes:
  assumes "shared_inv env acc (db, k)" and "handle_inv env acc db'"
    and "db_inodes (cn_db (dbh_conn db')) = db_inodes (cn_db (dbh_conn db))"
  shows "shared_inv env acc (db', k)" "numbers env (db', k) = numbers env (db, k)"
  using assms by (auto simp: shared_inv_def mgr_inv_def handle_inv_def meta_inv_def inode_of_def inodes_cast_def mgr_num_def fun_eq_iff)

text \<open>The two records of the content cache, as sections.\<close>

lemma seq_update_file [preserve_intros]:
  fixes env :: "'s db_env"
  shows "preserves (\<lambda>c. db_files_seq (cn_db c) = n) (update_file env f)"
    and "preserves (\<lambda>c. db_files_seq (cn_db c) = n) (now_st env)"
    and "preserves (\<lambda>c. db_files_seq (cn_db c) = n) (get_file_by_provider_id env acc i)"
proof -
  show "preserves (\<lambda>c. db_files_seq (cn_db c) = n) (now_st env)" by (auto simp: preserves_def now_st_def split: prod.splits)
  show "preserves (\<lambda>c. db_files_seq (cn_db c) = n) (update_file env f)"
    by (auto simp: preserves_def update_file_def bindS_def now_st_app map_errS_def sql_execute_def update_file_row_def Let_def
        split: option.splits sum.splits if_splits)
  show "preserves (\<lambda>c. db_files_seq (cn_db c) = n) (get_file_by_provider_id env acc i)"
    by (simp add: preserves_def get_file_by_provider_id_def)
qed

lemma seq_record_conn:
  "preserves (\<lambda>c. db_files_seq (cn_db c) = n) (record_state_conn env acc f s)"
  "preserves (\<lambda>c. db_files_seq (cn_db c) = n) (record_synced_conn env acc f)"
  unfolding record_state_conn_def record_synced_conn_def by (intro preserve_intros)+

lemma seq_with_conn:
  "preserves (\<lambda>c. db_files_seq (cn_db c) = n) m \<Longrightarrow> handle_seq db = n \<Longrightarrow> handle_seq (snd (with_conn m db)) = n"
  by (auto simp: preserves_def with_conn_def split: prod.splits outcome.splits)

lemma record_section:
  fixes db :: "'s Database"
  assumes "handle_inv env acc db" and "seconds_exact (de_chrono env)"
    and sec: "sec = RecordState f s \<or> sec = RecordSynced f"
  defines "db' \<equiv> db_section env acc sec db"
  shows "handle_inv env acc db'" "entries acc db' = spec_section sec (entries acc db)"
    "db_inodes (cn_db (dbh_conn db')) = db_inodes (cn_db (dbh_conn db))" "handle_seq db' = handle_seq db"
proof -
  obtain cc :: "unit ContentCache" where cc: "cc_account_id cc = acc"
    using that [of "undefined\<lparr> cc_account_id := acc \<rparr>"] by simp
  define st :: "('s, unit) cc_state" where "st = \<lparr> cc_db = db, cc_world = undefined, cc_locks = Map.empty \<rparr>"
  have st: "cc_db st = db" by (simp add: st_def)
  have inv: "handle_inv env (cc_account_id cc) (cc_db st)" using assms(1) by (simp add: cc st)
  have up: "update_file_state env cc f s = (logged_update (record_state_conn env acc f s) :: (('s, unit) cc_state, _, _) st)"
    "update_synced_at env cc f = (logged_update (record_synced_conn env acc f) :: (('s, unit) cc_state, _, _) st)"
    by (simp_all add: update_file_state_def update_synced_at_def cc)
  have "handle_inv env acc db' \<and> view_states acc db' =
      (case sec of RecordState f s \<Rightarrow> set_state f (state_column s) (view_states acc db) | _ \<Rightarrow> view_states acc db) \<and> same_tree acc db db'"
    using sec
  proof
    assume s: "sec = RecordState f s"
    from update_file_state_refines [OF inv assms(2), of f s] show ?thesis
      using logged_update_db [of "record_state_conn env acc f s" st] by (auto simp: cc st up s db'_def)
  next
    assume s: "sec = RecordSynced f"
    from update_synced_at_refines [OF inv assms(2), of f] show ?thesis
      using logged_update_db [of "record_synced_conn env acc f" st] by (auto simp: cc st up s db'_def)
  qed
  then have new: "handle_inv env acc db'" "same_tree acc db db'" and vs: "view_states acc db' =
      (case sec of RecordState f s \<Rightarrow> set_state f (state_column s) (view_states acc db) | _ \<Rightarrow> view_states acc db)"
    by simp_all
  from new show "handle_inv env acc db'" "db_inodes (cn_db (dbh_conn db')) = db_inodes (cn_db (dbh_conn db))"
    by (simp_all add: same_tree_def)
  have "entries acc db' = (\<lambda>j. case view_states acc db' j of None \<Rightarrow> None
      | Some s \<Rightarrow> Some (s, the (view_kinds acc (cn_db (dbh_conn db)) j)))"
    using new(2) by (intro ext) (simp add: entries_states same_tree_def split: option.split)
  also have "\<dots> = spec_section sec (entries acc db)"
  proof
    fix j show "(case view_states acc db' j of None \<Rightarrow> None
      | Some s \<Rightarrow> Some (s, the (view_kinds acc (cn_db (dbh_conn db)) j))) = spec_section sec (entries acc db) j"
      using sec
      by (cases "handle_view acc db f"; cases "handle_view acc db j")
        (auto simp: vs spec_section_def entries_def view_states_def view_kinds_def set_state_def)
  qed
  finally show "entries acc db' = spec_section sec (entries acc db)" .
  show "handle_seq db' = handle_seq db"
    using sec seq_with_conn [OF seq_record_conn(1) refl] seq_with_conn [OF seq_record_conn(2) refl]
    by (elim disjE) (simp_all only: db'_def db_section.simps)
qed

text \<open>An allocation, which is also what \<open>fs_allocate\<close> does to the handle and the counter.\<close>

lemma allocate_section:
  fixes db :: "'s Database"
  assumes "shared_inv env acc (db, k)" and "unat k < 2 ^ 63" and al: "snd (get_or_allocate env chk f (db, k)) = (db', k')"
  shows "shared_inv env acc (db', k')" "same_files db db'" "unat k' \<le> Suc (unat k)"
    "\<exists>n. numbers env (db', k') = (numbers env (db, k))(f \<mapsto> n) \<and> numbers env (db, k) f \<in> {None, Some n}"
proof -
  define st :: "('s, unit) fs_state" where "st = undefined\<lparr> fs_db := db, fs_next_inode := k \<rparr>"
  have st: "fs_db st = db" "fs_next_inode st = k" by (simp_all add: st_def)
  have "fs_inv env acc st" "unat (fs_next_inode st) < 2 ^ 63" using assms(1,2) by (simp_all add: fs_inv_def shared_inv_def st)
  from fs_allocate_law [OF this, of chk f] obtain n db1 k1 where
    1: "fs_allocate env chk f st = (Ok n, st\<lparr> fs_db := db1, fs_next_inode := k1 \<rparr>)"
    "fs_inv env acc (st\<lparr> fs_db := db1, fs_next_inode := k1 \<rparr>)" "same_files db db1" "unat k1 \<le> Suc (unat k)"
    "numbers env (db1, k1) = (numbers env (db, k))(f \<mapsto> n)" "numbers env (db, k) f \<in> {None, Some n}"
    by (auto simp: st)
  have "st\<lparr> fs_db := db1, fs_next_inode := k1 \<rparr> = st\<lparr> fs_db := db', fs_next_inode := k' \<rparr>"
    using 1(1) al by (auto simp: fs_allocate_def st split: prod.splits)
  then have "fs_db (st\<lparr> fs_db := db1, fs_next_inode := k1 \<rparr>) = fs_db (st\<lparr> fs_db := db', fs_next_inode := k' \<rparr>)"
    "fs_next_inode (st\<lparr> fs_db := db1, fs_next_inode := k1 \<rparr>) = fs_next_inode (st\<lparr> fs_db := db', fs_next_inode := k' \<rparr>)" by metis+
  then have "db1 = db'" "k1 = k'" by simp_all
  with 1 assms(1) show "shared_inv env acc (db', k')" "same_files db db'" "unat k' \<le> Suc (unat k)"
    "\<exists>n. numbers env (db', k') = (numbers env (db, k))(f \<mapsto> n) \<and> numbers env (db, k) f \<in> {None, Some n}"
    by (auto simp: fs_inv_def shared_inv_def)
qed

lemma entries_same_files: "same_files db db' \<Longrightarrow> entries acc db' = entries acc db"
  by (simp add: entries_def cloud_view_def same_files_def fun_eq_iff)

text \<open>Every section follows its specification; one identifier of the files table and one inode suffice.\<close>

lemma db_section_law:
  assumes inv: "shared_inv env acc (db, k)" and ok: "section_ok (de_chrono env) sec" and room: "handle_seq db + 1 < 2 ^ 63"
  shows "handle_inv env acc (db_section env acc sec db) \<and> entries acc (db_section env acc sec db) = spec_section sec (entries acc db) \<and>
    db_inodes (cn_db (dbh_conn (db_section env acc sec db))) = db_inodes (cn_db (dbh_conn db)) \<and>
    handle_seq (db_section env acc sec db) \<le> handle_seq db + 1"
proof -
  have h: "handle_inv env acc db" and ch: "seconds_exact (de_chrono env)" and w: "sqlite_works env" "\<not> dbh_poisoned db"
    using inv by (auto simp: shared_inv_def handle_inv_def meta_inv_def)
  have frame: "inodes_are rows (dbh_conn db) \<Longrightarrow> inodes_are rows (dbh_conn (snd (m db)))"
    if "preserves (\<lambda>db. inodes_are rows (dbh_conn db)) m" for m :: "('a Database, unit, DbError) st" and rows
    using that by (simp add: preserves_def)
  show ?thesis
  proof (cases sec)
    case (RecordState f s)
    then show ?thesis using record_section [OF h ch, of sec f s] by simp
  next
    case (RecordSynced f)
    then show ?thesis using record_section [OF h ch, of sec f] by simp
  next
    case (ApplyChange c)
    then show ?thesis
      using apply_change_refines [OF h _ room, of c] ok frame [OF inodes_apply_change, of _ env acc c]
      by (auto simp: section_ok_def inodes_are_def intro!: entries_change)
  next
    case (StoreItem item)
    then show ?thesis
      using upsert_cloud_item_refines [OF h _ room, of item] ok frame [OF inodes_upsert_cloud_item, of _ env acc item]
      by (auto simp: section_ok_def inodes_are_def spec_section_def intro!: entries_upsert)
  next
    case (StoreCursor cur)
    then show ?thesis
      using upsert_cursor_refines [OF h, of cur] frame [OF inodes_with_conn [OF inodes_files(6)]]
      by (auto simp: inodes_are_def spec_section_def entries_def)
  next
    case (FindChildren p)
    then show ?thesis using get_children_result [OF h, of p] h by (auto simp: spec_section_def)
  qed (use h w in \<open>auto simp: spec_section_def get_file_id_result cache_get_result [OF h] get_cursor_result [OF h]\<close>)
qed

text \<open>
  Together with the inodes: an allocation adds its file to the numbered ones, and every number
  given out stays.
\<close>

definition shared_abs :: "'s db_env \<Rightarrow> AccountId \<Rightarrow> 's Database \<times> u64 \<Rightarrow> (FileId \<Rightarrow> (string \<times> bool) option) \<times> FileId set" where
  "shared_abs env acc x = (entries acc (fst x), dom (numbers env x))"

definition spec_shared ::
  "vfs_section \<Rightarrow> (FileId \<Rightarrow> (string \<times> bool) option) \<times> FileId set \<Rightarrow> (FileId \<Rightarrow> (string \<times> bool) option) \<times> FileId set" where
  "spec_shared sec a = (spec_section sec (fst a), snd a \<union> allocated_by sec)"

definition shared_room :: "'s Database \<times> u64 \<Rightarrow> nat" where
  "shared_room x = min (nat (2 ^ 63 - 1 - handle_seq (fst x))) (2 ^ 63 - unat (snd x))"

lemma fold_spec_shared:
  "fold spec_shared secs (m, D) = (fold spec_section secs m, D \<union> (\<Union>sec \<in> set secs. allocated_by sec))"
  by (induction secs arbitrary: m D) (auto simp: spec_shared_def)

lemma run_section_law:
  assumes inv: "shared_inv env acc x" and ok: "section_ok (de_chrono env) sec" and room: "0 < shared_room x"
  shows "shared_inv env acc (run_section env chk acc sec x) \<and>
    shared_abs env acc (run_section env chk acc sec x) = spec_shared sec (shared_abs env acc x) \<and>
    shared_room x \<le> Suc (shared_room (run_section env chk acc sec x)) \<and>
    numbers env x \<subseteq>\<^sub>m numbers env (run_section env chk acc sec x)"
proof -
  obtain db k where x: "x = (db, k)" by (cases x)
  have r: "handle_seq db + 1 < 2 ^ 63" "unat k < 2 ^ 63" using room by (auto simp: shared_room_def x)
  show ?thesis
  proof (cases "\<exists>f. sec = Allocate f")
    case True
    then obtain f where f: "sec = Allocate f" by blast
    obtain db' k' where al: "snd (get_or_allocate env chk f (db, k)) = (db', k')" by fastforce
    note law = allocate_section [OF inv [unfolded x] r(2) al]
    obtain n where n: "numbers env (db', k') = (numbers env (db, k))(f \<mapsto> n)" "numbers env (db, k) f \<in> {None, Some n}"
      using law(4) by blast
    have "numbers env (db, k) \<subseteq>\<^sub>m numbers env (db', k')" using n by (auto simp: map_le_def)
    moreover have "dom (numbers env (db', k')) = dom (numbers env (db, k)) \<union> {f}" using n(1) by auto
    moreover have "handle_seq db' = handle_seq db" using law(2) by (simp add: same_files_def)
    ultimately show ?thesis
      using law(1,3) al entries_same_files [OF law(2), of acc]
      by (auto simp: x f shared_abs_def spec_shared_def spec_section_def allocated_by_def shared_room_def)
  next
    case False
    then have run: "run_section env chk acc sec (db, k) = (db_section env acc sec db, k)" and no: "allocated_by sec = {}"
      by (cases sec; simp add: allocated_by_def)+
    from db_section_law [OF inv [unfolded x] ok r(1)] have law: "handle_inv env acc (db_section env acc sec db)"
      "entries acc (db_section env acc sec db) = spec_section sec (entries acc db)"
      "db_inodes (cn_db (dbh_conn (db_section env acc sec db))) = db_inodes (cn_db (dbh_conn db))"
      "handle_seq (db_section env acc sec db) \<le> handle_seq db + 1" by auto
    note keep = shared_inv_same_inodes [OF inv [unfolded x] law(1,3)]
    show ?thesis
      using law keep by (auto simp: x run no shared_abs_def spec_shared_def shared_room_def)
  qed
qed

interpretation secs: section_steps "run_section env chk acc" "section_ok (de_chrono env)" "shared_inv env acc" shared_room
    "shared_abs env acc" spec_shared "\<lambda>x y. numbers env x \<subseteq>\<^sub>m numbers env y" for env chk acc
  by unfold_locales ((rule run_section_law; assumption) | (erule map_le_trans; assumption) | simp)+

lemma shared_room_enough:
  assumes "handle_seq db + int n < 2 ^ 63" and "unat k + n \<le> 2 ^ 63"
  shows "n \<le> shared_room (db, k)"
proof -
  have "int n \<le> 2 ^ 63 - 1 - handle_seq db" using assms(1) by simp
  then have "n \<le> nat (2 ^ 63 - 1 - handle_seq db)" using nat_mono by fastforce
  then show ?thesis using assms(2) by (simp add: shared_room_def)
qed

lemma numbers_inj: "shared_inv env acc x \<Longrightarrow> inj_on (numbers env x) (dom (numbers env x))"
  by (rule inj_onI) (auto simp: shared_inv_def dest: mgr.num_inj)

text \<open>A number that was given out is found again.\<close>

lemma numbered_file:
  assumes "shared_inv env acc (db, k)"
  shows "get_file_id env n db = (Ok (Some f), db) \<longleftrightarrow> numbers env (db, k) f = Some n"
proof -
  have m: "db_ok (cn_db (dbh_conn db))" "inodes_cast (cn_db (dbh_conn db))" "sqlite_works env" "\<not> dbh_poisoned db"
    using assms by (auto simp: shared_inv_def mgr_inv_def conn_ok_def)
  show ?thesis
    using inode_file_inverse [OF m(1,2), of "file_id_str f" n] get_file_id_result [OF m(3,4), of n]
    by (cases f) (auto simp: mgr_num_def)
qed

text \<open>What the handlers see of a file is its entry.\<close>

lemma cached_file_entry:
  assumes "handle_inv env acc db"
  shows "map_option cf_is_directory (cached_file env acc db f) = map_option snd (entries acc db f)"
proof -
  have m: "meta_inv env acc (dbh_conn db)" and np: "\<not> dbh_poisoned db" using assms by (auto simp: handle_inv_def)
  show ?thesis
  proof (cases "handle_view acc db f")
    case None
    then show ?thesis using cached_file_None [OF assms None] by (simp add: entries_def)
  next
    case (Some v)
    with get_existing [OF m, of f] obtain x where x: "get_file_by_provider_id env acc f (dbh_conn db) = (Ok (Some x), dbh_conn db)"
      by auto
    have "cached_file env acc db f = Some (db_file_to_cached_file x)"
      using x np by (simp add: cached_file_def cache_get_def with_conn_def)
    moreover have "cf_is_directory (db_file_to_cached_file x) = f_is_folder x" by (simp add: db_file_to_cached_file_def)
    ultimately show ?thesis using found_kind [OF m x] Some by (simp add: entries_def view_kinds_def)
  qed
qed

text \<open>\<open>getattr\<close> on a numbered file misses it exactly when it has no entry.\<close>

lemma getattr_numbered:
  assumes "shared_inv env (fs_account_id fs) (shared st)" and "numbers env (shared st) f = Some n" and "n \<noteq> FUSE_ROOT_INODE"
  shows "fst (getattr env clock fs n st) = Err ENOENT \<longleftrightarrow> entries (fs_account_id fs) (fs_db st) f = None"
    and "entries (fs_account_id fs) (fs_db st) f = Some (s, True) \<Longrightarrow> fs_open io env fs n st = (Err EISDIR, st)"
proof -
  let ?acc = "fs_account_id fs"
  have h: "handle_inv env ?acc (fs_db st)" using assms(1) by (simp add: shared_inv_def shared_def)
  have id: "get_file_id env n (fs_db st) = (Ok (Some f), fs_db st)"
    using numbered_file [OF assms(1) [unfolded shared_def], of n f] assms(2) by (simp add: shared_def)
  have f: "fs_found (get_file_id env n) ENOENT st = (Ok f, st)"
    using fs_found_result [where m = "get_file_id env n" and e = ENOENT, OF id] by simp
  have c: "fs_found (cache_get env ?acc f) ENOENT st =
      (case cached_file env ?acc (fs_db st) f of Some v \<Rightarrow> (Ok v, st) | None \<Rightarrow> (Err ENOENT, st))"
    using cache_get_result [OF h] by (rule fs_found_result)
  have e: "map_option cf_is_directory (cached_file env ?acc (fs_db st) f) = map_option snd (entries ?acc (fs_db st) f)"
    by (rule cached_file_entry [OF h])
  have attr: "cached_file_to_attr ch v n \<noteq> Err ENOENT" for ch v by (simp add: cached_file_to_attr_def Let_def)
  show "fst (getattr env clock fs n st) = Err ENOENT \<longleftrightarrow> entries ?acc (fs_db st) f = None"
  proof (cases "cached_file env ?acc (fs_db st) f")
    case None
    then show ?thesis using f c e assms(3) by (simp add: getattr_def)
  next
    case (Some v)
    then obtain x where "entries ?acc (fs_db st) f = Some x" using e by (cases "entries ?acc (fs_db st) f") auto
    with Some show ?thesis using f c assms(3) attr [of "de_chrono env" v]
      by (cases "cached_file_to_attr (de_chrono env) v n") (auto simp: getattr_def liftS_def bindS_def)
  qed
  show "fs_open io env fs n st = (Err EISDIR, st)" if "entries ?acc (fs_db st) f = Some (s, True)"
    using f c e that by (cases "cached_file env ?acc (fs_db st) f") (simp_all add: fs_open_def)
qed

section \<open>Properties of the threads\<close>

text \<open>
  C18: What a mounted filesystem does to the database is a sequence of critical sections: every
  handler, on every path, runs only queries, allocations and the content cache's two records,
  reading and releasing an open file none at all, and the background synchroniser runs only
  its own queries and writes, and never touches the counter.
\<close>

theorem threads_run_sections:
  fixes env :: "'s db_env" and fs :: "'w CloudSyncFS" and st :: "('s, 'w) fs_state"
  assumes "\<forall>cc. fs_content_cache fs = Some cc \<longrightarrow> cc_account_id cc = fs_account_id fs"
  shows "within env chk (fs_account_id fs) handler_sections (shared st) (shared (snd (lookup env chk fs parent name st))) \<and>
    within env chk (fs_account_id fs) handler_sections (shared st) (shared (snd (getattr env clock fs ino st))) \<and>
    within env chk (fs_account_id fs) handler_sections (shared st) (shared (snd (readdir env chk fits fs ino offset st))) \<and>
    within env chk (fs_account_id fs) handler_sections (shared st) (shared (snd (fs_open io env fs ino st))) \<and>
    shared (snd (fs_read io fs fh offset sz st)) = shared st \<and> shared (snd (fs_release fh st)) = shared st \<and>
    (background_sync env prov (fs_account_id fs) n (fs_db st, w) = Some (db', w') \<longrightarrow>
       within env chk (fs_account_id fs) sync_sections (shared st) (db', fs_next_inode st))"
proof -
  let ?acc = "fs_account_id fs" and ?in = "\<lambda>y. within env chk (fs_account_id fs) handler_sections (shared st) y"
  have handler: "?in (shared (snd (m st)))" if "handles env chk ?acc (shared st) m" for m :: "(('s, 'w) fs_state, reply, errno) st"
    using preservesD [OF that within_refl surjective_pairing] .
  have "fs_content_cache fs = Some cc \<Longrightarrow> cc_account_id cc = ?acc" for cc using assms by simp
  note all = handler [OF handles_lookup] handler [OF handles_getattr] handler [OF handles_readdir]
    handler [OF handles_open [OF this]]
  have "within env chk ?acc sync_sections (shared st) (db', fs_next_inode st)"
    if "background_sync env prov ?acc n (fs_db st, w) = Some (db', w')"
    using syncs_background [OF that, of chk "fs_next_inode st"] by (simp add: shared_def)
  then show ?thesis using all
    by (simp add: fs_read_def fs_release_def shared_def split: option.split)
qed

theorem threads_run_sections_witness:
  "within sample_env True (AccountId ''acc'') handler_sections (sample_tree, 2)
     (shared (snd (fs_open plain_io sample_env sample_fs 2 sample_fs_state)))"
proof -
  have "\<forall>cc. fs_content_cache sample_fs = Some cc \<longrightarrow> cc_account_id cc = fs_account_id sample_fs"
    by (simp add: sample_cache_def)
  note threads_run_sections [OF this, where env = sample_env and chk = True and st = sample_fs_state and io = plain_io and ino = 2]
  from this [THEN conjunct2, THEN conjunct2, THEN conjunct2, THEN conjunct1] have "within sample_env True (fs_account_id sample_fs) handler_sections (shared sample_fs_state)
      (shared (snd (fs_open plain_io sample_env sample_fs 2 sample_fs_state)))" .
  then show ?thesis by (simp add: shared_def)
qed

text \<open>
  C4: Whatever critical sections the handlers and the synchroniser run, in whatever order, the
  shared handle and counter stay consistent; the files table says exactly what the sections in
  this order specify (a synchronisation keeps the state a download gave a file, queries and
  allocations change nothing); every inode given out stays with its file, an allocation numbers
  its file, and no two files share an inode.
\<close>

theorem interleaved_sections_refine:
  assumes inv: "shared_inv env acc (db, k)" and ok: "\<forall>sec \<in> set secs. section_ok (de_chrono env) sec"
    and room: "handle_seq db + int (length secs) < 2 ^ 63" "unat k + length secs \<le> 2 ^ 63"
    and run: "run_sections env chk acc secs (db, k) = (db', k')"
  shows "shared_inv env acc (db', k') \<and>
    entries acc db' = fold spec_section secs (entries acc db) \<and>
    numbers env (db, k) \<subseteq>\<^sub>m numbers env (db', k') \<and>
    dom (numbers env (db', k')) = dom (numbers env (db, k)) \<union> (\<Union>sec \<in> set secs. allocated_by sec) \<and>
    inj_on (numbers env (db', k')) (dom (numbers env (db', k')))"
proof -
  have r: "fold (run_section env chk acc) secs (db, k) = (db', k')" using run by (simp add: run_sections_def)
  from secs.steps_law [OF inv ok shared_room_enough [OF room], of chk]
  have "shared_inv env acc (db', k')" "numbers env (db, k) \<subseteq>\<^sub>m numbers env (db', k')"
    "shared_abs env acc (db', k') = fold spec_shared secs (shared_abs env acc (db, k))"
    unfolding r by auto
  then show ?thesis using numbers_inj [of env acc "(db', k')"] by (simp add: shared_abs_def fold_spec_shared)
qed

definition delete_f1 :: Change where
  "delete_f1 = \<lparr> ch_item = None, ch_file_id = FileId ''f1'', ch_deleted = True, ch_timestamp = 0 \<rparr>"

lemma sample_shared_inv: "shared_inv sample_env (AccountId ''acc'') (sample_tree, 2)"
  using sample_fs_inv by (simp add: shared_inv_def fs_inv_def)

lemma sample_entries:
  "entries (AccountId ''acc'') sample_tree f = (if f = FileId ''f1'' then Some (''pending'', False) else None)"
  by (cases f) (simp add: entries_def cloud_view_def sample_tree_def sample_conn_def sample_row_def sample_file_def row_meta_def file_params_def)

lemma sample_seq: "handle_seq sample_tree = 1"
  by (simp add: sample_tree_def sample_conn_def sample_db_def)

theorem interleaved_sections_refine_witness:
  "\<exists>db k n. run_sections sample_env True (AccountId ''acc'')
       [FindFile (FileId ''f1''), Allocate (FileId ''f1''), RecordState (FileId ''f1'') Syncing, ApplyChange delete_f1,
        RecordState (FileId ''f1'') Synced] (sample_tree, 2) = (db, k) \<and>
     shared_inv sample_env (AccountId ''acc'') (db, k) \<and> entries (AccountId ''acc'') db = Map.empty \<and>
     numbers sample_env (db, k) (FileId ''f1'') = Some n"
proof -
  let ?secs = "[FindFile (FileId ''f1''), Allocate (FileId ''f1''), RecordState (FileId ''f1'') Syncing, ApplyChange delete_f1,
        RecordState (FileId ''f1'') Synced]"
  obtain db k where run: "run_sections sample_env True (AccountId ''acc'') ?secs (sample_tree, 2) = (db, k)" by (rule prod.exhaust)
  have ok: "\<forall>sec \<in> set ?secs. section_ok (de_chrono sample_env) sec"
    by (simp add: section_ok_def change_stamps_ok_def delete_f1_def)
  have room: "handle_seq sample_tree + int (length ?secs) < 2 ^ 63" "unat (2 :: u64) + length ?secs \<le> 2 ^ 63"
    using sample_seq by simp_all
  from interleaved_sections_refine [OF sample_shared_inv ok room run]
  have "shared_inv sample_env (AccountId ''acc'') (db, k)"
    "entries (AccountId ''acc'') db = fold spec_section ?secs (entries (AccountId ''acc'') sample_tree)"
    "FileId ''f1'' \<in> dom (numbers sample_env (db, k))" by (auto simp: allocated_by_def)
  moreover have "fold spec_section ?secs (entries (AccountId ''acc'') sample_tree) = Map.empty"
    by (simp add: spec_section_def delete_f1_def sample_entries fun_eq_iff)
  ultimately show ?thesis using run by auto
qed

text \<open>
  C11: The inode a lookup answered with is not the root's, \<open>getattr\<close> on it confirms the attributes,
  and it stays good: after any critical sections of the handlers and the synchroniser it still
  stands for the same file, \<open>getattr\<close> answers \<open>ENOENT\<close> exactly when these sections deleted the
  file (and did not store it again), and opening it is refused with \<open>EISDIR\<close> when they made it a
  folder.
\<close>

theorem looked_up_inode_stays:
  assumes inv: "shared_inv env (fs_account_id fs) (shared st)" and "unat (fs_next_inode st) < 2 ^ 63"
    and "handle_view (fs_account_id fs) (fs_db st) (FileId ROOT_FILE_ID) = None"
    and found: "lookup env chk fs parent name st = (Ok (ReplyEntry ttl attr), st1)"
    and ok: "\<forall>sec \<in> set secs. section_ok (de_chrono env) sec"
    and room: "handle_seq (fs_db st1) + int (length secs) < 2 ^ 63" "unat (fs_next_inode st1) + length secs \<le> 2 ^ 63"
    and run: "shared st2 = run_sections env chk (fs_account_id fs) secs (shared st1)"
  shows "fa_ino attr \<noteq> FUSE_ROOT_INODE \<and> getattr env clock fs (fa_ino attr) st1 = (Ok (ReplyAttr ttl attr), st1) \<and>
    (\<exists>f. entries (fs_account_id fs) (fs_db st1) f \<noteq> None \<and>
    get_file_id env (fa_ino attr) (fs_db st2) = (Ok (Some f), fs_db st2) \<and>
    (let e = fold spec_section secs (entries (fs_account_id fs) (fs_db st1)) f in
      (fst (getattr env clock fs (fa_ino attr) st2) = Err ENOENT \<longleftrightarrow> e = None) \<and>
      (\<forall>s. e = Some (s, True) \<longrightarrow> fs_open io env fs (fa_ino attr) st2 = (Err EISDIR, st2))))"
proof -
  let ?acc = "fs_account_id fs"
  have "fs_inv env ?acc st" using inv by (simp add: shared_inv_def fs_inv_def shared_def)
  from lookup_answers [OF this assms(2-4), where clock = clock] obtain child where child: "fs_inv env ?acc st1"
    "fa_ino attr \<noteq> FUSE_ROOT_INODE" "getattr env clock fs (fa_ino attr) st1 = (Ok (ReplyAttr ttl attr), st1)"
    "get_file_id env (fa_ino attr) (fs_db st1) = (Ok (Some (cf_file_id child)), fs_db st1)"
    "cached_file env ?acc (fs_db st1) (cf_file_id child) = Some child" by blast
  let ?f = "cf_file_id child"
  have inv1: "shared_inv env ?acc (shared st1)" using child(1) inv by (simp add: shared_inv_def fs_inv_def shared_def)
  have e1: "entries ?acc (fs_db st1) ?f \<noteq> None"
    using cached_file_entry [of env ?acc "fs_db st1" ?f] child(1,5)
    by (cases "entries ?acc (fs_db st1) ?f") (simp_all add: fs_inv_def)
  have n1: "numbers env (shared st1) ?f = Some (fa_ino attr)"
    using numbered_file [OF inv1 [unfolded shared_def]] child(4) by (simp add: shared_def)
  have r: "fold (run_section env chk ?acc) secs (shared st1) = shared st2" using run by (simp add: run_sections_def)
  have "length secs \<le> shared_room (shared st1)" using shared_room_enough [OF room] by (simp add: shared_def)
  from secs.steps_law [OF inv1 ok this, of chk] have
    "shared_inv env ?acc (shared st2) \<and> numbers env (shared st1) \<subseteq>\<^sub>m numbers env (shared st2) \<and>
     shared_abs env ?acc (shared st2) = fold spec_shared secs (shared_abs env ?acc (shared st1))" unfolding r by simp
  then have law: "shared_inv env ?acc (shared st2)" "numbers env (shared st1) \<subseteq>\<^sub>m numbers env (shared st2)"
    "entries ?acc (fs_db st2) = fold spec_section secs (entries ?acc (fs_db st1))"
    by (simp_all add: shared_abs_def fold_spec_shared shared_def)
  have n2: "numbers env (shared st2) ?f = Some (fa_ino attr)" using n1 law(2) by (auto simp: map_le_def dom_def)
  have "get_file_id env (fa_ino attr) (fs_db st2) = (Ok (Some ?f), fs_db st2)"
    using numbered_file [OF law(1) [unfolded shared_def]] n2 by (simp add: shared_def)
  then show ?thesis
    using e1 getattr_numbered [OF law(1) n2 child(2)] law(3) child(2,3) by (intro conjI exI [of _ ?f]) (auto simp: Let_def)
qed

theorem looked_up_inode_stays_witness:
  "\<exists>attr st1 st2 f. lookup sample_env True sample_fs 1 ''a'' sample_fs_state = (Ok (ReplyEntry TTL attr), st1) \<and>
     shared st2 = run_sections sample_env True (AccountId ''acc'') [ApplyChange delete_f1] (shared st1) \<and>
     fst (getattr sample_env (\<lambda>w. (0, w)) sample_fs (fa_ino attr) st1) = Ok (ReplyAttr TTL attr) \<and>
     get_file_id sample_env (fa_ino attr) (fs_db st2) = (Ok (Some f), fs_db st2) \<and>
     fst (getattr sample_env (\<lambda>w. (0, w)) sample_fs (fa_ino attr) st2) = Err ENOENT"
proof -
  let ?acc = "AccountId ''acc''"
  obtain attr st1 where l: "lookup sample_env True sample_fs 1 ''a'' sample_fs_state = (Ok (ReplyEntry TTL attr), st1)"
    "same_files sample_tree (fs_db st1)" "unat (fs_next_inode st1) \<le> 3"
    by (rule sample_lookup)
  define st2 where "st2 = (case run_sections sample_env True ?acc [ApplyChange delete_f1] (shared st1) of
      (db, k) \<Rightarrow> st1\<lparr> fs_db := db, fs_next_inode := k \<rparr>)"
  have run: "shared st2 = run_sections sample_env True ?acc [ApplyChange delete_f1] (shared st1)"
    by (simp add: st2_def shared_def split: prod.splits)
  have inv: "shared_inv sample_env (fs_account_id sample_fs) (shared sample_fs_state)"
    using sample_shared_inv by (simp add: shared_def)
  have root: "handle_view (fs_account_id sample_fs) (fs_db sample_fs_state) (FileId ROOT_FILE_ID) = None"
    "unat (fs_next_inode sample_fs_state) < 2 ^ 63"
    using sample_not_root by simp_all
  have ok: "\<forall>sec \<in> set [ApplyChange delete_f1]. section_ok (de_chrono sample_env) sec"
    by (simp add: section_ok_def change_stamps_ok_def delete_f1_def)
  have room: "handle_seq (fs_db st1) + int (length [ApplyChange delete_f1]) < 2 ^ 63"
    "unat (fs_next_inode st1) + length [ApplyChange delete_f1] \<le> 2 ^ 63"
    using l(2,3) sample_seq by (simp_all add: same_files_def)
  have e: "entries ?acc (fs_db st1) = entries ?acc sample_tree" using entries_same_files [OF l(2)] .
  note res = looked_up_inode_stays [OF inv root(2,1) l(1) ok room, of st2 "\<lambda>w. (0, w)" plain_io, unfolded sample_fs_simps, OF run]
  from res [THEN conjunct2, THEN conjunct1]
  have g: "fst (getattr sample_env (\<lambda>w. (0, w)) sample_fs (fa_ino attr) st1) = Ok (ReplyAttr TTL attr)" by simp
  from res [THEN conjunct2, THEN conjunct2, unfolded Let_def] obtain f where
    f: "entries ?acc (fs_db st1) f \<noteq> None" "get_file_id sample_env (fa_ino attr) (fs_db st2) = (Ok (Some f), fs_db st2)"
    "fst (getattr sample_env (\<lambda>w. (0, w)) sample_fs (fa_ino attr) st2) = Err ENOENT \<longleftrightarrow>
      fold spec_section [ApplyChange delete_f1] (entries ?acc (fs_db st1)) f = None"
    by (elim exE conjE) (rule that)
  have "f = FileId ''f1''" using f(1) by (simp add: e sample_entries split: if_splits)
  then have "fst (getattr sample_env (\<lambda>w. (0, w)) sample_fs (fa_ino attr) st2) = Err ENOENT"
    using f(3) by (simp add: spec_section_def delete_f1_def)
  then show ?thesis using l(1) run f(2) g by blast
qed

end
