(* ===== verification/Daemon_Clients.thy ===== *)
theory Daemon_Clients
  imports Daemon
begin

text \<open>
  Several clients of the daemon at once. The server gives each connection a task of its own, and
  the tasks share one handler; a task holds the database's mutex only inside \<open>with_conn\<close> and
  sends to the channel after that. So the tasks interleave between these points: in a batch,
  between the lookups of two paths, and in a pinning, between the update and the send.
\<close>

section \<open>The handler in steps\<close>

text \<open>Where a task stands in \<open>handle\<close>.\<close>

datatype handler_pc =
    Start Request
  | InBatch "string list" "FileStatus list"
  | Sending DaemonAction
  | Replied "(Response, IpcErr) outcome"

fun handler_step :: "'s db_env \<Rightarrow> DaemonHandler \<Rightarrow> handler_pc \<times> 's daemon_state \<Rightarrow> handler_pc \<times> 's daemon_state" where
  "handler_step env h (Start (GetStatus path), st) =
     (case get_status_for_path env h path st of (r, st') \<Rightarrow> (Replied r, st'))"
| "handler_step env h (Start (GetStatusBatch paths), st) = (InBatch paths [], st)"
| "handler_step env h (Start (SetPinned path pinned), st) =
     (case resolve_and_lookup h path of
        Ok (account_id, cloud_path, _) \<Rightarrow>
          (case with_db (set_pinned_conn env account_id cloud_path pinned) (\<lambda>found.
              returnS (if found then RespOk else RespError (''file not found: '' @ path))) st of
             (r, st') \<Rightarrow> (if r = Ok RespOk \<and> pinned then Sending (Force account_id cloud_path) else Replied r, st'))
      | Err resp \<Rightarrow> (Replied (Ok resp), st)
      | Panicked \<Rightarrow> (Replied Panicked, st))"
| "handler_step env h (Start (SetCloudOnly path), st) =
     (case daemon_handle env h (SetCloudOnly path) st of (r, st') \<Rightarrow> (Replied r, st'))"
| "handler_step env h (Start (ForceSync path), st) =
     (case resolve_and_lookup h path of
        Ok (account_id, cloud_path, _) \<Rightarrow> (Sending (Force account_id cloud_path), st)
      | Err resp \<Rightarrow> (Replied (Ok resp), st)
      | Panicked \<Rightarrow> (Replied Panicked, st))"
| "handler_step env h (Start (PauseSync provider), st) =
     (Sending (Pause (Option.bind provider provider_from_slug)), st)"
| "handler_step env h (Start (ResumeSync provider), st) =
     (Sending (Resume (Option.bind provider provider_from_slug)), st)"
| "handler_step env h (InBatch [] statuses, st) = (Replied (Ok (RespStatusBatch statuses)), st)"
| "handler_step env h (InBatch (p # paths) statuses, st) =
     (case get_status_for_path env h p st of
        (Ok resp, st') \<Rightarrow> (InBatch paths (statuses @ [batch_entry p resp]), st')
      | (r, st') \<Rightarrow> (Replied r, st'))"
| "handler_step env h (Sending action, st) =
     (case send_action h action st of (_, st') \<Rightarrow> (Replied (Ok RespOk), st'))"
| "handler_step env h (Replied r, st) = (Replied r, st)"

lemma handler_step_replied [simp]: "(handler_step env h ^^ n) (Replied r, st) = (Replied r, st)"
  by (induction n) simp_all

text \<open>Without other clients the steps of a request are \<open>handle\<close>.\<close>

lemma batch_steps:
  "status_batch env h paths st = (r, st') \<Longrightarrow>
   (handler_step env h ^^ Suc (length paths)) (InBatch paths statuses, st) =
     (Replied (map_ok (\<lambda>xs. RespStatusBatch (statuses @ xs)) r), st')"
proof (induction paths arbitrary: st st' statuses r)
  case (Cons p paths)
  obtain r1 st1 where 1: "get_status_for_path env h p st = (r1, st1)" by fastforce
  have first: "(handler_step env h ^^ Suc (length (p # paths))) (InBatch (p # paths) statuses, st) =
      (handler_step env h ^^ Suc (length paths)) (handler_step env h (InBatch (p # paths) statuses, st))"
    by (simp only: list.size funpow_Suc_right [of "Suc (length paths)"] o_apply add_0_right add_Suc_right)
  show ?case
  proof (cases r1)
    case (Ok resp)
    obtain r2 st2 where 2: "status_batch env h paths st1 = (r2, st2)" by fastforce
    have "status_batch env h (p # paths) st = (map_ok (\<lambda>xs. batch_entry p resp # xs) r2, st2)"
      using 1 2 Ok by (cases r2) simp_all
    then have "r = map_ok (\<lambda>xs. batch_entry p resp # xs) r2" "st' = st2" using Cons.prems by simp_all
    moreover have "handler_step env h (InBatch (p # paths) statuses, st) = (InBatch paths (statuses @ [batch_entry p resp]), st1)"
      using 1 Ok by simp
    ultimately show ?thesis
      using first Cons.IH [OF 2, of "statuses @ [batch_entry p resp]"] by (cases r2) simp_all
  next
    case (Err e)
    then have "r = Err e" "st' = st1" using Cons.prems 1 by simp_all
    moreover have "handler_step env h (InBatch (p # paths) statuses, st) = (Replied (Err e), st1)" using 1 Err by simp
    ultimately show ?thesis using first by (simp only: handler_step_replied map_ok.simps)
  next
    case Panicked
    then have "r = Panicked" "st' = st1" using Cons.prems 1 by simp_all
    moreover have "handler_step env h (InBatch (p # paths) statuses, st) = (Replied Panicked, st1)" using 1 Panicked by simp
    ultimately show ?thesis using first by (simp only: handler_step_replied map_ok.simps)
  qed
qed simp

lemma send_action_Ok: "send_action h action st = (Ok (), snd (send_action h action st))"
  by (simp add: send_action_def)

lemma set_pinned_steps:
  assumes "daemon_handle env h (SetPinned path pinned) st = (r, st')"
  shows "(handler_step env h ^^ 2) (Start (SetPinned path pinned), st) = (Replied r, st')"
proof (cases "resolve_and_lookup h path")
  case (Ok v)
  obtain a p slug where v: "v = (a, p, slug)" by (cases v)
  let ?k = "\<lambda>found. if found then
      bindS (if pinned then send_action h (Force a p) else returnS ()) (\<lambda>_. returnS RespOk)
    else returnS (RespError (''file not found: '' @ path))"
  obtain x db where x: "with_conn (set_pinned_conn env a p pinned) (ds_db st) = (x, db)" by fastforce
  have h: "with_db (set_pinned_conn env a p pinned) ?k st = (r, st')"
    using assms Ok v by (simp add: resolving_def)
  show ?thesis
  proof (cases "x = Ok True \<and> pinned")
    case True
    then have "r = Ok RespOk" "st' = snd (send_action h (Force a p) (st\<lparr> ds_db := db \<rparr>))"
      using h x by (simp_all add: with_db_def bindS_Ok [OF send_action_Ok])
    then show ?thesis using Ok v x True by (simp add: numeral_2_eq_2 with_db_def split: prod.splits)
  next
    case False
    then show ?thesis using Ok v x h
      by (cases x) (auto simp: numeral_2_eq_2 with_db_def split: if_splits)
  qed
qed (use assms in \<open>simp_all add: numeral_2_eq_2 resolving_def\<close>)

fun request_steps :: "Request \<Rightarrow> nat" where
  "request_steps (GetStatus path) = 1"
| "request_steps (GetStatusBatch paths) = length paths + 2"
| "request_steps (SetCloudOnly path) = 1"
| "request_steps _ = 2"

lemma handler_steps_alone:
  assumes "daemon_handle env h req st = (r, st')"
  shows "(handler_step env h ^^ request_steps req) (Start req, st) = (Replied r, st')"
proof (cases req)
  case (GetStatusBatch paths)
  obtain r1 st1 where 1: "status_batch env h paths st = (r1, st1)" by fastforce
  then have "r = map_ok RespStatusBatch r1" "st' = st1" using assms GetStatusBatch by (cases r1; simp)+
  moreover have "(handler_step env h ^^ request_steps req) (Start req, st) =
      (handler_step env h ^^ Suc (length paths)) (InBatch paths [], st)"
    using GetStatusBatch by (simp add: funpow_Suc_right del: funpow.simps)
  ultimately show ?thesis using batch_steps [OF 1, of "[]"] by simp
next
  case (SetPinned path pinned)
  then show ?thesis using set_pinned_steps assms by simp
next
  case (ForceSync path)
  then show ?thesis using assms
    by (cases "resolve_and_lookup h path") (auto simp: numeral_2_eq_2 resolving_def bindS_def send_action_def)
qed (use assms in \<open>auto simp: numeral_2_eq_2 bindS_def send_action_def split: prod.splits\<close>)

section \<open>The specification in steps\<close>

fun spec_step :: "DaemonHandler \<Rightarrow> bool \<Rightarrow> handler_pc \<times> daemon_view \<Rightarrow> handler_pc \<times> daemon_view" where
  "spec_step h lv (Start (GetStatus path), m, sent) = (Replied (Ok (spec_status h m path)), m, sent)"
| "spec_step h lv (Start (GetStatusBatch paths), m, sent) = (InBatch paths [], m, sent)"
| "spec_step h lv (Start (SetPinned path pinned), m, sent) =
     (case resolve_and_lookup h path of
        Ok (a, p, _) \<Rightarrow> (case m (a, p) of
          Some s \<Rightarrow> (if pinned then Sending (Force a p) else Replied (Ok RespOk),
            m((a, p) \<mapsto> (if pinned then (if s = CloudOnly then Pending else s) else CloudOnly)), sent)
        | None \<Rightarrow> (Replied (Ok (RespError (''file not found: '' @ path))), m, sent))
      | Err resp \<Rightarrow> (Replied (Ok resp), m, sent)
      | Panicked \<Rightarrow> (Replied Panicked, m, sent))"
| "spec_step h lv (Start (SetCloudOnly path), m, sent) =
     (case spec_handle h lv (SetCloudOnly path) (m, sent) of (resp, v) \<Rightarrow> (Replied (Ok resp), v))"
| "spec_step h lv (Start (ForceSync path), m, sent) =
     (case resolve_and_lookup h path of
        Ok (a, p, _) \<Rightarrow> (Sending (Force a p), m, sent)
      | Err resp \<Rightarrow> (Replied (Ok resp), m, sent)
      | Panicked \<Rightarrow> (Replied Panicked, m, sent))"
| "spec_step h lv (Start (PauseSync provider), m, sent) = (Sending (Pause (Option.bind provider provider_from_slug)), m, sent)"
| "spec_step h lv (Start (ResumeSync provider), m, sent) = (Sending (Resume (Option.bind provider provider_from_slug)), m, sent)"
| "spec_step h lv (InBatch [] statuses, m, sent) = (Replied (Ok (RespStatusBatch statuses)), m, sent)"
| "spec_step h lv (InBatch (p # paths) statuses, m, sent) =
     (InBatch paths (statuses @ [batch_entry p (spec_status h m p)]), m, sent)"
| "spec_step h lv (Sending action, m, sent) = (Replied (Ok RespOk), m, if lv then sent @ [action] else sent)"
| "spec_step h lv (Replied r, m, sent) = (Replied r, m, sent)"

lemma handler_step_refines:
  assumes inv: "daemon_inv env st"
  shows "\<exists>st'. handler_step env h (pc, st) = (fst (spec_step h (live h st) (pc, daemon_view_of st)), st') \<and>
    daemon_view_of st' = snd (spec_step h (live h st) (pc, daemon_view_of st)) \<and> daemon_inv env st' \<and> live h st' = live h st"
proof -
  have status: "\<exists>st'. get_status_for_path env h path st = (Ok (spec_status h (fst (daemon_view_of st)) path), st') \<and>
      daemon_inv env st' \<and> daemon_view_of st' = daemon_view_of st \<and> live h st' = live h st" for path
    using status_refines [OF inv, of h path] by (auto simp: live_def)
  obtain m sent where v: "daemon_view_of st = (m, sent)" by fastforce
  show ?thesis
  proof (cases pc)
    case (Start req)
    show ?thesis
    proof (cases req)
      case (GetStatus path)
      then show ?thesis using status [of path] v Start by auto
    next
      case (SetPinned path pinned)
      show ?thesis
      proof (cases "resolve_and_lookup h path")
        case (Ok w)
        obtain a p slug where w: "w = (a, p, slug)" by (cases w)
        let ?c = "dbh_conn (ds_db st)"
        have "files_inv env ?c" using inv by (simp add: daemon_inv_def)
        from set_pinned_refines [OF this, of a p pinned] obtain c' where c':
          "set_pinned_conn env a p pinned ?c = (Ok (file_states (cn_db ?c) (a, p) \<noteq> None), c')" "files_inv env c'"
          "file_states (cn_db c') = (case file_states (cn_db ?c) (a, p) of None \<Rightarrow> file_states (cn_db ?c)
            | Some s \<Rightarrow> (file_states (cn_db ?c))((a, p) \<mapsto> (if pinned then (if s = CloudOnly then Pending else s) else CloudOnly)))"
          by blast
        from with_db_ok [where f = "set_pinned_conn env a p pinned", OF inv c'(1,2), of "\<lambda>found.
            returnS (if found then RespOk else RespError (''file not found: '' @ path))"]
        obtain st' where st': "with_db (set_pinned_conn env a p pinned) (\<lambda>found.
              returnS (if found then RespOk else RespError (''file not found: '' @ path))) st =
            (Ok (if file_states (cn_db ?c) (a, p) \<noteq> None then RespOk else RespError (''file not found: '' @ path)), st')"
          "daemon_inv env st'" "cn_db (dbh_conn (ds_db st')) = cn_db c'" "ds_actions st' = ds_actions st"
          "ds_receiver_open st' = ds_receiver_open st" by auto
        have m: "m = file_states (cn_db ?c)" "sent = ds_actions st" using v by (simp_all add: daemon_view_of_def)
        show ?thesis
          using st' c'(3) by (cases "m (a, p)") (auto simp: Start SetPinned Ok w m v daemon_view_of_def live_def)
      qed (use inv v Start SetPinned in auto)
    next
      case (SetCloudOnly path)
      from daemon_handle_spec [OF inv, of h "SetCloudOnly path"] show ?thesis
        using v Start SetCloudOnly by (auto simp: refines_def simp del: daemon_handle.simps spec_handle.simps split: prod.splits)
    next
      case (ForceSync path)
      then show ?thesis using inv v Start by (cases "resolve_and_lookup h path") auto
    qed (use inv v Start in auto)
  next
    case (InBatch paths statuses)
    then show ?thesis
    proof (cases paths)
      case (Cons p ps)
      then show ?thesis using status [of p] v InBatch by auto
    qed (use inv v InBatch in auto)
  next
    case (Sending action)
    then show ?thesis using send_action_refines [OF inv, of h action] v by auto
  qed (use inv v in auto)
qed

section \<open>Any number of clients\<close>

text \<open>
  The tasks by number. A task takes the next request of its client once it has replied to the
  last; at any moment the scheduler lets one task go a step.
\<close>

datatype task_event = Arrives nat Request | Goes nat

fun run_task ::
  "(handler_pc \<times> 'v \<Rightarrow> handler_pc \<times> 'v) \<Rightarrow> task_event \<Rightarrow> (nat \<Rightarrow> handler_pc) \<times> 'v \<Rightarrow> (nat \<Rightarrow> handler_pc) \<times> 'v" where
  "run_task step (Arrives i req) (pcs, v) = (case pcs i of Replied _ \<Rightarrow> (pcs(i := Start req), v) | _ \<Rightarrow> (pcs, v))"
| "run_task step (Goes i) (pcs, v) = (case step (pcs i, v) of (pc, v') \<Rightarrow> (pcs(i := pc), v'))"

definition no_failures :: "(nat \<Rightarrow> handler_pc) \<Rightarrow> bool" where
  "no_failures pcs \<longleftrightarrow> (\<forall>i r. pcs i = Replied r \<longrightarrow> (\<exists>resp. r = Ok resp))"

lemma spec_step_no_failure:
  assumes "spec_step h lv (pc, v) = (pc', v')" and "\<forall>r. pc = Replied r \<longrightarrow> (\<exists>resp. r = Ok resp)" and "pc' = Replied r"
  shows "\<exists>resp. r = Ok resp"
proof (cases "(h, lv, pc, v)" rule: spec_step.cases)
  case (3 _ _ path pinned m sent)
  then show ?thesis using assms by (cases "resolve_and_lookup h path") (auto split: option.splits if_splits)
next
  case (5 _ _ path m sent)
  then show ?thesis using assms by (cases "resolve_and_lookup h path") auto
qed (use assms in \<open>auto split: prod.splits\<close>)

lemma run_task_refines:
  assumes "daemon_inv env st" and "no_failures pcs" and "run_task (handler_step env h) ev (pcs, st) = (pcs', st')"
  shows "daemon_inv env st' \<and> live h st' = live h st \<and> no_failures pcs' \<and>
    run_task (spec_step h (live h st)) ev (pcs, daemon_view_of st) = (pcs', daemon_view_of st')"
proof (cases ev)
  case (Arrives i req)
  then show ?thesis using assms by (auto simp: no_failures_def split: handler_pc.splits if_splits)
next
  case (Goes i)
  obtain pc v where spec: "spec_step h (live h st) (pcs i, daemon_view_of st) = (pc, v)" by (rule prod.exhaust)
  from handler_step_refines [OF assms(1), of h "pcs i", unfolded spec fst_conv snd_conv] obtain st2 where
    st2: "handler_step env h (pcs i, st) = (pc, st2)" "daemon_view_of st2 = v" "daemon_inv env st2" "live h st2 = live h st"
    by blast
  then have st': "pcs' = pcs(i := pc)" "st2 = st'" using assms(3) Goes by simp_all
  have "\<exists>resp. r = Ok resp" if "pc = Replied r" for r
    by (rule spec_step_no_failure [OF spec _ that]) (use assms(2) in \<open>simp add: no_failures_def\<close>)
  then have "no_failures pcs'" using assms(2) by (simp add: no_failures_def st'(1))
  then show ?thesis using st' st2 spec Goes by simp
qed

section \<open>Properties\<close>

text \<open>
  C5: Any number of clients at once, with their tasks interleaved at every use of the database and
  the channel: the replies, the files table and the actions sent are those of the specification
  run in the same order, no request fails or panics, and a task that is left alone does what
  \<open>handle\<close> does.
\<close>

theorem concurrent_clients_refine:
  assumes "daemon_inv env st" and "no_failures pcs" and "fold (run_task (handler_step env h)) events (pcs, st) = (pcs', st')"
  shows "daemon_inv env st' \<and> no_failures pcs' \<and>
    fold (run_task (spec_step h (live h st))) events (pcs, daemon_view_of st) = (pcs', daemon_view_of st') \<and>
    (\<forall>req. (handler_step env h ^^ request_steps req) (Start req, st') =
      (case daemon_handle env h req st' of (r, st2) \<Rightarrow> (Replied r, st2)))"
proof -
  have "daemon_inv env st' \<and> no_failures pcs' \<and>
    fold (run_task (spec_step h (live h st))) events (pcs, daemon_view_of st) = (pcs', daemon_view_of st')"
    using assms
  proof (induction events arbitrary: pcs st)
    case (Cons ev events)
    obtain pcs1 st1 where 1: "run_task (handler_step env h) ev (pcs, st) = (pcs1, st1)" by (rule prod.exhaust)
    from run_task_refines [OF Cons.prems(1,2) 1] Cons.IH [of st1 pcs1] Cons.prems(3) 1 show ?case by simp
  qed simp
  moreover have "\<forall>req. (handler_step env h ^^ request_steps req) (Start req, st') =
      (case daemon_handle env h req st' of (r, st2) \<Rightarrow> (Replied r, st2))"
    using handler_steps_alone [of env h _ st'] by (auto split: prod.splits)
  ultimately show ?thesis by blast
qed

text \<open>A batch is no snapshot: another client's request changes the file between two lookups.\<close>

theorem concurrent_clients_refine_witness:
  "let p = ''/r/gdrive/docs/a'' in
   \<exists>pcs' st'. fold (run_task (handler_step sample_env sample_daemon))
       [Arrives 0 (GetStatusBatch [p, p]), Arrives 1 (SetCloudOnly p), Goes 0, Goes 0, Goes 1, Goes 0, Goes 0]
       (\<lambda>_. Replied (Ok RespOk), sample_daemon_state) = (pcs', st') \<and> pcs' 1 = Replied (Ok RespOk) \<and>
     pcs' 0 = Replied (Ok (RespStatusBatch
       [\<lparr> fst_path = p, fst_state = Pending, fst_provider = Some ''gdrive'' \<rparr>,
        \<lparr> fst_path = p, fst_state = CloudOnly, fst_provider = Some ''gdrive'' \<rparr>]))"
proof -
  let ?p = "''/r/gdrive/docs/a''"
  let ?events = "[Arrives 0 (GetStatusBatch [?p, ?p]), Arrives 1 (SetCloudOnly ?p), Goes 0, Goes 0, Goes 1, Goes 0, Goes 0]"
  obtain pcs' st' where run: "fold (run_task (handler_step sample_env sample_daemon)) ?events
      (\<lambda>_. Replied (Ok RespOk), sample_daemon_state) = (pcs', st')" by (rule prod.exhaust)
  have "no_failures (\<lambda>_. Replied (Ok RespOk))" by (simp add: no_failures_def)
  from concurrent_clients_refine [OF sample_daemon_ok(1) this run]
  have spec: "fold (run_task (spec_step sample_daemon True)) ?events (\<lambda>_. Replied (Ok RespOk), daemon_view_of sample_daemon_state) =
      (pcs', daemon_view_of st')" by simp
  have view: "daemon_view_of sample_daemon_state = (file_states sample_db, [])"
    by (simp add: daemon_view_of_def sample_daemon_state_def sample_conn_def)
  show ?thesis
    unfolding Let_def using run spec
    by (auto simp: view spec_set_def spec_status_def batch_entry_def)
qed

end
