(* ===== verification/Queue_Demo.thy ===== *)
theory Queue_Demo
  imports Sync_Queue Core_Display
begin

text \<open>
  The example program of \<open>cloudsync-sync\<close> (\<open>examples/queue_usage.rs\<close>): it fills a queue, lists
  it by priority and empties it. A run is the list of the lines it prints.
\<close>

section \<open>The program\<close>

definition check_mark :: string where
  "check_mark = utf8_bytes [0xE2, 0x9C, 0x93]"

definition newline_str :: string where
  "newline_str = [CHR 0x0A]"

text \<open>\<open>to_uppercase\<close> of an ASCII string, and the padding of \<open>{:>6}\<close>.\<close>

definition ascii_uppercase :: "string \<Rightarrow> string" where
  "ascii_uppercase = map (\<lambda>c. let n = of_char c :: nat in if 97 \<le> n \<and> n \<le> 122 then char_of (n - 32) else c)"

definition pad_left :: "nat \<Rightarrow> string \<Rightarrow> string" where
  "pad_left n s = replicate (n - length s) (CHR '' '') @ s"

definition bool_str :: "bool \<Rightarrow> string" where
  "bool_str b = (if b then ''true'' else ''false'')"

definition demo_operations :: "'w sys \<Rightarrow> 'w \<Rightarrow> SyncOperation list" where
  "demo_operations env w0 =
     (case account_id_new env w0 of (account_id, w1) \<Rightarrow>
      case sync_operation_new env account_id (FileId ''bg_file_1'') (cloud_path_new ''/background/file1.txt'')
        Download Low (Some 1024) w1 of (background, w2) \<Rightarrow>
      case download_normal_priority env account_id (FileId ''normal_file'') (cloud_path_new ''/documents/report.pdf'')
        (Some 5120) w2 of (normal, w3) \<Rightarrow>
      case download_high_priority env account_id (FileId ''urgent_file'') (cloud_path_new ''/important/presentation.pptx'')
        (Some 10240) w3 of (urgent, w4) \<Rightarrow>
      case upload_high_priority env account_id (FileId ''user_upload'') (cloud_path_new ''/photos/vacation.jpg'')
        (Some 2048) w4 of (upload, w5) \<Rightarrow>
        [background, normal, urgent, upload])"

definition listed_line :: "SyncOperation \<Rightarrow> string" where
  "listed_line operation = ''  - '' @ operation_type_str (op_type operation) @ '' '' @
     cloud_path_as_str (op_path operation) @ '' ('' @ file_id_str (op_file_id operation) @ '')''"

definition processed_line :: "nat \<Rightarrow> SyncOperation \<Rightarrow> string" where
  "processed_line nr operation = show_nat nr @ ''. ['' @
     pad_left 6 (ascii_uppercase (priority_str (op_priority operation))) @ ''] '' @
     ascii_uppercase (operation_type_str (op_type operation)) @ '' '' @ cloud_path_as_str (op_path operation) @
     '' - '' @ file_id_str (op_file_id operation)"

function process_queue :: "nat \<Rightarrow> SyncQueue \<Rightarrow> string list \<times> SyncQueue" where
  "process_queue nr q =
     (case queue_pop q of
        (Ok operation, q') \<Rightarrow> (case process_queue (nr + 1) q' of
          (lines, q'') \<Rightarrow> (processed_line nr operation # lines, q''))
      | (_, q') \<Rightarrow> ([], q'))"
  by pat_completeness auto
termination
  by (relation "measure (\<lambda>(nr, q). length q)") (auto dest!: sym [THEN queue_pop_length])

declare process_queue.simps [simp del]

definition queue_usage :: "'w sys \<Rightarrow> 'w \<Rightarrow> string list" where
  "queue_usage env w =
     (let queue = fold queue_push (demo_operations env w) queue_new in
      case process_queue 1 queue of (processed, rest) \<Rightarrow>
        [''=== CloudSync Priority Queue Demo ==='' @ newline_str,
         ''Adding operations to queue...'',
         ''  '' @ check_mark @ '' Added low priority background download'',
         ''  '' @ check_mark @ '' Added normal priority download'',
         ''  '' @ check_mark @ '' Added high priority download (user-initiated)'',
         ''  '' @ check_mark @ '' Added high priority upload'',
         newline_str @ ''Queue status:'',
         ''  Total operations: '' @ show_nat (queue_len queue),
         ''  Is empty: '' @ bool_str (queue_is_empty queue) @ newline_str,
         ''High priority operations:''] @ map listed_line (queue_list_by_priority High queue) @
        [newline_str @ ''Normal priority operations:''] @ map listed_line (queue_list_by_priority Normal queue) @
        [newline_str @ ''Low priority operations:''] @ map listed_line (queue_list_by_priority Low queue) @
        [newline_str @ ''=== Processing queue in priority order ==='' @ newline_str] @ processed @
        [newline_str @ check_mark @ '' All operations processed!'',
         ''Queue is empty: '' @ bool_str (queue_is_empty rest)])"

section \<open>What it prints\<close>

text \<open>\<open>process_queue\<close> is a drain: one line per operation, in the order of the pops.\<close>

lemma process_queue_drains:
  "process_queue n q = (case pops (length q) q of (xs, r) \<Rightarrow> (map2 processed_line [n..<n + length xs] xs, r))"
proof (induction n q rule: process_queue.induct)
  case (1 n q)
  show ?case
  proof (cases "heap_pop queued_cmp q")
    case None
    then have "q = []" by simp
    with None show ?thesis by (simp add: process_queue.simps [of n "[]"] queue_pop_def)
  next
    case (Some p)
    obtain x q' where p: "p = (x, q')" by fastforce
    then have q: "queue_pop q = (Ok x, q')" and len: "length q = Suc (length q')"
      using Some heap_pop_length by (auto simp: queue_pop_def)
    obtain xs r where xs: "pops (length q') q' = (xs, r)" by fastforce
    show ?thesis
      using "1.IH" [OF q [symmetric]] xs Some p q
      by (simp add: process_queue.simps [of n q] len upt_rec [of n])
  qed
qed

text \<open>The four operations, whatever the identifiers and the times are.\<close>

lemma demo_operations_fields:
  "\<exists>bg nm ur up. demo_operations env w = [bg, nm, ur, up] \<and>
     map op_priority [bg, nm, ur, up] = [Low, Normal, High, High] \<and>
     map op_type [bg, nm, ur, up] = [Download, Download, Download, Upload] \<and>
     map op_file_id [bg, nm, ur, up] = map FileId [''bg_file_1'', ''normal_file'', ''urgent_file'', ''user_upload''] \<and>
     map op_path [bg, nm, ur, up] = map CloudPath [''/background/file1.txt'', ''/documents/report.pdf'',
       ''/important/presentation.pptx'', ''/photos/vacation.jpg'']"
  by (simp add: demo_operations_def sync_operation_new_def download_normal_priority_def download_high_priority_def
      upload_high_priority_def cloud_path_new_def starts_with_def replace_char_def split: prod.splits)

lemma demo_queue:
  assumes "map op_priority [bg, nm, ur, up] = [Low, Normal, High, High]" and "op_created_at ur < op_created_at up"
  shows "fold queue_push [bg, nm, ur, up] queue_new = [ur, up, nm, bg] \<and>
    pops 4 [ur, up, nm, bg] = ([ur, up, nm, bg], [])"
  using assms
  by (simp add: queue_push_def queue_new_def heap_eval Let_def queued_cmp_def cmp_ord_def less_SyncPriority_def eval_nat_numeral)

lemma demo_strings:
  "show_nat 1 = ''1''" "show_nat 2 = ''2''" "show_nat 3 = ''3''" "show_nat 4 = ''4''"
  "pad_left 6 (ascii_uppercase ''high'') = ''  HIGH''" "pad_left 6 (ascii_uppercase ''normal'') = ''NORMAL''"
  "pad_left 6 (ascii_uppercase ''low'') = ''   LOW''" "ascii_uppercase ''download'' = ''DOWNLOAD''"
  "ascii_uppercase ''upload'' = ''UPLOAD''" "show_nat (Suc (Suc (Suc (Suc 0)))) = ''4''"
  by code_simp+

text \<open>
  The whole output, as long as the clock went on between the two urgent operations: listed by
  priority, processed highest priority first and then oldest first, and nothing left.
\<close>

lemma queue_usage_output:
  assumes "op_created_at (demo_operations env w ! 2) < op_created_at (demo_operations env w ! 3)"
  shows "drop 7 (queue_usage env w) =
    [''  Total operations: 4'', ''  Is empty: false'' @ newline_str,
     ''High priority operations:'',
     ''  - download /important/presentation.pptx (urgent_file)'',
     ''  - upload /photos/vacation.jpg (user_upload)'',
     newline_str @ ''Normal priority operations:'',
     ''  - download /documents/report.pdf (normal_file)'',
     newline_str @ ''Low priority operations:'',
     ''  - download /background/file1.txt (bg_file_1)'',
     newline_str @ ''=== Processing queue in priority order ==='' @ newline_str,
     ''1. [  HIGH] DOWNLOAD /important/presentation.pptx - urgent_file'',
     ''2. [  HIGH] UPLOAD /photos/vacation.jpg - user_upload'',
     ''3. [NORMAL] DOWNLOAD /documents/report.pdf - normal_file'',
     ''4. [   LOW] DOWNLOAD /background/file1.txt - bg_file_1'',
     newline_str @ check_mark @ '' All operations processed!'',
     ''Queue is empty: true'']"
proof -
  obtain bg nm ur up where ops: "demo_operations env w = [bg, nm, ur, up]"
    and f: "map op_priority [bg, nm, ur, up] = [Low, Normal, High, High]"
     "map op_type [bg, nm, ur, up] = [Download, Download, Download, Upload]"
     "map op_file_id [bg, nm, ur, up] = map FileId [''bg_file_1'', ''normal_file'', ''urgent_file'', ''user_upload'']"
     "map op_path [bg, nm, ur, up] = map CloudPath [''/background/file1.txt'', ''/documents/report.pdf'',
       ''/important/presentation.pptx'', ''/photos/vacation.jpg'']"
    using demo_operations_fields [of env w] by (elim exE conjE) (rule that)
  have q: "fold queue_push [bg, nm, ur, up] queue_new = [ur, up, nm, bg]" "pops 4 [ur, up, nm, bg] = ([ur, up, nm, bg], [])"
    using demo_queue [OF f(1)] assms by (simp_all add: ops)
  have proc: "process_queue 1 [ur, up, nm, bg] =
      ([processed_line 1 ur, processed_line 2 up, processed_line 3 nm, processed_line 4 bg], [])"
    using process_queue_drains [of 1 "[ur, up, nm, bg]"] q(2) by (simp add: upt_rec numeral_eq_Suc)
  have listed: "map listed_line [ur, up, nm, bg] = [''  - download /important/presentation.pptx (urgent_file)'',
     ''  - upload /photos/vacation.jpg (user_upload)'', ''  - download /documents/report.pdf (normal_file)'',
     ''  - download /background/file1.txt (bg_file_1)'']"
    using f(2-4) by (simp add: listed_line_def)
  have done': "processed_line 1 ur = ''1. [  HIGH] DOWNLOAD /important/presentation.pptx - urgent_file''"
    "processed_line 2 up = ''2. [  HIGH] UPLOAD /photos/vacation.jpg - user_upload''"
    "processed_line 3 nm = ''3. [NORMAL] DOWNLOAD /documents/report.pdf - normal_file''"
    "processed_line 4 bg = ''4. [   LOW] DOWNLOAD /background/file1.txt - bg_file_1''"
    using f by (simp_all only: processed_line_def list.map list.inject operation_type_str.simps priority_str.simps demo_strings
      cloud_path_as_str.simps file_id_str.simps append_Cons append_Nil)
  show ?thesis
    unfolding queue_usage_def ops q(1) Let_def proc prod.case done'
    using f(1) listed by (simp add: queue_list_by_priority_def queue_len_def queue_is_empty_def demo_strings bool_str_def)
qed

end
