(* ===== verification/Db_Demo.thy ===== *)
theory Db_Demo
  imports Vfs_Metadata Queue_Demo
begin

text \<open>
  The example programs of \<open>cloudsync-db\<close> (\<open>examples/file_crud_demo.rs\<close> and
  \<open>examples/account_crud_demo.rs\<close>). A run goes on a database handle and collects the lines it
  prints. What the programs delete before they start leaves \<open>store\<close> on the disk.
\<close>

section \<open>Printing and calling\<close>

type_synonym 's demo = "'s Database \<times> string list"

definition println :: "string \<Rightarrow> ('s demo, unit, DbError) st" where
  "println line = (\<lambda>(db, printed). (Ok (), (db, printed @ [line])))"

definition println_all :: "string list \<Rightarrow> ('s demo, unit, DbError) st" where
  "println_all lines = (\<lambda>(db, printed). (Ok (), (db, printed @ lines)))"

definition on_handle :: "('s conn, 'a, DbError) st \<Rightarrow> ('s demo, 'a, DbError) st" where
  "on_handle m = on_fst (with_conn m)"

text \<open>A call whose result is matched instead of passed on.\<close>

definition matched :: "('s, 'a, 'e) st \<Rightarrow> ('s, ('a, 'e) outcome, 'e) st" where
  "matched m s = (case m s of (Panicked, s') \<Rightarrow> (Panicked, s') | (r, s') \<Rightarrow> (Ok r, s'))"

text \<open>A reading of the clock or the identifiers, inside a closure and outside.\<close>

definition sys_conn :: "('s \<Rightarrow> 'a \<times> 's) \<Rightarrow> ('s conn, 'a, DbError) st" where
  "sys_conn f c = (case f (cn_sys c) of (x, s) \<Rightarrow> (Ok x, c\<lparr> cn_sys := s \<rparr>))"

definition sys_demo :: "('s \<Rightarrow> 'a \<times> 's) \<Rightarrow> ('s demo, 'a, DbError) st" where
  "sys_demo f = (\<lambda>(db, printed). case f (cn_sys (dbh_conn db)) of
     (x, s) \<Rightarrow> (Ok x, (db\<lparr> dbh_conn := (dbh_conn db)\<lparr> cn_sys := s \<rparr> \<rparr>, printed)))"

definition show_int :: "int \<Rightarrow> string" where
  "show_int i = (if i < 0 then ''-'' @ show_nat (nat (- i)) else show_nat (nat i))"

definition cross_mark :: string where
  "cross_mark = utf8_bytes [0xE2, 0x9C, 0x97]"

definition duplicate_line :: "('a, DbError) outcome \<Rightarrow> string" where
  "duplicate_line duplicate_result = (case duplicate_result of
     Err e \<Rightarrow> check_mark @ '' Duplicate correctly rejected: '' @ db_error_str e
   | _ \<Rightarrow> cross_mark @ '' Duplicate was not rejected (this shouldn'' @ [CHR 0x27] @ ''t happen!)'')"

text \<open>\<open>File::new\<close> with \<open>Utc::now()\<close> as the time of its last argument.\<close>

definition demo_file ::
  "'s sys \<Rightarrow> AccountId \<Rightarrow> string \<Rightarrow> string \<Rightarrow> string \<Rightarrow> u64 option \<Rightarrow> string option \<Rightarrow> bool \<Rightarrow> 's \<Rightarrow> File \<times> 's" where
  "demo_file sys account_id fid path name sz hash is_folder s =
     (case utc_now sys s of (modified, s1) \<Rightarrow>
        file_new sys account_id (FileId fid) (cloud_path_new path) name sz hash is_folder modified s1)"

lemma println_app [simp]:
  "println line (db, printed) = (Ok (), (db, printed @ [line]))"
  "println_all lines (db, printed) = (Ok (), (db, printed @ lines))"
  by (simp_all add: println_def println_all_def)

section \<open>The files\<close>

definition file_demo_setup :: "'s db_env \<Rightarrow> ('s demo, AccountId, DbError) st" where
  "file_demo_setup env =
     bindS (println_all [''--- Setting up test account ---'']) (\<lambda>_.
     bindS (sys_demo (account_new (de_sys env) GoogleDrive ''demo@example.com'' ''gdrive_token_123''
       (Some ''refresh_token_456'') None)) (\<lambda>account.
     bindS (on_handle (create_account env account)) (\<lambda>account_id.
     bindS (println (check_mark @ '' Created test account: '' @ acc_email account @ '' ('' @ account_id_str account_id @ '')'' @
       newline_str)) (\<lambda>_.
     returnS account_id))))"

definition created_line :: "string \<Rightarrow> File \<Rightarrow> int \<Rightarrow> string" where
  "created_line what file i = check_mark @ '' Created '' @ what @ '': '' @ f_name file @ '' (ID: '' @ show_int i @ '')''"

definition file_demo_create :: "'s db_env \<Rightarrow> AccountId \<Rightarrow> ('s demo, int \<times> int \<times> File \<times> int, DbError) st" where
  "file_demo_create env account_id =
     bindS (println ''--- CREATE Operations ---'') (\<lambda>_.
     bindS (sys_demo (demo_file (de_sys env) account_id ''gdrive_file_abc123'' ''/Documents/report.pdf'' ''report.pdf''
       (Some (1024 * 1024)) (Some ''sha256:abc123hash'') False)) (\<lambda>file1.
     bindS (sys_demo (demo_file (de_sys env) account_id ''gdrive_file_def456'' ''/Documents/presentation.pptx'' ''presentation.pptx''
       (Some (5 * 1024 * 1024)) (Some ''sha256:def456hash'') False)) (\<lambda>file2.
     bindS (sys_demo (demo_file (de_sys env) account_id ''gdrive_folder_789'' ''/Photos'' ''Photos'' None None True)) (\<lambda>folder1.
     bindS (sys_demo (demo_file (de_sys env) account_id ''gdrive_file_xyz999'' ''/Photos/vacation.jpg'' ''vacation.jpg''
       (Some (3 * 1024 * 1024)) (Some ''sha256:xyz999hash'') False)) (\<lambda>file3.
     bindS (on_handle (create_file env file1)) (\<lambda>file1_id.
     bindS (println (created_line ''file 1'' file1 file1_id)) (\<lambda>_.
     bindS (on_handle (create_file env file2)) (\<lambda>file2_id.
     bindS (println (created_line ''file 2'' file2 file2_id)) (\<lambda>_.
     bindS (on_handle (create_file env folder1)) (\<lambda>folder1_id.
     bindS (println (created_line ''folder'' folder1 folder1_id)) (\<lambda>_.
     bindS (on_handle (create_file env file3)) (\<lambda>file3_id.
     bindS (println (created_line ''file 3'' file3 file3_id)) (\<lambda>_.
     bindS (println (newline_str @ ''Testing duplicate detection...'')) (\<lambda>_.
     bindS (matched (on_handle (bindS (sys_conn (demo_file (de_sys env) account_id ''gdrive_file_abc123'' ''/Different/path.pdf''
       ''different.pdf'' (Some 2048) None False)) (create_file env)))) (\<lambda>duplicate_result.
     bindS (println (duplicate_line duplicate_result)) (\<lambda>_.
     returnS (file1_id, file2_id, file3, file3_id)))))))))))))))))"

definition listed_file :: "nat \<Rightarrow> File \<Rightarrow> string" where
  "listed_file i file = ''  '' @ show_nat (i + 1) @ ''. '' @ cloud_path_as_str (f_path file) @ '' - '' @
     (if f_is_folder file then ''Folder'' else ''File'') @ '' | '' @
     (case f_size file of Some n \<Rightarrow> show_nat (unat n) @ '' bytes'' | None \<Rightarrow> ''N/A'') @ '' | State: '' @
     file_state_icon (f_state file) @ '' '' @ file_state_description (f_state file)"

definition file_demo_read :: "'s db_env \<Rightarrow> AccountId \<Rightarrow> int \<Rightarrow> ('s demo, unit, DbError) st" where
  "file_demo_read env account_id file1_id =
     bindS (println (newline_str @ ''--- READ Operations ---'')) (\<lambda>_.
     bindS (on_handle (list_files env account_id None)) (\<lambda>all_files.
     bindS (println (''Total files for account: '' @ show_nat (length all_files))) (\<lambda>_.
     bindS (println_all (map (\<lambda>(i, file). listed_file i file) (enumerate 0 all_files))) (\<lambda>_.
     bindS (println (newline_str @ ''Fetching file by ID: '' @ show_int file1_id)) (\<lambda>_.
     bindS (on_handle (get_file_by_id env file1_id)) (\<lambda>retrieved.
     bindS (println_all (case retrieved of
         Some file \<Rightarrow>
           [check_mark @ '' Found file:'', ''  Name: '' @ f_name file, ''  Path: '' @ cloud_path_as_str (f_path file),
            ''  Size: '' @ show_nat (unat (case f_size file of Some n \<Rightarrow> n | None \<Rightarrow> 0)) @ '' bytes'',
            ''  Hash: '' @ (case f_content_hash file of Some hash \<Rightarrow> hash | None \<Rightarrow> ''None''),
            ''  State: '' @ file_state_icon (f_state file) @ '' '' @ file_state_description (f_state file)]
       | None \<Rightarrow> [cross_mark @ '' File not found''])) (\<lambda>_.
     bindS (println (newline_str @ ''Fetching file by provider ID: gdrive_file_def456'')) (\<lambda>_.
     bindS (on_handle (get_file_by_provider_id env account_id (FileId ''gdrive_file_def456''))) (\<lambda>by_provider.
     println (case by_provider of
         Some file \<Rightarrow> check_mark @ '' Found file: '' @ f_name file @ '' ('' @ cloud_path_as_str (f_path file) @ '')''
       | None \<Rightarrow> cross_mark @ '' File not found''))))))))))"

text \<open>\<open>rfc3339\<close> formats an instant.\<close>

definition file_demo_update :: "(datetime \<Rightarrow> string) \<Rightarrow> 's db_env \<Rightarrow> int \<Rightarrow> int \<Rightarrow> ('s demo, unit, DbError) st" where
  "file_demo_update rfc3339 env file1_id file2_id =
     bindS (println (newline_str @ ''--- UPDATE Operations ---'')) (\<lambda>_.
     bindS (bindS (on_handle (get_file_by_id env file1_id)) (\<lambda>x. liftS (unwrap x))) (\<lambda>file_to_sync.
     bindS (println (''Original state: '' @ file_state_icon (f_state file_to_sync) @ '' '' @
       file_state_description (f_state file_to_sync))) (\<lambda>_.
     bindS (returnS (file_to_sync\<lparr> f_state := Syncing \<rparr>)) (\<lambda>file_to_sync.
     bindS (on_handle (update_file env file_to_sync)) (\<lambda>_.
     bindS (println (check_mark @ '' Updated to Syncing state'')) (\<lambda>_.
     bindS (sys_demo (utc_now (de_sys env))) (\<lambda>now.
     bindS (on_handle (update_file env (file_to_sync\<lparr> f_state := Synced, f_synced_at := Some now \<rparr>))) (\<lambda>_.
     bindS (println (check_mark @ '' Updated to Synced state with synced_at timestamp'')) (\<lambda>_.
     bindS (bindS (on_handle (get_file_by_id env file1_id)) (\<lambda>x. liftS (unwrap x))) (\<lambda>synced_file.
     bindS (println (''New state: '' @ file_state_icon (f_state synced_file) @ '' '' @
       file_state_description (f_state synced_file))) (\<lambda>_.
     bindS (println (''Synced at: '' @ (case f_synced_at synced_file of Some t \<Rightarrow> rfc3339 t | None \<Rightarrow> ''Never''))) (\<lambda>_.
     bindS (println (newline_str @ ''Simulating sync error on file 2...'')) (\<lambda>_.
     bindS (bindS (on_handle (get_file_by_id env file2_id)) (\<lambda>x. liftS (unwrap x))) (\<lambda>file_with_error.
     bindS (on_handle (update_file env (file_with_error\<lparr> f_state := Error \<rparr>))) (\<lambda>_.
     println (check_mark @ '' File 2 marked as Error state''))))))))))))))))"

text \<open>One of the three listings by state.\<close>

definition demo_listing :: "'s db_env \<Rightarrow> AccountId \<Rightarrow> string \<Rightarrow> FileState \<Rightarrow> ('s demo, unit, DbError) st" where
  "demo_listing env account_id title state =
     bindS (println title) (\<lambda>_.
     bindS (on_handle (list_files env account_id (Some state))) (\<lambda>files.
     bindS (println (''  Count: '' @ show_nat (length files))) (\<lambda>_.
     println_all (map (\<lambda>file. ''    - '' @ file_state_icon (f_state file) @ '' '' @ f_name file) files))))"

definition file_demo_filter :: "'s db_env \<Rightarrow> AccountId \<Rightarrow> ('s demo, unit, DbError) st" where
  "file_demo_filter env account_id =
     bindS (println (newline_str @ ''--- Filtering by State ---'')) (\<lambda>_.
     bindS (demo_listing env account_id ''Files in Synced state:'' Synced) (\<lambda>_.
     bindS (demo_listing env account_id (newline_str @ ''Files in Error state:'') Error) (\<lambda>_.
     demo_listing env account_id (newline_str @ ''Files in Pending state:'') Pending)))"

definition file_demo_delete :: "'s db_env \<Rightarrow> AccountId \<Rightarrow> File \<Rightarrow> int \<Rightarrow> ('s demo, unit, DbError) st" where
  "file_demo_delete env account_id file3 file3_id =
     bindS (println (newline_str @ ''--- DELETE Operations ---'')) (\<lambda>_.
     bindS (println (''Deleting file: '' @ f_name file3 @ '' (ID: '' @ show_int file3_id @ '')'')) (\<lambda>_.
     bindS (on_handle (delete_file env file3_id)) (\<lambda>deleted.
     bindS (println (check_mark @ '' File deleted: '' @ bool_str deleted)) (\<lambda>_.
     bindS (on_handle (get_file_by_id env file3_id)) (\<lambda>deleted_check.
     bindS (println (check_mark @ '' Verification - file exists: '' @ bool_str (deleted_check \<noteq> None))) (\<lambda>_.
     bindS (println (newline_str @ ''Deleting all remaining files for the account...'')) (\<lambda>_.
     bindS (on_handle (list_files env account_id None)) (\<lambda>remaining_before.
     bindS (println (''Files before deletion: '' @ show_nat (length remaining_before))) (\<lambda>_.
     bindS (on_handle (delete_files_by_account env account_id)) (\<lambda>deleted_count.
     bindS (println (check_mark @ '' Deleted '' @ show_nat deleted_count @ '' files'')) (\<lambda>_.
     bindS (on_handle (list_files env account_id None)) (\<lambda>remaining_after.
     println (''Files after deletion: '' @ show_nat (length remaining_after))))))))))))))"

definition file_demo_cascade :: "'s db_env \<Rightarrow> AccountId \<Rightarrow> ('s demo, unit, DbError) st" where
  "file_demo_cascade env account_id =
     bindS (println (newline_str @ ''--- CASCADE DELETE Demo ---'')) (\<lambda>_.
     bindS (println ''Creating new files for cascade delete demonstration...'') (\<lambda>_.
     bindS (sys_demo (demo_file (de_sys env) account_id ''cascade_file_1'' ''/test_a.txt'' ''test_a.txt'' (Some 100) None False)) (\<lambda>file_a.
     bindS (sys_demo (demo_file (de_sys env) account_id ''cascade_file_2'' ''/test_b.txt'' ''test_b.txt'' (Some 200) None False)) (\<lambda>file_b.
     bindS (on_handle (create_file env file_a)) (\<lambda>_.
     bindS (on_handle (create_file env file_b)) (\<lambda>_.
     bindS (println (check_mark @ '' Created 2 files for cascade test'')) (\<lambda>_.
     bindS (on_handle (list_files env account_id None)) (\<lambda>files_before.
     bindS (println (''Files before account deletion: '' @ show_nat (length files_before))) (\<lambda>_.
     bindS (println (newline_str @ ''Deleting account (should cascade delete all files)...'')) (\<lambda>_.
     bindS (on_handle (delete_account env account_id)) (\<lambda>_.
     bindS (println (check_mark @ '' Account deleted'')) (\<lambda>_.
     bindS (on_handle (list_files env account_id None)) (\<lambda>files_after.
     println (check_mark @ '' Files after account deletion: '' @ show_nat (length files_after)))))))))))))))"

text \<open>The whole program; \<open>accounts_sql\<close> and \<open>files_sql\<close> are the texts of the two migrations.\<close>

definition file_demo_body :: "(datetime \<Rightarrow> string) \<Rightarrow> 's db_env \<Rightarrow> ('s demo, unit, DbError) st" where
  "file_demo_body rfc3339 env =
     bindS (println (check_mark @ '' Database created and migrations applied'' @ newline_str)) (\<lambda>_.
     bindS (file_demo_setup env) (\<lambda>account_id.
     bindS (file_demo_create env account_id) (\<lambda>(file1_id, file2_id, file3, file3_id).
     bindS (file_demo_read env account_id file1_id) (\<lambda>_.
     bindS (file_demo_update rfc3339 env file1_id file2_id) (\<lambda>_.
     bindS (file_demo_filter env account_id) (\<lambda>_.
     bindS (file_demo_delete env account_id file3 file3_id) (\<lambda>_.
     bindS (file_demo_cascade env account_id) (\<lambda>_.
     println_all [newline_str @ ''=== Demo Complete ==='', newline_str @ ''To inspect the database directly, run:'',
       ''  sqlite3 test_files.db'', ''  sqlite> SELECT id, name, path, state, is_folder FROM files ORDER BY path;'',
       newline_str @ ''To clean up:'', ''  rm test_files.db'']))))))))"

definition file_crud_demo ::
  "(datetime \<Rightarrow> string) \<Rightarrow> 's db_env \<Rightarrow> string \<Rightarrow> string \<Rightarrow> (string \<Rightarrow> database option) \<Rightarrow> 's \<Rightarrow>
   (unit, DbError) outcome \<times> string list" where
  "file_crud_demo rfc3339 env accounts_sql files_sql store s =
     (let printed = [''=== CloudSync File CRUD Demo ==='' @ newline_str, ''Creating database at: test_files.db'']
      in case database_open env ''test_files.db''
          [\<lparr> mg_version = 1, mg_description = ''Create accounts table'', mg_sql = accounts_sql \<rparr>,
           \<lparr> mg_version = 2, mg_description = ''Create files table'', mg_sql = files_sql \<rparr>] store s of
        Ok db \<Rightarrow> (case file_demo_body rfc3339 env (db, printed) of (r, (_, printed)) \<Rightarrow> (r, printed))
      | Err e \<Rightarrow> (Err e, printed)
      | Panicked \<Rightarrow> (Panicked, printed))"

section \<open>The accounts\<close>

text \<open>
  The slice \<open>&token[..20]\<close> panics within a character. \<open>later\<close> adds whole hours to an
  instant, \<open>None\<close> where \<open>chrono\<close> panics because the sum is out of its range.
\<close>

definition token_preview :: "string \<Rightarrow> (string, 'e) outcome" where
  "token_preview token =
     (if length token > 20
      then if utf8_cont (of_char (token ! 20)) then Panicked else Ok (take 20 token @ ''...'')
      else Ok token)"

definition active_str :: "Account \<Rightarrow> string" where
  "active_str account = (if acc_is_active account then ''active'' else ''inactive'')"

definition created_account :: "string \<Rightarrow> Account \<Rightarrow> AccountId \<Rightarrow> string" where
  "created_account what account i = check_mark @ '' Created '' @ what @ '': '' @ acc_email account @ '' ('' @ account_id_str i @ '')''"

definition account_demo_create ::
  "(datetime \<Rightarrow> nat \<Rightarrow> datetime option) \<Rightarrow> 's db_env \<Rightarrow> ('s demo, AccountId \<times> AccountId \<times> AccountId, DbError) st" where
  "account_demo_create later env =
     bindS (println ''--- CREATE Operations ---'') (\<lambda>_.
     bindS (bindS (sys_demo (utc_now (de_sys env))) (\<lambda>now. liftS (unwrap (later now 1)))) (\<lambda>expires1.
     bindS (sys_demo (account_new (de_sys env) GoogleDrive ''alice@example.com'' ''gdrive_access_token_123''
       (Some ''gdrive_refresh_token_456'') (Some expires1))) (\<lambda>account1.
     bindS (sys_demo (account_new (de_sys env) Dropbox ''bob@example.com'' ''dropbox_token_789''
       (Some ''dropbox_refresh_abc'') None)) (\<lambda>account2.
     bindS (bindS (sys_demo (utc_now (de_sys env))) (\<lambda>now. liftS (unwrap (later now 2)))) (\<lambda>expires3.
     bindS (sys_demo (account_new (de_sys env) OneDrive ''charlie@example.com'' ''onedrive_token_xyz''
       None (Some expires3))) (\<lambda>account3.
     bindS (on_handle (create_account env account1)) (\<lambda>account1_id.
     bindS (println (created_account ''account 1'' account1 account1_id)) (\<lambda>_.
     bindS (on_handle (create_account env account2)) (\<lambda>account2_id.
     bindS (println (created_account ''account 2'' account2 account2_id)) (\<lambda>_.
     bindS (on_handle (create_account env account3)) (\<lambda>account3_id.
     bindS (println (created_account ''account 3'' account3 account3_id)) (\<lambda>_.
     bindS (println (newline_str @ ''Testing duplicate detection...'')) (\<lambda>_.
     bindS (matched (on_handle (bindS (sys_conn (account_new (de_sys env) GoogleDrive ''alice@example.com''
       ''different_token'' None None)) (create_account env)))) (\<lambda>duplicate_result.
     bindS (println (duplicate_line duplicate_result)) (\<lambda>_.
     returnS (account1_id, account2_id, account3_id))))))))))))))))"

primrec account_demo_list :: "(datetime \<Rightarrow> string) \<Rightarrow> nat \<Rightarrow> Account list \<Rightarrow> ('s demo, unit, DbError) st" where
  "account_demo_list rfc3339 i [] = returnS ()"
| "account_demo_list rfc3339 i (account # rest) =
     bindS (println (''  '' @ show_nat (i + 1) @ ''. '' @ provider_display_name (acc_provider account) @ '' - '' @
       acc_email account @ '' ('' @ active_str account @ '')'')) (\<lambda>_.
     bindS (liftS (token_preview (acc_access_token account))) (\<lambda>preview.
     bindS (println (''     Access token: '' @ preview)) (\<lambda>_.
     bindS (liftS (case acc_refresh_token account of Some t \<Rightarrow> token_preview t | None \<Rightarrow> Ok ''None'')) (\<lambda>refresh.
     bindS (println (''     Refresh token: '' @ refresh)) (\<lambda>_.
     bindS (println (''     Expires: '' @ (case acc_token_expires_at account of Some t \<Rightarrow> rfc3339 t | None \<Rightarrow> ''Never''))) (\<lambda>_.
     account_demo_list rfc3339 (i + 1) rest))))))"

definition account_demo_read :: "(datetime \<Rightarrow> string) \<Rightarrow> 's db_env \<Rightarrow> AccountId \<Rightarrow> ('s demo, unit, DbError) st" where
  "account_demo_read rfc3339 env account1_id =
     bindS (println (newline_str @ ''--- READ Operations ---'')) (\<lambda>_.
     bindS (on_handle (list_accounts env False)) (\<lambda>all_accounts.
     bindS (println (''Total accounts: '' @ show_nat (length all_accounts))) (\<lambda>_.
     bindS (account_demo_list rfc3339 0 all_accounts) (\<lambda>_.
     bindS (println (newline_str @ ''Fetching account by ID: '' @ account_id_str account1_id)) (\<lambda>_.
     bindS (on_handle (get_account_by_id env account1_id)) (\<lambda>retrieved.
     println_all (case retrieved of
         Some acc \<Rightarrow> [check_mark @ '' Found account:'', ''  Provider: '' @ provider_display_name (acc_provider acc),
           ''  Email: '' @ acc_email acc, ''  Created: '' @ rfc3339 (acc_created_at acc)]
       | None \<Rightarrow> [cross_mark @ '' Account not found''])))))))"

definition account_demo_update :: "'s db_env \<Rightarrow> AccountId \<Rightarrow> ('s demo, unit, DbError) st" where
  "account_demo_update env account2_id =
     bindS (println (newline_str @ ''--- UPDATE Operations ---'')) (\<lambda>_.
     bindS (bindS (on_handle (get_account_by_id env account2_id)) (\<lambda>x. liftS (unwrap x))) (\<lambda>account_to_update.
     bindS (println (''Original email: '' @ acc_email account_to_update)) (\<lambda>_.
     bindS (println (''Original status: active='' @ bool_str (acc_is_active account_to_update))) (\<lambda>_.
     bindS (returnS (account_to_update\<lparr> acc_email := ''bob_updated@example.com'',
       acc_access_token := ''new_dropbox_token_999'', acc_is_active := False \<rparr>)) (\<lambda>account_to_update.
     bindS (on_handle (update_account env account_to_update)) (\<lambda>updated.
     bindS (println (check_mark @ '' Account updated: '' @ bool_str updated)) (\<lambda>_.
     bindS (bindS (on_handle (get_account_by_id env account2_id)) (\<lambda>x. liftS (unwrap x))) (\<lambda>updated_account.
     bindS (println (''New email: '' @ acc_email updated_account)) (\<lambda>_.
     bindS (println (''New status: active='' @ bool_str (acc_is_active updated_account))) (\<lambda>_.
     println (''Updated timestamp changed: '' @
       bool_str (acc_updated_at updated_account > acc_created_at account_to_update))))))))))))"

definition account_demo_active :: "'s db_env \<Rightarrow> ('s demo, unit, DbError) st" where
  "account_demo_active env =
     bindS (println (newline_str @ ''Listing active accounts only:'')) (\<lambda>_.
     bindS (on_handle (list_accounts env True)) (\<lambda>active_accounts.
     bindS (println (''Active accounts: '' @ show_nat (length active_accounts))) (\<lambda>_.
     println_all (map (\<lambda>account. ''  - '' @ acc_email account @ '' ('' @ provider_display_name (acc_provider account) @ '')'')
       active_accounts))))"

definition account_demo_delete :: "'s db_env \<Rightarrow> AccountId \<Rightarrow> ('s demo, unit, DbError) st" where
  "account_demo_delete env account3_id =
     bindS (println (newline_str @ ''--- DELETE Operations ---'')) (\<lambda>_.
     bindS (println (''Deleting account: '' @ account_id_str account3_id)) (\<lambda>_.
     bindS (on_handle (delete_account env account3_id)) (\<lambda>deleted.
     bindS (println (check_mark @ '' Account deleted: '' @ bool_str deleted)) (\<lambda>_.
     bindS (on_handle (get_account_by_id env account3_id)) (\<lambda>deleted_check.
     println (check_mark @ '' Verification - account exists: '' @ bool_str (deleted_check \<noteq> None)))))))"

definition account_demo_final :: "'s db_env \<Rightarrow> ('s demo, unit, DbError) st" where
  "account_demo_final env =
     bindS (println (newline_str @ ''--- Final State ---'')) (\<lambda>_.
     bindS (on_handle (list_accounts env False)) (\<lambda>final_accounts.
     bindS (println (''Remaining accounts: '' @ show_nat (length final_accounts))) (\<lambda>_.
     bindS (println_all (map (\<lambda>account. ''  - '' @ acc_email account @ '' ('' @ provider_display_name (acc_provider account) @
       '') - '' @ active_str account) final_accounts)) (\<lambda>_.
     println_all [newline_str @ ''=== Demo Complete ==='', newline_str @ ''To inspect the database directly, run:'',
       ''  sqlite3 test_accounts.db'', ''  sqlite> SELECT id, provider, email, is_active FROM accounts;'',
       newline_str @ ''To clean up:'', ''  rm test_accounts.db'']))))"

definition account_demo_body ::
  "(datetime \<Rightarrow> string) \<Rightarrow> (datetime \<Rightarrow> nat \<Rightarrow> datetime option) \<Rightarrow> 's db_env \<Rightarrow> ('s demo, unit, DbError) st" where
  "account_demo_body rfc3339 later env =
     bindS (println (check_mark @ '' Database created and migrations applied'' @ newline_str)) (\<lambda>_.
     bindS (account_demo_create later env) (\<lambda>(account1_id, account2_id, account3_id).
     bindS (account_demo_read rfc3339 env account1_id) (\<lambda>_.
     bindS (account_demo_update env account2_id) (\<lambda>_.
     bindS (account_demo_active env) (\<lambda>_.
     bindS (account_demo_delete env account3_id) (\<lambda>_.
     account_demo_final env))))))"

definition account_crud_demo ::
  "(datetime \<Rightarrow> string) \<Rightarrow> (datetime \<Rightarrow> nat \<Rightarrow> datetime option) \<Rightarrow> 's db_env \<Rightarrow> string \<Rightarrow>
   (string \<Rightarrow> database option) \<Rightarrow> 's \<Rightarrow> (unit, DbError) outcome \<times> string list" where
  "account_crud_demo rfc3339 later env accounts_sql store s =
     (let printed = [''=== CloudSync Account CRUD Demo ==='' @ newline_str, ''Creating database at: test_accounts.db'']
      in case database_open env ''test_accounts.db''
          [\<lparr> mg_version = 1, mg_description = ''Create accounts table'', mg_sql = accounts_sql \<rparr>] store s of
        Ok db \<Rightarrow> (case account_demo_body rfc3339 later env (db, printed) of (r, (_, printed)) \<Rightarrow> (r, printed))
      | Err e \<Rightarrow> (Err e, printed)
      | Panicked \<Rightarrow> (Panicked, printed))"

text \<open>Within ASCII, the preview never panics, and never shows more than twenty characters.\<close>

lemma token_preview_ascii:
  assumes "\<forall>c \<in> set token. of_char c < (128 :: nat)"
  shows "token_preview token = Ok (if length token > 20 then take 20 token @ ''...'' else token)"
proof -
  have "length token > 20 \<Longrightarrow> of_char (token ! 20) < (128 :: nat)" using assms by (auto intro: nth_mem)
  then show ?thesis by (auto simp: token_preview_def utf8_cont_def)
qed

text \<open>Accounts are listed without a panic when their tokens are ASCII.\<close>

lemma account_demo_list_runs:
  assumes "\<forall>a \<in> set accounts. \<forall>t \<in> insert (acc_access_token a) (set_option (acc_refresh_token a)). \<forall>c \<in> set t. of_char c < (128 :: nat)"
  shows "\<exists>lines. account_demo_list rfc3339 i accounts (db, printed) = (Ok (), (db, printed @ lines)) \<and> length lines = 4 * length accounts"
  using assms
proof (induction accounts arbitrary: i printed)
  case Nil
  then show ?case by simp
next
  case (Cons a as)
  from Cons.prems obtain p where p: "token_preview (acc_access_token a) = (Ok p :: (string, DbError) outcome)"
    by (auto simp: token_preview_ascii)
  from Cons.prems obtain q where q:
    "(case acc_refresh_token a of Some t \<Rightarrow> token_preview t | None \<Rightarrow> Ok ''None'') = (Ok q :: (string, DbError) outcome)"
    by (cases "acc_refresh_token a") (auto simp: token_preview_ascii)
  let ?head = "[''  '' @ show_nat (i + 1) @ ''. '' @ provider_display_name (acc_provider a) @ '' - '' @ acc_email a @
      '' ('' @ active_str a @ '')'', ''     Access token: '' @ p, ''     Refresh token: '' @ q,
      ''     Expires: '' @ (case acc_token_expires_at a of Some t \<Rightarrow> rfc3339 t | None \<Rightarrow> ''Never'')]"
  from Cons.prems obtain rest where
    "account_demo_list rfc3339 (i + 1) as (db, printed @ ?head) = (Ok (), (db, (printed @ ?head) @ rest))" "length rest = 4 * length as"
    using Cons.IH [of "i + 1" "printed @ ?head"] by auto
  then show ?case using p q by (intro exI [of _ "?head @ rest"]) simp
qed

section \<open>What the cascade shows\<close>

lemma on_handle_app: "on_handle m (db, printed) = (fst (with_conn m db), snd (with_conn m db), printed)"
  by (simp add: on_handle_def on_fst_def split: prod.splits)

lemma list_files_count:
  assumes "handle_inv env acc db"
  shows "\<exists>fs. with_conn (list_files env acc None) db = (Ok fs, db) \<and>
    length fs = length (filter (\<lambda>r. fr_account_id r = account_id_str acc) (db_files (cn_db (dbh_conn db))))"
proof -
  from list_files_readable [OF assms] obtain fs where fs: "with_conn (list_files env acc None) db = (Ok fs, db)" by blast
  have w: "sqlite_works env" "conn_ok (dbh_conn db)" "\<not> dbh_poisoned db" using assms by (auto simp: handle_inv_def meta_inv_def)
  then obtain c' where "list_files env acc None (dbh_conn db) = (Ok fs, c')"
    using fs by (auto simp: with_conn_def split: prod.splits outcome.splits)
  from list_files_complete [OF w(1,2) this] obtain rows where
    "mset rows = {# r \<in># mset (db_files (cn_db (dbh_conn db))). fr_account_id r = account_id_str acc #}"
    "list_all2 (\<lambda>r f. file_from_row (de_chrono env) r = Ok f) rows fs" by auto
  then have "length fs = size {# r \<in># mset (db_files (cn_db (dbh_conn db))). fr_account_id r = account_id_str acc #}"
    by (metis list_all2_lengthD size_mset)
  then show ?thesis using fs by (simp flip: mset_filter)
qed

text \<open>Creating a file of the demonstration: the clock's instants can be read back.\<close>

lemma demo_file_created:
  assumes inv: "handle_inv env acc db" and free: "\<forall>r \<in> set (db_files (cn_db (dbh_conn db))). fr_account_id r = account_id_str acc \<longrightarrow>
      fr_provider_file_id r \<noteq> fid" and seq: "handle_seq db + 1 < 2 ^ 63"
    and f: "demo_file (de_sys env) acc fid path nm sz hash folder s = (f, s')"
  shows "\<exists>db' row. with_conn (create_file env f) db = (Ok (handle_seq db + 1), db') \<and> handle_inv env acc db' \<and>
    db_files (cn_db (dbh_conn db')) = db_files (cn_db (dbh_conn db)) @ [row] \<and> fr_account_id row = account_id_str acc \<and>
    fr_provider_file_id row = fid \<and> handle_seq db' = handle_seq db + 1"
proof -
  have m: "meta_inv env acc (dbh_conn db)" and np: "\<not> dbh_poisoned db" using inv by (auto simp: handle_inv_def)
  have a: "no_faults (de_sql env)" "conn_ok (dbh_conn db)" "clock_ok env" "account_exists (account_id_str acc) (cn_db (dbh_conn db))"
    using m by (auto simp: meta_inv_def sqlite_works_def)
  let ?row = "(file_params (de_chrono env) f)\<lparr> fr_id := handle_seq db + 1 \<rparr>"
  have fields: "f_account_id f = acc" "f_provider_file_id f = FileId fid" "f_synced_at f = None" "f_state f = Pending"
    "stamp_ok (de_chrono env) (f_modified_at f)" "stamp_ok (de_chrono env) (f_created_at f)" "stamp_ok (de_chrono env) (f_updated_at f)"
    using f a(3) by (auto simp: demo_file_def file_new_def clock_ok_def split: prod.splits) (metis fst_conv)+
  have row: "fr_account_id ?row = account_id_str acc" "fr_provider_file_id ?row = fid" "row_readable (de_chrono env) ?row"
    using fields by (simp_all add: file_params_def row_readable_def stamp_ok_readable)
  have dk: "db_ok (cn_db (dbh_conn db))" using a(2) by (simp add: conn_ok_def)
  then have "file_fits ?row (db_files (cn_db (dbh_conn db)))"
    using free row(1,2) by (fastforce simp: file_fits_def db_ok_def file_params_def)
  then have cr: "create_file env f (dbh_conn db) = (Ok (handle_seq db + 1), (dbh_conn db)\<lparr> cn_db := (cn_db (dbh_conn db))\<lparr>
      db_files := db_files (cn_db (dbh_conn db)) @ [?row], db_files_seq := handle_seq db + 1 \<rparr> \<rparr>)"
    using create_file_result [OF a(1,2), of f] seq a(4) fields(1) by simp
  let ?c = "(dbh_conn db)\<lparr> cn_db := (cn_db (dbh_conn db))\<lparr>
      db_files := db_files (cn_db (dbh_conn db)) @ [?row], db_files_seq := handle_seq db + 1 \<rparr> \<rparr>"
  have "conn_ok ?c" using preservesD [OF create_file_preserves a(2) cr] .
  then have "meta_inv env acc ?c" using m row(3) by (auto simp: meta_inv_def account_exists_def)
  then show ?thesis using cr np row
    by (intro exI [of _ "db\<lparr> dbh_conn := ?c \<rparr>"] exI [of _ ?row]) (simp add: with_conn_def handle_inv_def)
qed

text \<open>The clock can be read at any time.\<close>

lemma sys_demo_reads:
  assumes "handle_inv env acc db"
  shows "\<exists>x s s'. sys_demo f (db, printed) = (Ok x, (db\<lparr> dbh_conn := (dbh_conn db)\<lparr> cn_sys := s' \<rparr> \<rparr>, printed)) \<and>
    f s = (x, s') \<and> handle_inv env acc (db\<lparr> dbh_conn := (dbh_conn db)\<lparr> cn_sys := s' \<rparr> \<rparr>)"
proof -
  obtain x s' where "f (cn_sys (dbh_conn db)) = (x, s')" by fastforce
  then show ?thesis
    using assms by (intro exI [of _ x] exI [of _ "cn_sys (dbh_conn db)"] exI [of _ s'])
      (simp add: sys_demo_def handle_inv_def meta_inv_def conn_ok_def)
qed

lemma file_demo_cascade_result:
  assumes inv: "handle_inv env acc db" and none: "\<forall>r \<in> set (db_files (cn_db (dbh_conn db))). fr_account_id r \<noteq> account_id_str acc"
    and seq: "handle_seq db + 2 < 2 ^ 63"
  shows "\<exists>db'. file_demo_cascade env acc (db, printed) = (Ok (), (db', printed @
      [newline_str @ ''--- CASCADE DELETE Demo ---'', ''Creating new files for cascade delete demonstration...'',
       check_mark @ '' Created 2 files for cascade test'', ''Files before account deletion: '' @ show_nat 2,
       newline_str @ ''Deleting account (should cascade delete all files)...'', check_mark @ '' Account deleted'',
       check_mark @ '' Files after account deletion: '' @ show_nat 0])) \<and>
    db_files (cn_db (dbh_conn db')) = db_files (cn_db (dbh_conn db)) \<and> \<not> account_exists (account_id_str acc) (cn_db (dbh_conn db'))"
proof -
  let ?a = "account_id_str acc" and ?files = "\<lambda>db. db_files (cn_db (dbh_conn db))"
  let ?pr = "printed @ [newline_str @ ''--- CASCADE DELETE Demo ---'', ''Creating new files for cascade delete demonstration...'']"
  let ?fa = "demo_file (de_sys env) acc ''cascade_file_1'' ''/test_a.txt'' ''test_a.txt'' (Some 100) None False"
  let ?fb = "demo_file (de_sys env) acc ''cascade_file_2'' ''/test_b.txt'' ''test_b.txt'' (Some 200) None False"
  obtain a s1 s1' where a: "sys_demo ?fa (db, ?pr) = (Ok a, (db\<lparr> dbh_conn := (dbh_conn db)\<lparr> cn_sys := s1' \<rparr> \<rparr>, ?pr))"
    "?fa s1 = (a, s1')" "handle_inv env acc (db\<lparr> dbh_conn := (dbh_conn db)\<lparr> cn_sys := s1' \<rparr> \<rparr>)"
    using sys_demo_reads [OF inv, of ?fa ?pr] by blast
  define db1 where "db1 = db\<lparr> dbh_conn := (dbh_conn db)\<lparr> cn_sys := s1' \<rparr> \<rparr>"
  note a = a [folded db1_def]
  obtain b s2 s2' where b: "sys_demo ?fb (db1, ?pr) = (Ok b, (db1\<lparr> dbh_conn := (dbh_conn db1)\<lparr> cn_sys := s2' \<rparr> \<rparr>, ?pr))"
    "?fb s2 = (b, s2')" "handle_inv env acc (db1\<lparr> dbh_conn := (dbh_conn db1)\<lparr> cn_sys := s2' \<rparr> \<rparr>)"
    using sys_demo_reads [OF a(3), of ?fb ?pr] by blast
  define db2 where "db2 = db1\<lparr> dbh_conn := (dbh_conn db1)\<lparr> cn_sys := s2' \<rparr> \<rparr>"
  note b = b [folded db2_def]
  have same: "?files db2 = ?files db" "handle_seq db2 = handle_seq db" by (simp_all add: db2_def db1_def)
  have "\<forall>r \<in> set (?files db2). fr_account_id r = ?a \<longrightarrow> fr_provider_file_id r \<noteq> ''cascade_file_1''" using none same by auto
  from demo_file_created [OF b(3) this _ a(2)] obtain db3 ra where 3:
    "with_conn (create_file env a) db2 = (Ok (handle_seq db2 + 1), db3)" "handle_inv env acc db3" "?files db3 = ?files db2 @ [ra]"
    "fr_account_id ra = ?a" "fr_provider_file_id ra = ''cascade_file_1''" "handle_seq db3 = handle_seq db2 + 1"
    using seq same by auto
  have "\<forall>r \<in> set (?files db3). fr_account_id r = ?a \<longrightarrow> fr_provider_file_id r \<noteq> ''cascade_file_2''" using none same 3(3,5) by auto
  from demo_file_created [OF 3(2) this _ b(2)] obtain db4 rb where 4:
    "with_conn (create_file env b) db3 = (Ok (handle_seq db3 + 1), db4)" "handle_inv env acc db4" "?files db4 = ?files db3 @ [rb]"
    "fr_account_id rb = ?a"
    using seq same 3(6) by auto
  have own: "filter (\<lambda>r. fr_account_id r = ?a) (?files db) = []" using none by (simp add: filter_empty_conv)
  from list_files_count [OF 4(2)] obtain fs where fs: "with_conn (list_files env acc None) db4 = (Ok fs, db4)" "length fs = 2"
    using own same(1) 3(3,4) 4(3,4) by (auto simp: numeral_2_eq_2)
  have w: "sqlite_works env" "conn_ok (dbh_conn db4)" "\<not> dbh_poisoned db4" using 4(2) by (auto simp: handle_inv_def meta_inv_def)
  have gone: "\<not> account_exists ?a (d\<lparr> db_accounts := filter (\<lambda>r. ar_id r \<noteq> ?a) rs, db_files := fs, db_cursors := cs \<rparr>)"
    for d rs fs cs by (auto simp: account_exists_def)
  obtain x c5 where 5: "delete_account env acc (dbh_conn db4) = (Ok x, c5)"
    "db_files (cn_db c5) = filter (\<lambda>r. fr_account_id r \<noteq> ?a) (?files db4)" "\<not> account_exists ?a (cn_db c5)"
    using delete_account_cascades [OF w(1,2), of acc] gone by auto
  let ?db5 = "db4\<lparr> dbh_conn := c5 \<rparr>"
  have files5: "db_files (cn_db c5) = ?files db"
    using own none same(1) 3(3,4) 4(3,4) 5(2) by (auto simp: filter_id_conv)
  have "mset (sq_scan_files (de_sql env) ''SELECT files'' (db_files (cn_db c5))) = mset (?files db)"
    using w(1) files5 by (simp add: sqlite_works_def scans_rows_def)
  then have "set (sq_scan_files (de_sql env) ''SELECT files'' (db_files (cn_db c5))) = set (?files db)" by (rule mset_eq_setD)
  then have "filter (\<lambda>r. fr_account_id r = ?a) (sq_scan_files (de_sql env) ''SELECT files'' (db_files (cn_db c5))) = []"
    using none by (simp add: filter_empty_conv)
  then have empty: "with_conn (list_files env acc None) ?db5 = (Ok [], ?db5)"
    using w by (simp add: with_conn_def list_files_def map_errS_def sql_query_map_def sqlite_works_def no_faults_def)
  have del: "with_conn (delete_account env acc) db4 = (Ok x, ?db5)" using w(3) 5(1) by (simp add: with_conn_def)
  show ?thesis
    using a(1) b(1) 3(1) 4(1) fs del empty files5 5(3)
    by (intro exI [of _ ?db5]) (simp add: file_demo_cascade_def on_handle_app)
qed

end
