(* ===== verification/Spec2Isabelle.thy ===== *)
theory Spec2Isabelle
  imports Core_Display Sync_Queue Sync_Engine Db_Open Db_Types Vfs_Inode Vfs_Metadata Content_Cache Filesystem
    Ipc Gdrive Gdrive_Auth Token_Storage Config Daemon Daemon_Main Daemon_Start Vfs_Drive Vfs_Threads Daemon_Clients Queue_Demo Db_Demo
begin

text \<open>
  CloudSync keeps a local tree of files in step with cloud storage. It is a Rust workspace of
  eight crates under \<open>src/crates\<close>; this library models their code as executable functions and
  step relations and proves what makes them correct.

  \<^bold>\<open>The parts and how they interact.\<close>
  A provider (\<open>cloudsync-providers\<close>, Google Drive) answers listings, a feed of changes and
  downloads. The synchronisation engine (\<open>cloudsync-sync\<close>) turns listings and changes into
  operations on a priority queue and executes them. The database (\<open>cloudsync-db\<close>, SQLite)
  keeps accounts, files, inodes and change cursors. The virtual filesystem (\<open>cloudsync-vfs\<close>)
  has a synchroniser that writes the provider's changes into the files table, a metadata cache
  that reads it, an inode manager on the inode table, a content cache that downloads files
  when they are opened, and the FUSE handlers over the four. The daemon (\<open>cloudsync-daemon\<close>)
  runs the engine and answers the requests that clients send over a socket
  (\<open>cloudsync-ipc\<close>); \<open>cloudsync-config\<close> holds its settings and \<open>cloudsync-core\<close> the
  types all crates share.

  \<^bold>\<open>Theories and sources.\<close>
  \<^item> \<open>Prelude\<close>: outcomes of calls, state passing, machine integers, the string operations of
    Rust's standard library; \<open>Rust_Path\<close> and \<open>Rust_File\<close>: what is used of \<open>std::path\<close> and
    \<open>std::fs\<close>; \<open>Binary_Heap\<close>: \<open>std::collections::BinaryHeap\<close>.
  \<^item> \<open>Core_Types\<close>: \<open>cloudsync-core\<close> (\<open>types.rs\<close>, \<open>file_state.rs\<close>, \<open>error.rs\<close>, \<open>browser.rs\<close>),
    with what is only for display in \<open>Core_Display\<close>.
  \<^item> \<open>Sync_Queue\<close>: \<open>cloudsync-sync\<close> (\<open>operation.rs\<close>, \<open>queue.rs\<close>, \<open>error.rs\<close>);
    \<open>Sync_Engine\<close>: its \<open>engine.rs\<close>, with the trait of \<open>cloudsync-core/provider.rs\<close>;
    \<open>Queue_Demo\<close>: its example program \<open>queue_usage.rs\<close>.
  \<^item> \<open>Db_Schema\<close>, \<open>Db_Accounts\<close>, \<open>Db_Files\<close>, \<open>Db_Inodes\<close>: the tables of \<open>cloudsync-db\<close> and the
    operations of \<open>accounts.rs\<close>, \<open>files.rs\<close>, \<open>vfs_inodes.rs\<close> and \<open>sync_cursors.rs\<close>;
    \<open>Db_Open\<close>: \<open>migrations.rs\<close>, \<open>connection.rs\<close>, \<open>lib.rs\<close>; \<open>Db_Types\<close>: what the rows of a reachable
    database decode to; \<open>Db_Demo\<close>: its two example programs.
  \<^item> \<open>Vfs_Inode\<close> (\<open>inode.rs\<close>), \<open>Vfs_Metadata\<close> (\<open>cache.rs\<close>, \<open>metadata_sync.rs\<close>),
    \<open>Content_Cache\<close> (\<open>content_cache.rs\<close>), \<open>Filesystem\<close> (\<open>filesystem.rs\<close>, \<open>lib.rs\<close>):
    \<open>cloudsync-vfs\<close>. \<open>Vfs_Frames\<close> collects what the synchroniser leaves alone, \<open>Vfs_Threads\<close> the
    threads of a mounted filesystem on one database handle.
  \<^item> \<open>Ipc\<close>: \<open>cloudsync-ipc\<close> (\<open>path_resolver.rs\<close>, \<open>messages.rs\<close>, \<open>transport.rs\<close>,
    \<open>server.rs\<close>, \<open>client.rs\<close>, \<open>error.rs\<close>).
  \<^item> \<open>Gdrive\<close> (\<open>gdrive/provider.rs\<close>), \<open>Token_Storage\<close> (\<open>gdrive/token_storage.rs\<close>) and
    \<open>Gdrive_Auth\<close> (\<open>gdrive/oauth.rs\<close>, \<open>gdrive/client.rs\<close>, the provider as a whole):
    \<open>cloudsync-providers\<close>.
  \<^item> \<open>Vfs_Drive\<close>: the virtual filesystem and its synchroniser on the Google Drive provider.
  \<^item> \<open>Config\<close>: \<open>cloudsync-config\<close>; \<open>Daemon\<close> (\<open>handler.rs\<close>), \<open>Daemon_Clients\<close> (its
    \<open>handle\<close> in the tasks of several clients), \<open>Daemon_Main\<close> (the parts of
    \<open>main.rs\<close>) and \<open>Daemon_Start\<close> (its start, and \<open>main\<close> as a whole): \<open>cloudsync-daemon\<close>.

  \<^bold>\<open>How state and operations correspond.\<close>
  A Rust struct is a record with its fields, an enum a datatype with its variants, a method a
  function of the same name, prefixed where two types have methods of one name. A call ends
  in an \<open>outcome\<close>: \<open>Ok\<close>, \<open>Err\<close> with the code's own error, or \<open>Panicked\<close>. Methods that change
  state have the type \<open>('s, 'a, 'e) st\<close>, which hands the new state back in all three cases, so
  that what a failing call leaves behind is part of the model; \<open>bindS\<close> is the \<open>?\<close> operator.
  \<open>u64\<close>, \<open>u32\<close> and \<open>i64\<close> values are words or carry their casts; strings are their UTF-8 bytes.
  The state of the engine and the filesystem is threaded through together with a world: the
  disk (a map from absolute locations to directories and files) and the outer state, which
  only parameters look into. The database is a record of lists of rows; a statement checks the
  constraints the migrations declare, and SQLite may fail any statement on its own.

  Concurrency is written as steps. Methods under a mutex are atomic: \<open>queue_history\<close> is any
  interleaving of the calls on a shared queue, \<open>db_history\<close> any sequence of calls on a database
  handle, with the poisoning of its mutex by a panic. \<open>cc_reach\<close> interleaves threads inside
  \<open>ensure_downloaded\<close> at its lock operations. \<open>run_sections\<close> is any sequence of the critical
  sections of the FUSE handlers and the background synchroniser, each one \<open>with_conn\<close> or one
  allocation of an inode; \<open>run_task\<close> interleaves the tasks of any number of clients of the
  daemon at the handler's uses of the database and the channel. The \<open>select!\<close> of a connection is a list of
  events, each a line of input or a broadcast; a broadcast, like a timeout of the client,
  carries how many bytes of a line the read that it cancels had taken.

  \<^bold>\<open>Interfaces.\<close>
  \<open>max_queue\<close> states what a client of a priority queue relies on and \<open>heap_order\<close> what a
  heap needs of its comparison; \<open>heap_order\<close> gives \<open>max_queue\<close>, and \<open>queue_order\<close> instantiates
  it with the comparison of queued operations. \<open>inode_alloc\<close> is the contract of an allocator of
  stable numbers, with the inode manager as its model \<open>mgr\<close>. \<open>secret_store\<close> is that of a
  store of one secret, with the token file, the keyring and the combined backend as its
  models. \<open>section_steps\<close> is the contract of a step on a shared state (invariant,
  specification, room, promises kept), which the critical sections satisfy.

  \<^bold>\<open>What the lemmas show.\<close>
  \<^item> Queue: pop serves a greatest operation, nothing is lost or handed out twice under any
    interleaving, draining agrees with \<open>list\<close> except among ties, and a failed \<open>remove\<close> empties the queue.
  \<^item> Engine: a refresh ends exactly when the feed does and then has queued what the feed holds;
    execution refines a walk through the operations in the order they are served; targets stay below the local root.
  \<^item> Database: the constraints hold in every reachable handle and every row in it decodes;
    operations do exactly what their names say; round trips up to whole seconds; migrations
    all or none.
  \<^item> Filesystem: inodes are stable, unique and survive restarts; the synchroniser follows the
    feed; paging through a directory ends and is complete; downloads in the content cache are
    safe under interleaving, though one file may be downloaded twice. The code of the handlers
    and of the synchroniser consists of critical sections, which in any order leave in the
    files table what their specifications say; an inode a lookup answered with stays good.
  \<^item> Messages and daemon: every request over a working connection is answered in order with
    what a specification over file states by path says, and the tasks of several clients follow
    its steps however they interleave; a response after the timeout is
    taken for the answer to the next request.
  \<^item> Google Drive: what refreshes and downloads amount to, what a process reads of a file
    that is downloaded when it is opened, and that a changed file keeps its cached bytes;
    tokens survive a restart.
  \<^item> The program: after its start the refresh loop queues no download, and no action a client
    asks for reaches it.

  \<^bold>\<open>Loops.\<close>
  Loops over data are recursive functions, with measures where the recursion is not on the
  data. The loop over a change feed may run forever and is a \<open>partial_function (option)\<close> whose
  \<open>None\<close> means that it never returns; its return is proved equivalent to the end of the feed.
  The limit of \<open>execute_operations\<close> is the \<open>usize\<close> of the call. No function takes fuel.

  \<^bold>\<open>Parameters.\<close>
  The clock and the UUID generator, \<open>chrono\<close>, \<open>url\<close>, \<open>serde_json\<close>, \<open>toml\<close>, \<open>directories\<close>, the
  keyring, the calls of \<open>google-drive3\<close> and \<open>yup-oauth2\<close>, the rounding of floating-point numbers, the execution of a migration's SQL text, the order in
  which SQLite visits rows, and the refusals of the operating system. What a property relies
  on is a named hypothesis (\<open>stamp_ok\<close>, \<open>sqlite_works\<close>, \<open>no_io_faults\<close> and their like), which a witness instantiates.

  \<^bold>\<open>Not modelled.\<close>
  What \<open>yup-oauth2\<close> does to get a token; the parsing of arguments; logging; paths that are not
  UTF-8; constructors of channels and the handles that only pass a flag to a thread
  (\<open>ShutdownHandle\<close>, \<open>SyncHandle\<close>); a handler that waits because the action channel is full;
  the examples of \<open>cloudsync-providers\<close> and \<open>cloudsync-vfs\<close>, and the tests. Nothing in the program shares a database
  handle between the daemon and a mounted filesystem, so the two are not composed. A section
  of the filesystem's threads on which SQLite fails is covered by the lemmas on the single
  operations, not by the theorems on sequences of sections, which are for a working database.
\<close>

end
